(* ===== verification/Prelude.thy ===== *)
theory Prelude
  imports Main "HOL-Library.Sublist"
begin

text \<open>
  The vocabulary shared by every component of the development: Go strings as byte strings
  (\<open>string\<close>, a list of 8-bit characters), the functions of the packages \<open>strings\<close>,
  \<open>path\<close> and \<open>path/filepath\<close> (Unix) that the program calls, and the general lemmas
  about them.  \<open>ToLower\<close> and the letter tests are the ASCII ones; bytes of 128 and above are
  left alone.  The collection \<open>go_simps\<close> holds the rules that evaluate string operations.
\<close>

named_theorems go_simps \<open>unfolding rules for the Go string functions\<close>

abbreviation slash :: char where
  "slash \<equiv> CHR ''/''"

subsection \<open>Package strings\<close>

definition HasPrefix :: "string \<Rightarrow> string \<Rightarrow> bool" where
  "HasPrefix s p \<longleftrightarrow> take (length p) s = p"

definition HasSuffix :: "string \<Rightarrow> string \<Rightarrow> bool" where
  "HasSuffix s p \<longleftrightarrow> length p \<le> length s \<and> drop (length s - length p) s = p"

definition TrimPrefix :: "string \<Rightarrow> string \<Rightarrow> string" where
  "TrimPrefix s p = (if HasPrefix s p then drop (length p) s else s)"

definition TrimSuffix :: "string \<Rightarrow> string \<Rightarrow> string" where
  "TrimSuffix s p = (if HasSuffix s p then take (length s - length p) s else s)"

text \<open>\<open>strings.Split\<close> with a one-byte separator.\<close>

fun Split :: "char \<Rightarrow> string \<Rightarrow> string list" where
  "Split c [] = [[]]"
| "Split c (x # xs) =
     (if x = c then [] # Split c xs
      else case Split c xs of [] \<Rightarrow> [[x]] | y # ys \<Rightarrow> (x # y) # ys)"

fun Join :: "string list \<Rightarrow> string \<Rightarrow> string" where
  "Join [] sep = []"
| "Join [s] sep = s"
| "Join (s # t # ss) sep = s @ sep @ Join (t # ss) sep"

definition Count :: "string \<Rightarrow> char \<Rightarrow> nat" where
  "Count s c = length (filter (\<lambda>x. x = c) s)"

definition ContainsByte :: "string \<Rightarrow> char \<Rightarrow> bool" where
  "ContainsByte s c \<longleftrightarrow> c \<in> set s"

fun Contains :: "string \<Rightarrow> string \<Rightarrow> bool" where
  "Contains [] p = (p = [])"
| "Contains (x # xs) p = (HasPrefix (x # xs) p \<or> Contains xs p)"

text \<open>\<open>cutAt c s\<close> is \<open>s[:i], s[i+1:]\<close> for the first index \<open>i\<close> of \<open>c\<close> (\<open>strings.SplitN\<close> with
  \<open>n = 2\<close>); \<open>None\<close> when \<open>c\<close> does not occur.\<close>

fun cutAt :: "char \<Rightarrow> string \<Rightarrow> (string \<times> string) option" where
  "cutAt c [] = None"
| "cutAt c (x # xs) =
     (if x = c then Some ([], xs) else map_option (\<lambda>(a, b). (x # a, b)) (cutAt c xs))"

text \<open>\<open>cutAtLast c s\<close> splits at the last index of \<open>c\<close> (\<open>strings.LastIndex\<close>).\<close>

definition cutAtLast :: "char \<Rightarrow> string \<Rightarrow> (string \<times> string) option" where
  "cutAtLast c s = map_option (\<lambda>(a, b). (rev b, rev a)) (cutAt c (rev s))"

definition TrimLeft :: "string \<Rightarrow> char \<Rightarrow> string" where
  "TrimLeft s c = dropWhile (\<lambda>x. x = c) s"

definition TrimRight :: "string \<Rightarrow> char \<Rightarrow> string" where
  "TrimRight s c = rev (dropWhile (\<lambda>x. x = c) (rev s))"

text \<open>\<open>strings.TrimSpace\<close> on ASCII white space.\<close>

definition isSpaceByte :: "char \<Rightarrow> bool" where
  "isSpaceByte c \<longleftrightarrow> (let n = of_char c in n = (32::nat) \<or> (9 \<le> n \<and> n \<le> 13))"

definition TrimSpace :: "string \<Rightarrow> string" where
  "TrimSpace s = rev (dropWhile isSpaceByte (rev (dropWhile isSpaceByte s)))"

definition isLower :: "char \<Rightarrow> bool" where
  "isLower c \<longleftrightarrow> (97::nat) \<le> of_char c \<and> of_char c \<le> (122::nat)"

definition isUpper :: "char \<Rightarrow> bool" where
  "isUpper c \<longleftrightarrow> (65::nat) \<le> of_char c \<and> of_char c \<le> (90::nat)"

definition isDigit :: "char \<Rightarrow> bool" where
  "isDigit c \<longleftrightarrow> (48::nat) \<le> of_char c \<and> of_char c \<le> (57::nat)"

definition isLetter :: "char \<Rightarrow> bool" where
  "isLetter c \<longleftrightarrow> isLower c \<or> isUpper c"

definition toLowerByte :: "char \<Rightarrow> char" where
  "toLowerByte c = (if isUpper c then char_of (of_char c + 32 :: nat) else c)"

definition toUpperByte :: "char \<Rightarrow> char" where
  "toUpperByte c = (if isLower c then char_of (of_char c - 32 :: nat) else c)"

definition ToLower :: "string \<Rightarrow> string" where
  "ToLower s = map toLowerByte s"

lemmas [go_simps] =
  HasPrefix_def HasSuffix_def TrimPrefix_def TrimSuffix_def Count_def ContainsByte_def
  cutAtLast_def TrimLeft_def TrimRight_def isSpaceByte_def TrimSpace_def isLower_def
  isUpper_def isDigit_def isLetter_def toLowerByte_def toUpperByte_def ToLower_def Let_def

lemma HasPrefix_iff_prefix: "HasPrefix s p \<longleftrightarrow> prefix p s"
  by (metis HasPrefix_def append_eq_conv_conj prefix_def take_is_prefix)

lemma HasPrefixE:
  assumes "HasPrefix s p"
  obtains t where "s = p @ t"
  using assms by (auto simp: HasPrefix_iff_prefix prefix_def)

lemma HasPrefix_append [simp]: "HasPrefix (p @ t) p"
  by (simp add: HasPrefix_def)

lemma HasPrefix_refl [simp]: "HasPrefix s s"
  by (simp add: HasPrefix_def)

lemma HasPrefix_Nil [simp]: "HasPrefix s []"
  by (simp add: HasPrefix_def)

lemma HasPrefix_trans: "HasPrefix s p \<Longrightarrow> HasPrefix p q \<Longrightarrow> HasPrefix s q"
  by (auto simp: HasPrefix_iff_prefix intro: prefix_order.trans)

lemma TrimPrefix_append [simp]: "TrimPrefix (p @ t) p = t"
  by (simp add: TrimPrefix_def)

lemma TrimPrefix_id: "\<not> HasPrefix s p \<Longrightarrow> TrimPrefix s p = s"
  by (simp add: TrimPrefix_def)

lemma append_TrimPrefix: "HasPrefix s p \<Longrightarrow> p @ TrimPrefix s p = s"
  by (auto elim: HasPrefixE)

lemma HasSuffix_iff_suffix: "HasSuffix s p \<longleftrightarrow> suffix p s"
proof
  assume h: "HasSuffix s p"
  then have "s = take (length s - length p) s @ p"
    using append_take_drop_id [of "length s - length p" s] by (simp add: HasSuffix_def)
  then show "suffix p s" unfolding suffix_def by blast
next
  assume "suffix p s"
  then show "HasSuffix s p" by (auto simp: HasSuffix_def suffix_def)
qed

lemma HasSuffix_append [simp]: "HasSuffix (t @ p) p"
  by (simp add: HasSuffix_def)

lemma TrimSuffix_append [simp]: "TrimSuffix (t @ p) p = t"
  by (simp add: TrimSuffix_def)

subsection \<open>Splitting and joining\<close>

lemma Split_not_Nil [simp]: "Split c s \<noteq> []"
  by (induction s) (auto split: list.split)

lemma Join_Cons: "ss \<noteq> [] \<Longrightarrow> Join (s # ss) sep = s @ sep @ Join ss sep"
  by (cases ss) simp_all

lemma Join_Split [simp]: "Join (Split c s) [c] = s"
proof (induction s)
  case Nil
  show ?case by simp
next
  case (Cons x s)
  show ?case
  proof (cases "Split c s")
    case Nil
    then show ?thesis by simp
  next
    case (Cons y ys)
    with Cons.IH show ?thesis by (cases ys) auto
  qed
qed

lemma Split_no_sep: "x \<in> set (Split c s) \<Longrightarrow> c \<notin> set x"
proof (induction s arbitrary: x)
  case Nil
  then show ?case by simp
next
  case (Cons a s)
  then show ?case by (cases "Split c s") (auto split: if_splits)
qed

lemma Split_id: "c \<notin> set s \<Longrightarrow> Split c s = [s]"
  by (induction s) auto

lemma Split_append_sep: "c \<notin> set s \<Longrightarrow> Split c (s @ c # t) = s # Split c t"
  by (induction s) auto

lemma Split_Join:
  assumes "ss \<noteq> []" and "\<forall>s \<in> set ss. c \<notin> set s"
  shows "Split c (Join ss [c]) = ss"
  using assms
proof (induction ss)
  case Nil
  then show ?case by simp
next
  case (Cons s ss)
  then show ?case
    by (cases ss) (simp_all add: Split_id Split_append_sep)
qed

lemma Split_append: "Split c (s @ c # t) = Split c s @ Split c t"
proof (induction s)
  case Nil
  show ?case by simp
next
  case (Cons x s)
  then show ?case by (cases "Split c s") auto
qed

lemma length_Split: "length (Split c s) = Suc (Count s c)"
  by (induction s) (auto simp: Count_def split: list.split)

lemma cutAt_Some: "cutAt c s = Some (a, b) \<Longrightarrow> s = a @ c # b \<and> c \<notin> set a"
proof (induction s arbitrary: a)
  case Nil
  then show ?case by simp
next
  case (Cons x s)
  then show ?case by (auto split: if_splits)
qed

lemma cutAt_None: "cutAt c s = None \<longleftrightarrow> c \<notin> set s"
  by (induction s) auto

lemma cutAt_append: "c \<notin> set a \<Longrightarrow> cutAt c (a @ c # b) = Some (a, b)"
  by (induction a) auto

lemma cutAtLast_Some: "cutAtLast c s = Some (a, b) \<Longrightarrow> s = a @ c # b \<and> c \<notin> set b"
proof -
  assume "cutAtLast c s = Some (a, b)"
  then have "cutAt c (rev s) = Some (rev b, rev a)"
    by (auto simp: cutAtLast_def)
  from cutAt_Some [OF this] have "rev s = rev b @ c # rev a" and n: "c \<notin> set b" by auto
  then have "rev (rev s) = rev (rev b @ c # rev a)" by (simp only:)
  with n show ?thesis by simp
qed

lemma cutAtLast_None: "cutAtLast c s = None \<longleftrightarrow> c \<notin> set s"
  by (simp add: cutAtLast_def cutAt_None)

subsection \<open>Letter case\<close>

lemma toLowerByte_idem [simp]: "toLowerByte (toLowerByte c) = toLowerByte c"
  by (simp add: toLowerByte_def isUpper_def)

lemma ToLower_idem [simp]: "ToLower (ToLower s) = ToLower s"
  by (simp add: ToLower_def)

lemma length_ToLower [simp]: "length (ToLower s) = length s"
  by (simp add: ToLower_def)

lemma ToLower_append [simp]: "ToLower (s @ t) = ToLower s @ ToLower t"
  by (simp add: ToLower_def)

subsection \<open>Package path: Clean, Join, Split, Base, Ext\<close>

text \<open>
  \<open>path.Clean\<close> works on the components between slashes.  \<open>cleanStep\<close> adds one component to the
  stack of output components, kept in reverse: an empty component and \<open>.\<close> are dropped, \<open>..\<close>
  removes the last component that is not itself a \<open>..\<close>; with nothing to remove it is dropped in a
  rooted path and kept in a relative one.
\<close>

definition cleanStep :: "bool \<Rightarrow> string \<Rightarrow> string list \<Rightarrow> string list" where
  "cleanStep rooted c st =
     (if c = [] \<or> c = ''.'' then st
      else if c = ''..'' then
        (case st of
           [] \<Rightarrow> (if rooted then [] else [c])
         | t # ts \<Rightarrow> (if t = ''..'' then c # st else ts))
      else c # st)"

fun cleanComps :: "bool \<Rightarrow> string list \<Rightarrow> string list \<Rightarrow> string list" where
  "cleanComps rooted [] st = st"
| "cleanComps rooted (c # cs) st = cleanComps rooted cs (cleanStep rooted c st)"

definition isRooted :: "string \<Rightarrow> bool" where
  "isRooted p \<longleftrightarrow> HasPrefix p ''/''"

definition Clean :: "string \<Rightarrow> string" where
  "Clean p =
     (let out = rev (cleanComps (isRooted p) (Split slash p) [])
      in if isRooted p then ''/'' @ Join out ''/''
         else if out = [] then ''.'' else Join out ''/'')"

text \<open>\<open>path.Join\<close> of two elements ignores empty ones.\<close>

definition JoinPath :: "string \<Rightarrow> string \<Rightarrow> string" where
  "JoinPath a b =
     (if a = [] \<and> b = [] then []
      else if a = [] then Clean b
      else if b = [] then Clean a
      else Clean (a @ ''/'' @ b))"

text \<open>\<open>path.Split\<close>: everything up to and including the last slash, and the rest.\<close>

definition SplitPath :: "string \<Rightarrow> string \<times> string" where
  "SplitPath p = (case cutAtLast slash p of None \<Rightarrow> ([], p) | Some (a, b) \<Rightarrow> (a @ ''/'', b))"

text \<open>\<open>filepath.Base\<close>.\<close>

definition BasePath :: "string \<Rightarrow> string" where
  "BasePath p =
     (if p = [] then ''.''
      else let q = TrimRight p slash
           in if q = [] then ''/''
              else (case cutAtLast slash q of None \<Rightarrow> q | Some (a, b) \<Rightarrow> b))"

text \<open>\<open>filepath.Ext\<close>: from the last dot of the last component on.\<close>

definition ExtPath :: "string \<Rightarrow> string" where
  "ExtPath p =
     (case cutAtLast (CHR ''.'') (snd (SplitPath p)) of None \<Rightarrow> [] | Some (a, b) \<Rightarrow> CHR ''.'' # b)"

definition IsAbs :: "string \<Rightarrow> bool" where
  "IsAbs p \<longleftrightarrow> HasPrefix p ''/''"

lemmas [go_simps] =
  cleanStep_def isRooted_def Clean_def JoinPath_def SplitPath_def BasePath_def ExtPath_def IsAbs_def

text \<open>A component that a cleaned path may hold.\<close>

definition plainComp :: "string \<Rightarrow> bool" where
  "plainComp c \<longleftrightarrow> c \<noteq> [] \<and> c \<noteq> ''.'' \<and> c \<noteq> ''..'' \<and> slash \<notin> set c"

lemma cleanComps_append:
  "cleanComps r (as @ bs) st = cleanComps r bs (cleanComps r as st)"
  by (induction as arbitrary: st) auto

lemma cleanStep_plain: "plainComp c \<Longrightarrow> cleanStep r c st = c # st"
  by (auto simp: cleanStep_def plainComp_def)

lemma cleanComps_plain:
  "\<forall>c \<in> set cs. plainComp c \<Longrightarrow> cleanComps r cs st = rev cs @ st"
  by (induction cs arbitrary: st) (auto simp: cleanStep_plain)

text \<open>In a rooted path every output component is plain.\<close>

lemma cleanStep_rooted_plain:
  assumes "\<forall>c \<in> set st. plainComp c" and "slash \<notin> set c"
  shows "\<forall>d \<in> set (cleanStep True c st). plainComp d"
proof (cases "c = [] \<or> c = ''.''")
  case True
  with assms(1) show ?thesis by (simp add: cleanStep_def)
next
  case False
  with assms(2) have "c \<noteq> ''..'' \<Longrightarrow> plainComp c" by (simp add: plainComp_def)
  moreover have "st = t # ts \<Longrightarrow> t \<noteq> ''..''" for t ts
    using assms(1) by (auto simp: plainComp_def)
  ultimately show ?thesis
    using False assms(1) by (cases st) (auto simp: cleanStep_def)
qed

lemma cleanComps_rooted_plain:
  assumes "\<forall>c \<in> set st. plainComp c" and "\<forall>c \<in> set cs. slash \<notin> set c"
  shows "\<forall>d \<in> set (cleanComps True cs st). plainComp d"
  using assms
proof (induction cs arbitrary: st)
  case Nil
  then show ?case by simp
next
  case (Cons c cs)
  then show ?case using cleanStep_rooted_plain [of st c] by simp
qed

lemma Split_plain: "\<forall>c \<in> set (Split slash p). slash \<notin> set c"
  using Split_no_sep by blast

text \<open>The components of a cleaned rooted path: \<open>cleanRoot p\<close> lists them in order.\<close>

definition cleanRoot :: "string \<Rightarrow> string list" where
  "cleanRoot p = rev (cleanComps True (Split slash p) [])"

lemma cleanRoot_plain: "\<forall>c \<in> set (cleanRoot p). plainComp c"
  using cleanComps_rooted_plain [of "[]" "Split slash p"] Split_plain by (simp add: cleanRoot_def)

lemma Clean_rooted: "isRooted p \<Longrightarrow> Clean p = ''/'' @ Join (cleanRoot p) ''/''"
  by (simp add: Clean_def cleanRoot_def)

lemma cleanRoot_Join:
  assumes "\<forall>c \<in> set cs. plainComp c"
  shows "cleanRoot (''/'' @ Join cs ''/'') = cs"
proof (cases "cs = []")
  case True
  then show ?thesis by (simp add: cleanRoot_def cleanStep_def)
next
  case False
  have "\<forall>s \<in> set cs. slash \<notin> set s" using assms by (auto simp: plainComp_def)
  with False have s: "Split slash (''/'' @ Join cs ''/'') = [] # cs"
    by (simp add: Split_Join)
  show ?thesis
    using cleanComps_plain [OF assms, of True "[]"] by (simp add: cleanRoot_def s del: append.simps) (simp add: cleanStep_def)
qed

lemma isRooted_Cons [simp]: "isRooted (slash # p)"
  by (simp add: isRooted_def HasPrefix_def)

lemma isRooted_Clean: "isRooted p \<Longrightarrow> isRooted (Clean p)"
  by (simp add: Clean_rooted)

theorem Clean_rooted_idem: "isRooted p \<Longrightarrow> Clean (Clean p) = Clean p"
proof -
  assume r: "isRooted p"
  have "cleanRoot (Clean p) = cleanRoot p"
    using cleanRoot_Join [OF cleanRoot_plain [of p]] Clean_rooted [OF r] by simp
  then show ?thesis
    using Clean_rooted [OF r] Clean_rooted [OF isRooted_Clean [OF r]] by simp
qed

lemma cleanRoot_append:
  "cleanRoot (a @ ''/'' @ b) = rev (cleanComps True (Split slash b) (rev (cleanRoot a)))"
  by (simp add: cleanRoot_def Split_append cleanComps_append)

subsection \<open>Cleaned relative paths and joined components\<close>

lemma plainComp_last: "plainComp c \<Longrightarrow> c \<noteq> [] \<and> last c \<noteq> slash"
  using last_in_set by (fastforce simp: plainComp_def)

lemma cutAtLast_append: "c \<notin> set b \<Longrightarrow> cutAtLast c (a @ c # b) = Some (a, b)"
  using cutAt_append [of c "rev b" "rev a"] by (simp add: cutAtLast_def)

lemma cleanComps_stack:
  "\<forall>c \<in> set cs. slash \<notin> set c \<Longrightarrow> \<forall>c \<in> set (cleanComps False cs []). c \<noteq> [] \<and> c \<noteq> ''.'' \<and> slash \<notin> set c"
proof (induction cs rule: rev_induct)
  case (snoc c cs)
  then show ?case
    by (auto simp: cleanComps_append cleanStep_def split: list.splits if_splits)
qed simp

lemma cleanComps_relative:
  assumes "\<forall>c \<in> set cs. slash \<notin> set c"
  shows "cleanComps r (rev (cleanComps False cs [])) st = cleanComps r cs st"
  using assms
proof (induction cs rule: rev_induct)
  case (snoc c cs)
  let ?out = "cleanComps False cs []"
  have IH: "cleanComps r (rev ?out) st = cleanComps r cs st" using snoc by simp
  have push: "cleanComps r (rev (c # ?out)) st = cleanStep r c (cleanComps r cs st)"
    by (simp add: cleanComps_append IH)
  consider "c = [] \<or> c = ''.''" | "c = ''..''" | "c \<noteq> []" "c \<noteq> ''.''" "c \<noteq> ''..''" by blast
  then show ?case
  proof cases
    case 1
    then show ?thesis using IH by (auto simp: cleanComps_append cleanStep_def)
  next
    case 2
    show ?thesis
    proof (cases "?out = [] \<or> hd ?out = ''..''")
      case True
      then have "cleanStep False c ?out = c # ?out" using 2 by (cases ?out) (auto simp: cleanStep_def)
      then show ?thesis using push by (simp add: cleanComps_append)
    next
      case False
      then obtain t ts where o: "?out = t # ts" "t \<noteq> ''..''" by (cases ?out) auto
      then have t: "t \<noteq> []" "t \<noteq> ''.''" using cleanComps_stack [of cs] snoc.prems by auto
      have "cleanComps r cs st = t # cleanComps r (rev ts) st"
        unfolding IH [symmetric] using o t by (simp add: cleanComps_append cleanStep_def)
      then show ?thesis using o 2 by (simp add: cleanComps_append cleanStep_def)
    qed
  next
    case 3
    then have "cleanStep False c ?out = c # ?out" by (simp add: cleanStep_def)
    then show ?thesis using push by (simp add: cleanComps_append)
  qed
qed simp

lemma cleanComps_Clean:
  assumes "\<not> isRooted n"
  shows "cleanComps r (Split slash (Clean n)) st = cleanComps r (Split slash n) st"
proof -
  let ?out = "cleanComps False (Split slash n) []"
  note rel = cleanComps_relative [OF Split_plain, of r n st]
  show ?thesis
  proof (cases "?out = []")
    case True
    then show ?thesis using assms rel by (simp add: Clean_def cleanStep_def)
  next
    case False
    have "\<forall>c \<in> set (rev ?out). slash \<notin> set c" using cleanComps_stack [OF Split_plain, of n] by auto
    then have "Split slash (Join (rev ?out) ''/'') = rev ?out" using False by (intro Split_Join) auto
    then show ?thesis using assms False rel by (simp add: Clean_def)
  qed
qed


lemma Split_Join_plain:
  "cs \<noteq> [] \<Longrightarrow> \<forall>c \<in> set cs. plainComp c \<Longrightarrow> Split slash (Join cs ''/'') = cs"
  by (rule Split_Join) (auto simp: plainComp_def)

lemma Join_plain_Nil: "\<forall>c \<in> set cs. plainComp c \<Longrightarrow> Join cs ''/'' = [] \<longleftrightarrow> cs = []"
  by (cases cs rule: remdups_adj.cases) (auto simp: plainComp_def)

lemma Join_plain_inj:
  assumes "\<forall>c \<in> set as. plainComp c" and "\<forall>c \<in> set bs. plainComp c" and "Join as ''/'' = Join bs ''/''"
  shows "as = bs"
  using assms Split_Join_plain [of as] Split_Join_plain [of bs] Join_plain_Nil [of as] Join_plain_Nil [of bs]
  by metis

lemma Join_append:
  "as \<noteq> [] \<Longrightarrow> bs \<noteq> [] \<Longrightarrow> Join (as @ bs) sep = Join as sep @ sep @ Join bs sep"
proof (induction as)
  case (Cons a as)
  then show ?case by (cases as) (simp_all add: Join_Cons)
qed simp

lemma Join_plain_below:
  assumes "\<forall>c \<in> set fs. plainComp c" and "\<forall>c \<in> set rs. plainComp c" and "rs \<noteq> []"
  shows "HasPrefix (Join fs ''/'') (Join rs ''/'' @ ''/'') \<longleftrightarrow> (\<exists>cs. cs \<noteq> [] \<and> fs = rs @ cs)"
proof
  assume "HasPrefix (Join fs ''/'') (Join rs ''/'' @ ''/'')"
  then obtain t where t: "Join fs ''/'' = Join rs ''/'' @ slash # t" by (auto elim: HasPrefixE)
  then have "fs \<noteq> []" by auto
  with assms(1) have "fs = Split slash (Join fs ''/'')" by (simp add: Split_Join_plain)
  also have "\<dots> = rs @ Split slash t"
    unfolding t Split_append using assms(2,3) by (simp add: Split_Join_plain)
  finally show "\<exists>cs. cs \<noteq> [] \<and> fs = rs @ cs" by (metis Split_not_Nil)
next
  assume "\<exists>cs. cs \<noteq> [] \<and> fs = rs @ cs"
  then obtain cs where "cs \<noteq> []" "fs = rs @ cs" by blast
  then have "Join fs ''/'' = (Join rs ''/'' @ ''/'') @ Join cs ''/''" using assms(3) by (simp add: Join_append)
  then show "HasPrefix (Join fs ''/'') (Join rs ''/'' @ ''/'')" by (simp only: HasPrefix_append)
qed

lemma Clean_not_rooted: "\<not> isRooted n \<Longrightarrow> \<not> isRooted (Clean n) \<and> Clean n \<noteq> []"
proof -
  assume n: "\<not> isRooted n"
  show ?thesis
  proof (cases "rev (cleanComps False (Split slash n) [])")
    case Nil
    then show ?thesis using n by (simp add: Clean_def isRooted_def HasPrefix_def)
  next
    case (Cons c cs)
    then have "c \<in> set (cleanComps False (Split slash n) [])" by (metis list.set_intros(1) set_rev)
    then have "c \<noteq> []" "slash \<notin> set c" using cleanComps_stack [OF Split_plain, of n] by auto
    then show ?thesis using n Cons
      by (cases c; cases cs) (auto simp: Clean_def isRooted_def HasPrefix_def)
  qed
qed

lemma Clean_relative_idem: "\<not> isRooted n \<Longrightarrow> Clean (Clean n) = Clean n"
  using Clean_not_rooted [of n] cleanComps_Clean [of n False "[]"]
  by (simp add: Clean_def [of "Clean n"]) (simp add: Clean_def)

lemma JoinPath_Clean: "\<not> isRooted n \<Longrightarrow> n \<noteq> [] \<Longrightarrow> JoinPath r (Clean n) = JoinPath r n"
proof -
  assume n: "\<not> isRooted n" "n \<noteq> []"
  note c = Clean_not_rooted [OF n(1)]
  have "Clean (r @ ''/'' @ Clean n) = Clean (r @ ''/'' @ n)" if "r \<noteq> []"
  proof -
    have "isRooted (r @ ''/'' @ Clean n) = isRooted (r @ ''/'' @ n)"
      using that by (cases r) (simp_all add: isRooted_def HasPrefix_def)
    moreover have "cleanComps b (Split slash (r @ ''/'' @ Clean n)) [] = cleanComps b (Split slash (r @ ''/'' @ n)) []" for b
      using cleanComps_Clean [OF n(1)] by (simp add: Split_append cleanComps_append)
    ultimately show ?thesis unfolding Clean_def [of "r @ ''/'' @ Clean n"] Clean_def [of "r @ ''/'' @ n"] by simp
  qed
  then show ?thesis using n c Clean_relative_idem [OF n(1)] by (simp add: JoinPath_def)
qed

lemma Join_last_plain:
  assumes "as \<noteq> []" and "\<forall>c \<in> set as. plainComp c"
  shows "Join as ''/'' \<noteq> [] \<and> last (Join as ''/'') \<noteq> slash"
proof (cases as rule: rev_cases)
  case Nil
  then show ?thesis using assms by simp
next
  case (snoc bs b)
  then have b: "b \<noteq> []" "last b \<noteq> slash" using assms plainComp_last by auto
  then show ?thesis using snoc by (cases "bs = []") (simp_all add: Join_append)
qed

lemma Clean_Join_plain:
  assumes "\<forall>c \<in> set cs. plainComp c" and "cs \<noteq> []"
  shows "Clean (Join cs ''/'') = Join cs ''/''"
proof -
  have "\<forall>c \<in> set cs. slash \<notin> set c" using assms(1) by (auto simp: plainComp_def)
  then have s: "Split slash (Join cs ''/'') = cs" using assms(2) by (simp add: Split_Join)
  obtain c ds where c: "cs = c # ds" using assms(2) by (cases cs) auto
  then obtain x xs where "c = x # xs" "x \<noteq> slash" using assms(1) by (cases c) (auto simp: plainComp_def)
  then have "\<not> isRooted (Join cs ''/'')" using c by (cases ds) (simp_all add: isRooted_def HasPrefix_def)
  then show ?thesis using s cleanComps_plain [OF assms(1), of False "[]"] assms(2) by (simp add: Clean_def)
qed

subsection \<open>Decimal numbers\<close>

fun decimalAux :: "nat \<Rightarrow> nat \<Rightarrow> string \<Rightarrow> string" where
  "decimalAux 0 n acc = acc"
| "decimalAux (Suc fuel) n acc =
     (let acc' = char_of (48 + n mod 10) # acc
      in if n < 10 then acc' else decimalAux fuel (n div 10) acc')"

text \<open>Decimal notation (\<open>%d\<close>, \<open>strconv.FormatInt\<close>); a number has at most as many digits as its value plus one.\<close>

definition decimal :: "nat \<Rightarrow> string" where
  "decimal n = decimalAux (Suc n) n []"

definition digitValue :: "char \<Rightarrow> nat" where
  "digitValue c = of_char c - 48"

definition decimalValue :: "string \<Rightarrow> nat" where
  "decimalValue s = foldl (\<lambda>v c. v * 10 + digitValue c) 0 s"

lemma digit_char: "k < 10 \<Longrightarrow> isDigit (char_of (48 + k)) \<and> digitValue (char_of (48 + k)) = k"
  by (simp add: isDigit_def digitValue_def)

lemma decimalAux_digits:
  "n \<le> fuel \<Longrightarrow> \<exists>ds. decimalAux (Suc fuel) n acc = ds @ acc \<and> ds \<noteq> [] \<and> (\<forall>c \<in> set ds. isDigit c)
    \<and> decimalValue ds = n"
proof (induction fuel arbitrary: n acc)
  case 0
  then show ?case using digit_char [of 0] by (intro exI [of _ "[char_of 48]"]) (simp add: decimalValue_def)
next
  case (Suc fuel)
  let ?c = "char_of (48 + n mod 10)"
  have c: "isDigit ?c" "digitValue ?c = n mod 10" using digit_char [of "n mod 10"] by auto
  show ?case
  proof (cases "n < 10")
    case True
    then show ?thesis using c by (intro exI [of _ "[?c]"]) (simp add: decimalValue_def)
  next
    case False
    then have "n div 10 \<le> fuel" using Suc.prems by auto
    then obtain ds where "decimalAux (Suc fuel) (n div 10) (?c # acc) = ds @ ?c # acc" "ds \<noteq> []"
      "\<forall>c \<in> set ds. isDigit c" "decimalValue ds = n div 10"
      using Suc.IH by blast
    then show ?thesis using False c
      by (intro exI [of _ "ds @ [?c]"]) (auto simp: decimalValue_def simp del: decimalAux.simps(2) simp add: decimalAux.simps(2) [of "Suc fuel"] Let_def)
  qed
qed

lemma decimal_digits: "decimal n \<noteq> [] \<and> (\<forall>c \<in> set (decimal n). isDigit c)"
  using decimalAux_digits [of n n "[]"] by (auto simp: decimal_def simp del: decimalAux.simps)

lemma decimalValue_decimal [simp]: "decimalValue (decimal n) = n"
  using decimalAux_digits [of n n "[]"] by (auto simp: decimal_def simp del: decimalAux.simps)

lemma decimal_inj [simp]: "decimal n = decimal m \<longleftrightarrow> n = m"
  by (metis decimalValue_decimal)

end
