(* ===== verification/Go_URL.thy ===== *)
theory Go_URL
  imports Prelude
begin

text \<open>
  What the program uses of Go's \<open>net/url\<close> and of \<open>net.SplitHostPort\<close>: the URL record,
  \<open>Parse\<close> with its error cases, percent-escaping and -unescaping in the modes the standard
  library distinguishes, \<open>URL.String\<close>, and query strings.  A failed call is \<open>None\<close>: the
  program never looks at the text of these errors.
\<close>

named_theorems url_simps \<open>unfolding rules for URL parsing and printing\<close>

record url =
  uScheme :: string
  uOpaque :: string
  uUser :: "(string \<times> string option) option"
  uHost :: string
  uPath :: string
  uRawPath :: string
  uForceQuery :: bool
  uRawQuery :: string
  uFragment :: string

definition emptyURL :: url where
  "emptyURL = \<lparr>uScheme = [], uOpaque = [], uUser = None, uHost = [], uPath = [], uRawPath = [],
     uForceQuery = False, uRawQuery = [], uFragment = []\<rparr>"

datatype encoding =
    encodePath
  | encodePathSegment
  | encodeHost
  | encodeZone
  | encodeUserPassword
  | encodeQueryComponent
  | encodeFragment

subsection \<open>Escaping\<close>

definition isHexByte :: "char \<Rightarrow> bool" where
  "isHexByte c \<longleftrightarrow> isDigit c
     \<or> ((97::nat) \<le> of_char c \<and> of_char c \<le> (102::nat))
     \<or> ((65::nat) \<le> of_char c \<and> of_char c \<le> (70::nat))"

definition unhex :: "char \<Rightarrow> nat" where
  "unhex c =
     (if isDigit c then of_char c - 48
      else if (97::nat) \<le> of_char c then of_char c - 87
      else of_char c - 55)"

definition upperhex :: "nat \<Rightarrow> char" where
  "upperhex n = (if n < 10 then char_of (48 + n) else char_of (55 + n))"

text \<open>The characters each mode leaves unescaped (\<open>shouldEscape\<close> of \<open>net/url\<close>).\<close>

definition shouldEscape :: "char \<Rightarrow> encoding \<Rightarrow> bool" where
  "shouldEscape c mode =
     (if isLetter c \<or> isDigit c then False
      else if (mode = encodeHost \<or> mode = encodeZone) \<and> c \<in> set ''!$&()*+,;=:[]<>\"'' then False
      else if (mode = encodeHost \<or> mode = encodeZone) \<and> of_char c = (39::nat) then False
      else if c \<in> set ''-_.~'' then False
      else if c \<in> set ''$&+,/:;=?@'' then
        (case mode of
           encodePath \<Rightarrow> c = CHR ''?''
         | encodePathSegment \<Rightarrow> c \<in> set ''/;,?''
         | encodeUserPassword \<Rightarrow> c \<in> set ''@/?:''
         | encodeQueryComponent \<Rightarrow> True
         | encodeFragment \<Rightarrow> False
         | _ \<Rightarrow> True)
      else if mode = encodeFragment \<and> c \<in> set ''!()*'' then False
      else True)"

definition escapeByte :: "encoding \<Rightarrow> char \<Rightarrow> string" where
  "escapeByte mode c =
     (if shouldEscape c mode then
        (if c = CHR '' '' \<and> mode = encodeQueryComponent then ''+''
         else [CHR ''%'', upperhex (of_char c div 16), upperhex (of_char c mod 16)])
      else [c])"

definition escape :: "string \<Rightarrow> encoding \<Rightarrow> string" where
  "escape s mode = concat (map (escapeByte mode) s)"

text \<open>
  \<open>unescape\<close>: a percent sign needs two hexadecimal digits; in a host only bytes of 128 and above
  and \<open>%25\<close> may be escaped, and an unescaped byte must be one that needs no escaping.
\<close>

definition zoneByteOk :: "char \<Rightarrow> char \<Rightarrow> bool" where
  "zoneByteOk a b \<longleftrightarrow>
     (let v = char_of (16 * unhex a + unhex b)
      in (a = CHR ''2'' \<and> b = CHR ''5'') \<or> v = CHR '' '' \<or> \<not> shouldEscape v encodeHost)"

fun unescape :: "encoding \<Rightarrow> string \<Rightarrow> string option" where
  "unescape mode [] = Some []"
| "unescape mode (c # s) =
     (if c = CHR ''%'' then
        (case s of
           a # b # rest \<Rightarrow>
             (if \<not> isHexByte a \<or> \<not> isHexByte b then None
              else if mode = encodeHost \<and> unhex a < 8 \<and> \<not> (a = CHR ''2'' \<and> b = CHR ''5'') then None
              else if mode = encodeZone \<and> \<not> zoneByteOk a b then None
              else map_option (\<lambda>t. char_of (16 * unhex a + unhex b) # t) (unescape mode rest))
         | _ \<Rightarrow> None)
      else if c = CHR ''+'' \<and> mode = encodeQueryComponent then
        map_option (\<lambda>t. CHR '' '' # t) (unescape mode s)
      else if (mode = encodeHost \<or> mode = encodeZone) \<and> of_char c < (128::nat)
              \<and> shouldEscape c mode then None
      else map_option (\<lambda>t. c # t) (unescape mode s))"

definition PathEscape :: "string \<Rightarrow> string" where
  "PathEscape s = escape s encodePathSegment"

definition QueryEscape :: "string \<Rightarrow> string" where
  "QueryEscape s = escape s encodeQueryComponent"

subsection \<open>Parsing\<close>

definition isCTLByte :: "char \<Rightarrow> bool" where
  "isCTLByte c \<longleftrightarrow> of_char c < (32::nat) \<or> of_char c = (127::nat)"

text \<open>\<open>getScheme\<close>: \<open>None\<close> is its error, otherwise the scheme (empty when there is none) and the
  rest.  The accumulator holds the bytes read so far in reverse.\<close>

fun getSchemeAux :: "string \<Rightarrow> string \<Rightarrow> string \<Rightarrow> (string \<times> string) option" where
  "getSchemeAux raw acc [] = Some ([], raw)"
| "getSchemeAux raw acc (c # s) =
     (if isLetter c then getSchemeAux raw (c # acc) s
      else if isDigit c \<or> c \<in> set ''+-.'' then
        (if acc = [] then Some ([], raw) else getSchemeAux raw (c # acc) s)
      else if c = CHR '':'' then
        (if acc = [] then None else Some (rev acc, s))
      else Some ([], raw))"

definition getScheme :: "string \<Rightarrow> (string \<times> string) option" where
  "getScheme raw = getSchemeAux raw [] raw"

definition validOptionalPort :: "string \<Rightarrow> bool" where
  "validOptionalPort p \<longleftrightarrow>
     (case p of [] \<Rightarrow> True | c # ds \<Rightarrow> c = CHR '':'' \<and> list_all isDigit ds)"

fun indexOf :: "string \<Rightarrow> string \<Rightarrow> nat option" where
  "indexOf p [] = (if p = [] then Some 0 else None)"
| "indexOf p (c # s) = (if HasPrefix (c # s) p then Some 0 else map_option Suc (indexOf p s))"

definition parseHost :: "string \<Rightarrow> string option" where
  "parseHost host =
     (if HasPrefix host ''['' then
        (case cutAtLast (CHR '']'') host of
           None \<Rightarrow> None
         | Some (a, colonPort) \<Rightarrow>
             (if \<not> validOptionalPort colonPort then None
              else (case indexOf ''%25'' a of
                 Some z \<Rightarrow>
                   (case (unescape encodeHost (take z a), unescape encodeZone (drop z a),
                          unescape encodeHost (CHR '']'' # colonPort)) of
                      (Some h1, Some h2, Some h3) \<Rightarrow> Some (h1 @ h2 @ h3)
                    | _ \<Rightarrow> None)
               | None \<Rightarrow> unescape encodeHost host)))
      else (case cutAtLast (CHR '':'') host of
          Some (a, p) \<Rightarrow> (if validOptionalPort (CHR '':'' # p) then unescape encodeHost host else None)
        | None \<Rightarrow> unescape encodeHost host))"

definition validUserinfo :: "string \<Rightarrow> bool" where
  "validUserinfo s \<longleftrightarrow>
     list_all (\<lambda>c. isLetter c \<or> isDigit c \<or> c \<in> set ''-._:~!$&()*+,;=%@'' \<or> of_char c = (39::nat)) s"

definition parseAuthority :: "string \<Rightarrow> ((string \<times> string option) option \<times> string) option" where
  "parseAuthority auth =
     (case cutAtLast (CHR ''@'') auth of
        None \<Rightarrow> map_option (\<lambda>h. (None, h)) (parseHost auth)
      | Some (ui, hostpart) \<Rightarrow>
          (case parseHost hostpart of
             None \<Rightarrow> None
           | Some h \<Rightarrow>
               (if \<not> validUserinfo ui then None
                else (case cutAt (CHR '':'') ui of
                  None \<Rightarrow> map_option (\<lambda>u. (Some (u, None), h)) (unescape encodeUserPassword ui)
                | Some (u, p) \<Rightarrow>
                    (case (unescape encodeUserPassword u, unescape encodeUserPassword p) of
                       (Some u', Some p') \<Rightarrow> Some (Some (u', Some p'), h)
                     | _ \<Rightarrow> None)))))"

text \<open>\<open>URL.setPath\<close>: the decoded path, and the encoded one when it is not the default encoding.\<close>

definition setPath :: "url \<Rightarrow> string \<Rightarrow> url option" where
  "setPath u p =
     map_option
       (\<lambda>path. u\<lparr>uPath := path, uRawPath := (if escape path encodePath = p then [] else p)\<rparr>)
       (unescape encodePath p)"

text \<open>The part of \<open>parse\<close> after the scheme and the query have been split off.\<close>

definition parseRest :: "url \<Rightarrow> string \<Rightarrow> url option" where
  "parseRest u rest =
     (if \<not> HasPrefix rest ''/'' \<and> uScheme u \<noteq> [] then Some (u\<lparr>uOpaque := rest\<rparr>)
      else if \<not> HasPrefix rest ''/'' \<and> CHR '':'' \<in> set (takeWhile (\<lambda>c. c \<noteq> slash) rest) then None
      else if (uScheme u \<noteq> [] \<or> \<not> HasPrefix rest ''///'') \<and> HasPrefix rest ''//'' then
        (let r = drop 2 rest;
             auth = takeWhile (\<lambda>c. c \<noteq> slash) r;
             path = dropWhile (\<lambda>c. c \<noteq> slash) r
         in (case parseAuthority auth of
               None \<Rightarrow> None
             | Some (user, host) \<Rightarrow> setPath (u\<lparr>uUser := user, uHost := host\<rparr>) path))
      else setPath u rest)"

definition parseNoFragment :: "string \<Rightarrow> url option" where
  "parseNoFragment raw =
     (if list_ex isCTLByte raw then None
      else if raw = ''*'' then Some (emptyURL\<lparr>uPath := ''*''\<rparr>)
      else (case getScheme raw of
          None \<Rightarrow> None
        | Some (scheme, rest) \<Rightarrow>
            (let u = emptyURL\<lparr>uScheme := ToLower scheme\<rparr>
             in if HasSuffix rest ''?'' \<and> Count rest (CHR ''?'') = 1
                then parseRest (u\<lparr>uForceQuery := True\<rparr>) (butlast rest)
                else (case cutAt (CHR ''?'') rest of
                    None \<Rightarrow> parseRest u rest
                  | Some (r, q) \<Rightarrow> parseRest (u\<lparr>uRawQuery := q\<rparr>) r))))"

definition ParseURL :: "string \<Rightarrow> url option" where
  "ParseURL raw =
     (case cutAt (CHR ''#'') raw of
        None \<Rightarrow> parseNoFragment raw
      | Some (u, frag) \<Rightarrow>
          (case parseNoFragment u of
             None \<Rightarrow> None
           | Some p \<Rightarrow>
               (if frag = [] then Some p
                else map_option (\<lambda>f. p\<lparr>uFragment := f\<rparr>) (unescape encodeFragment frag))))"

subsection \<open>Printing\<close>

text \<open>\<open>EscapedPath\<close>: the hint in \<open>RawPath\<close> is used when it decodes to the path and is itself a
  valid encoding, otherwise the default encoding is.\<close>

fun validEncoded :: "encoding \<Rightarrow> string \<Rightarrow> bool" where
  "validEncoded mode [] = True"
| "validEncoded mode (c # s) =
     ((c \<in> set ''!$&()*+,;=:@[]%'' \<or> of_char c = (39::nat) \<or> \<not> shouldEscape c mode)
      \<and> validEncoded mode s)"

definition EscapedPath :: "url \<Rightarrow> string" where
  "EscapedPath u =
     (if uRawPath u \<noteq> [] \<and> validEncoded encodePath (uRawPath u)
         \<and> unescape encodePath (uRawPath u) = Some (uPath u)
      then uRawPath u
      else if uPath u = ''*'' then ''*''
      else escape (uPath u) encodePath)"

definition userinfoString :: "string \<times> string option \<Rightarrow> string" where
  "userinfoString ui =
     (case ui of
        (n, None) \<Rightarrow> escape n encodeUserPassword
      | (n, Some p) \<Rightarrow> escape n encodeUserPassword @ '':'' @ escape p encodeUserPassword)"

definition URLString :: "url \<Rightarrow> string" where
  "URLString u =
     (let scheme = (if uScheme u \<noteq> [] then uScheme u @ '':'' else []);
          authority =
            (if uScheme u \<noteq> [] \<or> uHost u \<noteq> [] \<or> uUser u \<noteq> None
             then (if uHost u \<noteq> [] \<or> uPath u \<noteq> [] \<or> uUser u \<noteq> None then ''//'' else [])
                  @ (case uUser u of None \<Rightarrow> [] | Some ui \<Rightarrow> userinfoString ui @ ''@'')
                  @ escape (uHost u) encodeHost
             else []);
          path = EscapedPath u;
          sep = (if path \<noteq> [] \<and> \<not> HasPrefix path ''/'' \<and> uHost u \<noteq> [] then ''/'' else []);
          dot = (if scheme @ authority @ sep = []
                    \<and> CHR '':'' \<in> set (takeWhile (\<lambda>c. c \<noteq> slash) path) then ''./'' else []);
          body = (if uOpaque u \<noteq> [] then uOpaque u else authority @ sep @ dot @ path)
      in scheme @ body
         @ (if uForceQuery u \<or> uRawQuery u \<noteq> [] then ''?'' @ uRawQuery u else [])
         @ (if uFragment u \<noteq> [] then ''#'' @ escape (uFragment u) encodeFragment else []))"

subsection \<open>Resolving references\<close>

text \<open>\<open>resolvePath\<close> of \<open>net/url\<close>: dot segments are removed from the reference, taken relative to the
  base when it is not absolute.\<close>

fun removeDots :: "string list \<Rightarrow> string list \<Rightarrow> string list" where
  "removeDots [] dst = dst"
| "removeDots (elem # src) dst =
     (if elem = ''.'' then removeDots src dst
      else if elem = ''..'' then removeDots src (butlast dst)
      else removeDots src (dst @ [elem]))"

definition resolveRefPath :: "string \<Rightarrow> string \<Rightarrow> string" where
  "resolveRefPath base ref =
     (let full =
        (if ref = [] then base
         else if \<not> HasPrefix ref ''/'' then
           (case cutAtLast slash base of None \<Rightarrow> ref | Some (d, _) \<Rightarrow> d @ ''/'' @ ref)
         else ref)
      in if full = [] then []
         else
           (let src = Split slash full;
                dst = removeDots src [] @ (if last src \<in> {''.'', ''..''} then [[]] else [])
            in ''/'' @ TrimPrefix (Join dst ''/'') ''/''))"

definition setPathIgnored :: "url \<Rightarrow> string \<Rightarrow> url" where
  "setPathIgnored u p = (case setPath u p of None \<Rightarrow> u | Some v \<Rightarrow> v)"

definition ResolveReference :: "url \<Rightarrow> url \<Rightarrow> url" where
  "ResolveReference u ref =
     (let v = (if uScheme ref = [] then ref\<lparr>uScheme := uScheme u\<rparr> else ref)
      in if uScheme ref \<noteq> [] \<or> uHost ref \<noteq> [] \<or> uUser ref \<noteq> None
         then setPathIgnored v (resolveRefPath (EscapedPath ref) [])
         else if uOpaque ref \<noteq> [] then v\<lparr>uUser := None, uHost := [], uPath := []\<rparr>
         else
           (let v1 = (if uPath ref = [] \<and> uRawQuery ref = []
                      then (if uFragment ref = [] then v\<lparr>uRawQuery := uRawQuery u, uFragment := uFragment u\<rparr>
                            else v\<lparr>uRawQuery := uRawQuery u\<rparr>)
                      else v)
            in setPathIgnored (v1\<lparr>uHost := uHost u, uUser := uUser u\<rparr>)
                 (resolveRefPath (EscapedPath u) (EscapedPath ref))))"

subsection \<open>Query strings\<close>

text \<open>
  \<open>url.ParseQuery\<close> on the raw query: the pairs between \<open>&\<close> (and \<open>;\<close>, as in Go before 1.17), in
  order; a pair whose key or value does not unescape is skipped, as \<open>URL.Query\<close> ignores the error.
\<close>

definition parseQueryPair :: "string \<Rightarrow> (string \<times> string) option" where
  "parseQueryPair kv =
     (if kv = [] then None
      else (let (k, v) = (case cutAt (CHR ''='') kv of None \<Rightarrow> (kv, []) | Some p \<Rightarrow> p)
            in (case (unescape encodeQueryComponent k, unescape encodeQueryComponent v) of
                  (Some k', Some v') \<Rightarrow> Some (k', v')
                | _ \<Rightarrow> None)))"

definition ParseQuery :: "string \<Rightarrow> (string \<times> string) list" where
  "ParseQuery q =
     List.map_filter parseQueryPair
       (Split (CHR ''&'') (map (\<lambda>c. if c = CHR '';'' then CHR ''&'' else c) q))"

text \<open>\<open>Values.Get\<close>: the first value of the key, the empty string when there is none.\<close>

definition queryGet :: "(string \<times> string) list \<Rightarrow> string \<Rightarrow> string" where
  "queryGet q k = (case map_of q k of None \<Rightarrow> [] | Some v \<Rightarrow> v)"

definition queryDel :: "(string \<times> string) list \<Rightarrow> string \<Rightarrow> (string \<times> string) list" where
  "queryDel q k = filter (\<lambda>(k', v). k' \<noteq> k) q"

definition querySet :: "(string \<times> string) list \<Rightarrow> string \<Rightarrow> string \<Rightarrow> (string \<times> string) list" where
  "querySet q k v = queryDel q k @ [(k, v)]"

text \<open>\<open>Values.Encode\<close>: sorted by key, the values of one key in their order.\<close>

fun bytesLess :: "string \<Rightarrow> string \<Rightarrow> bool" where
  "bytesLess s [] = False"
| "bytesLess [] (b # t) = True"
| "bytesLess (a # s) (b # t) =
     (of_char a < (of_char b :: nat) \<or> (a = b \<and> bytesLess s t))"

fun insertPair :: "string \<times> string \<Rightarrow> (string \<times> string) list \<Rightarrow> (string \<times> string) list" where
  "insertPair p [] = [p]"
| "insertPair p (q # qs) = (if bytesLess (fst q) (fst p) then q # insertPair p qs else p # q # qs)"

definition encodeQuery :: "(string \<times> string) list \<Rightarrow> string" where
  "encodeQuery q =
     Join (map (\<lambda>(k, v). QueryEscape k @ ''='' @ QueryEscape v) (foldr insertPair q [])) ''&''"

subsection \<open>Host and port\<close>

text \<open>\<open>net.SplitHostPort\<close> splits at the last colon; a bracketed host must end right before it, and
  an unbracketed host must hold no other colon.  \<open>None\<close> is an error.\<close>

definition SplitHostPort :: "string \<Rightarrow> (string \<times> string) option" where
  "SplitHostPort hostport =
     (case cutAtLast (CHR '':'') hostport of
        None \<Rightarrow> None
      | Some (a, port) \<Rightarrow>
          (if HasPrefix hostport ''['' then
             (case cutAt (CHR '']'') hostport of
                None \<Rightarrow> None
              | Some (h, rest) \<Rightarrow>
                  (if rest = CHR '':'' # port
                      \<and> CHR ''['' \<notin> set (drop 1 h) \<and> CHR ''['' \<notin> set rest \<and> CHR '']'' \<notin> set rest
                   then Some (drop 1 h, port) else None))
           else (if CHR '':'' \<in> set a \<or> CHR ''['' \<in> set hostport \<or> CHR '']'' \<in> set hostport
                 then None else Some (a, port))))"

lemmas [url_simps] =
  emptyURL_def isHexByte_def unhex_def upperhex_def shouldEscape_def escapeByte_def escape_def
  zoneByteOk_def PathEscape_def QueryEscape_def isCTLByte_def getScheme_def validOptionalPort_def
  parseHost_def validUserinfo_def parseAuthority_def setPath_def parseRest_def
  parseNoFragment_def ParseURL_def EscapedPath_def userinfoString_def URLString_def
  parseQueryPair_def ParseQuery_def queryGet_def queryDel_def querySet_def encodeQuery_def
  SplitHostPort_def

subsection \<open>Lemmas\<close>

lemma upperhex_hex: "n < 16 \<Longrightarrow> isHexByte (upperhex n) \<and> unhex (upperhex n) = n"
proof -
  assume "n < 16"
  then have "n \<in> set [0..<16]" by simp
  then show ?thesis
    by (auto simp: upt_rec isHexByte_def unhex_def upperhex_def isDigit_def)
qed

lemma nat_of_char_lt [simp]: "of_char c < (256::nat)"
  by (metis of_char_mod_256 mod_less_divisor zero_less_numeral)

lemma char_of_hex:
  "char_of (16 * unhex (upperhex (of_char c div 16)) + unhex (upperhex (of_char c mod 16 :: nat))) = c"
proof -
  have "of_char c div 16 < (16::nat)" using nat_of_char_lt [of c] by (simp add: less_mult_imp_div_less)
  moreover have "of_char c mod 16 < (16::nat)" by simp
  ultimately have "16 * unhex (upperhex (of_char c div 16)) + unhex (upperhex (of_char c mod 16))
      = (of_char c :: nat)"
    by (simp add: upperhex_hex)
  then show ?thesis by simp
qed

text \<open>A mode in which every byte may be escaped and read back.\<close>

definition freeMode :: "encoding \<Rightarrow> bool" where
  "freeMode mode \<longleftrightarrow> mode \<noteq> encodeHost \<and> mode \<noteq> encodeZone"

lemma shouldEscape_percent: "freeMode mode \<Longrightarrow> shouldEscape (CHR ''%'') mode"
  by (cases mode) (simp_all add: freeMode_def shouldEscape_def isLetter_def isLower_def isUpper_def isDigit_def)

lemma shouldEscape_plus: "shouldEscape (CHR ''+'') encodeQueryComponent"
  by (simp add: shouldEscape_def isLetter_def isLower_def isUpper_def isDigit_def)

lemma unescape_escapeByte:
  assumes "freeMode mode"
  shows "unescape mode (escapeByte mode c @ s) = map_option (\<lambda>t. c # t) (unescape mode s)"
proof -
  have d: "of_char c div 16 < (16::nat)" "of_char c mod 16 < (16::nat)"
    using nat_of_char_lt [of c] by (simp_all add: less_mult_imp_div_less)
  note hex = upperhex_hex [OF d(1)] upperhex_hex [OF d(2)]
  show ?thesis
  proof (cases "shouldEscape c mode")
    case True
    then show ?thesis
      using assms hex char_of_hex [of c] by (auto simp: escapeByte_def freeMode_def)
  next
    case False
    then have "c \<noteq> CHR ''%''" and "mode = encodeQueryComponent \<Longrightarrow> c \<noteq> CHR ''+''"
      using shouldEscape_percent [OF assms] shouldEscape_plus by auto
    with False assms show ?thesis by (auto simp: escapeByte_def freeMode_def)
  qed
qed

theorem unescape_escape: "freeMode mode \<Longrightarrow> unescape mode (escape s mode) = Some s"
  by (induction s) (simp_all add: escape_def unescape_escapeByte)

lemma SplitHostPort_Some:
  assumes "SplitHostPort s = Some (h, p)" and "\<not> HasPrefix s ''[''"
  shows "s = h @ '':'' @ p \<and> CHR '':'' \<notin> set h \<and> CHR '':'' \<notin> set p"
  using assms
  by (auto simp: SplitHostPort_def split: option.splits if_splits dest: cutAtLast_Some)

subsection \<open>What a parsed URL says about its text\<close>

lemma getSchemeAux_empty: "getSchemeAux raw acc s = Some ([], rest) \<Longrightarrow> rest = raw"
  by (induction raw acc s rule: getSchemeAux.induct) (auto split: if_splits)

lemma getScheme_empty: "getScheme raw = Some ([], rest) \<Longrightarrow> rest = raw"
  by (auto simp: getScheme_def dest: getSchemeAux_empty)

lemma setPath_frame: "setPath u p = Some v \<Longrightarrow> uHost v = uHost u \<and> uScheme v = uScheme u"
  by (auto simp: setPath_def)

lemma setPath_parts:
  "setPath u p = Some v \<Longrightarrow> uUser v = uUser u \<and> uOpaque v = uOpaque u \<and> uRawQuery v = uRawQuery u
    \<and> uFragment v = uFragment u"
  by (auto simp: setPath_def)

lemma parseRest_no_host:
  assumes "parseRest u rest = Some v" and "\<not> HasPrefix rest ''//''" and "uScheme u = []"
  shows "uHost v = uHost u \<and> uScheme v = []"
  using assms setPath_frame [of u rest v] by (auto simp: parseRest_def split: if_splits)

text \<open>After the scheme is known to be empty, \<open>parse\<close> hands some prefix of its input to
  \<open>parseRest\<close>, up to a question mark.\<close>

lemma parseNoFragment_rest:
  assumes "parseNoFragment raw = Some v" and "getScheme raw = Some ([], raw)" and "raw \<noteq> ''*''"
  obtains u r where "parseRest u r = Some v" "prefix r raw" "uScheme u = []" "uHost u = []"
    "uUser u = None" "uOpaque u = []" "raw \<noteq> [] \<Longrightarrow> hd raw \<noteq> CHR ''?'' \<Longrightarrow> r \<noteq> []"
proof -
  have ctl: "\<not> list_ex isCTLByte raw" using assms(1) by (auto simp: parseNoFragment_def split: if_splits)
  show thesis
  proof (cases "HasSuffix raw ''?'' \<and> Count raw (CHR ''?'') = 1")
    case True
    let ?u = "emptyURL\<lparr>uScheme := [], uForceQuery := True\<rparr>"
    have "parseRest ?u (butlast raw) = Some v"
      using assms ctl True by (auto simp: parseNoFragment_def ToLower_def Let_def split: if_splits)
    moreover have "prefix (butlast raw) raw" by (rule prefixeq_butlast)
    moreover have "butlast raw \<noteq> []" if "raw \<noteq> []" "hd raw \<noteq> CHR ''?''"
      using that True by (cases raw) (auto simp: HasSuffix_iff_suffix suffix_def Cons_eq_append_conv split: if_splits)
    ultimately show thesis using that [of ?u "butlast raw"] by (simp add: emptyURL_def)
  next
    case False
    show thesis
    proof (cases "cutAt (CHR ''?'') raw")
      case None
      let ?u = "emptyURL\<lparr>uScheme := []\<rparr>"
      have "parseRest ?u raw = Some v"
        using assms ctl False None by (auto simp: parseNoFragment_def ToLower_def Let_def split: if_splits)
      then show thesis using that [of ?u raw] by (simp add: emptyURL_def)
    next
      case (Some rq)
      obtain r q where rq: "rq = (r, q)" by fastforce
      let ?u = "emptyURL\<lparr>uScheme := [], uRawQuery := q\<rparr>"
      have "parseRest ?u r = Some v"
        using assms ctl False Some rq by (auto simp: parseNoFragment_def ToLower_def Let_def split: if_splits)
      moreover have "raw = r @ CHR ''?'' # q" using cutAt_Some Some rq by blast
      ultimately show thesis using that [of ?u r] by (cases r) (auto simp: emptyURL_def)
    qed
  qed
qed

lemma parseNoFragment_scheme:
  assumes "parseNoFragment raw = Some v" and "uScheme v = []" and "raw \<noteq> ''*''"
  shows "getScheme raw = Some ([], raw)"
proof -
  have ne: "list_ex isCTLByte raw = False" using assms(1) by (auto simp: parseNoFragment_def split: if_splits)
  obtain scheme rest where g: "getScheme raw = Some (scheme, rest)"
    using assms ne by (cases "getScheme raw") (auto simp: parseNoFragment_def)
  have keep: "parseRest u r = Some v \<Longrightarrow> uScheme v = uScheme u" for u r
    by (auto simp: parseRest_def Let_def split: if_splits option.splits prod.splits dest: setPath_frame)
  have "ToLower scheme = uScheme v"
    using assms(1,3) ne g keep
    by (auto simp: parseNoFragment_def Let_def split: if_splits option.splits dest!: keep)
  with assms(2) have "scheme = []" by (simp add: ToLower_def)
  with g getScheme_empty show ?thesis by blast
qed

lemma ParseURL_no_fragment:
  assumes "ParseURL raw = Some v"
  obtains r v' where "parseNoFragment r = Some v'" "prefix r raw"
    "uScheme v = uScheme v'" "uHost v = uHost v'" "uPath v = uPath v'"
    "uUser v = uUser v'" "uOpaque v = uOpaque v'"
    "raw \<noteq> [] \<Longrightarrow> hd raw \<noteq> CHR ''#'' \<Longrightarrow> r \<noteq> []"
proof (cases "cutAt (CHR ''#'') raw")
  case None
  with assms show thesis using that [of raw v] by (simp add: ParseURL_def)
next
  case (Some p)
  obtain r f where p: "p = (r, f)" by fastforce
  have raw: "raw = r @ CHR ''#'' # f" using cutAt_Some Some p by blast
  obtain v' where v': "parseNoFragment r = Some v'"
    using assms Some p by (auto simp: ParseURL_def split: option.splits)
  have "uScheme v = uScheme v'" "uHost v = uHost v'" "uPath v = uPath v'"
    "uUser v = uUser v'" "uOpaque v = uOpaque v'"
    using assms Some p v' by (auto simp: ParseURL_def split: if_splits option.splits)
  with v' raw show thesis using that [of r v'] by (cases r) auto
qed

lemma HasPrefix_prefix: "prefix r s \<Longrightarrow> HasPrefix r p \<Longrightarrow> HasPrefix s p"
  by (auto simp: HasPrefix_iff_prefix intro: prefix_order.trans)

text \<open>A URL that starts with one slash, or with a percent sign, names no host.\<close>

lemma ParseURL_local:
  assumes "ParseURL (c # t) = Some u" and "c = slash \<or> c = CHR ''%''"
    and "\<not> HasPrefix (c # t) ''//''"
  shows "uHost u = [] \<and> uScheme u = []"
proof -
  obtain r v where v: "parseNoFragment r = Some v" and r: "prefix r (c # t)"
    and eq: "uScheme u = uScheme v" "uHost u = uHost v"
    and "c \<noteq> CHR ''#'' \<Longrightarrow> r \<noteq> []"
    using ParseURL_no_fragment [OF assms(1)] by (metis list.discI list.sel(1))
  with assms(2) have "r \<noteq> []" by auto
  then obtain t' where r': "r = c # t'" using r by (cases r) auto
  have star: "r \<noteq> ''*''" using r' assms(2) by auto
  have "getScheme r = Some ([], r)"
    using assms(2) by (auto simp: r' getScheme_def isLetter_def isLower_def isUpper_def isDigit_def)
  from parseNoFragment_rest [OF v this star]
  obtain w s where ws: "parseRest w s = Some v" "prefix s r" "uScheme w = []" "uHost w = []" by metis
  have "\<not> HasPrefix s ''//''"
    using assms(3) ws(2) r HasPrefix_prefix prefix_order.trans by metis
  from parseRest_no_host [OF ws(1) this ws(3)] ws(4) eq show ?thesis by simp
qed

lemma ParseURL_local_parts:
  assumes "ParseURL (slash # t) = Some u" and "\<not> HasPrefix (slash # t) ''//''"
  shows "uUser u = None \<and> uOpaque u = []"
proof -
  obtain r v where v: "parseNoFragment r = Some v" and r: "prefix r (slash # t)"
    and eq: "uUser u = uUser v" "uOpaque u = uOpaque v" and "r \<noteq> []"
    by (rule ParseURL_no_fragment [OF assms(1)]) simp
  then obtain t' where r': "r = slash # t'" by (cases r) auto
  have "getScheme r = Some ([], r)"
    by (auto simp: r' getScheme_def isLetter_def isLower_def isUpper_def isDigit_def)
  from v this obtain w s where ws: "parseRest w s = Some v" "prefix s r" "uScheme w = []" "uUser w = None"
    "uOpaque w = []" "s \<noteq> []"
    by (rule parseNoFragment_rest) (simp_all add: r')
  have "\<not> HasPrefix s ''//''"
    using assms(2) ws(2) r HasPrefix_prefix prefix_order.trans by metis
  moreover have "HasPrefix s ''/''" using ws(2,6) r' by (cases s) (auto simp: HasPrefix_def)
  ultimately have "setPath w s = Some v" using ws(1) by (simp add: parseRest_def)
  from setPath_parts [OF this] ws eq show ?thesis by simp
qed

lemma ResolveReference_path:
  assumes "ParseURL (slash # t) = Some ref" and "\<not> HasPrefix (slash # t) ''//''"
  shows "uHost (ResolveReference u ref) = uHost u \<and> uScheme (ResolveReference u ref) = uScheme u
    \<and> uUser (ResolveReference u ref) = uUser u"
proof -
  have ref: "uHost ref = [] \<and> uScheme ref = []" "uUser ref = None \<and> uOpaque ref = []"
    using ParseURL_local [OF assms(1)] ParseURL_local_parts [OF assms] assms(2) by auto
  have keep: "uHost (setPathIgnored v p) = uHost v \<and> uScheme (setPathIgnored v p) = uScheme v
      \<and> uUser (setPathIgnored v p) = uUser v" for v p
  proof (cases "setPath v p")
    case (Some v')
    then show ?thesis using setPath_frame [OF Some] setPath_parts [OF Some] by (simp add: setPathIgnored_def)
  qed (simp add: setPathIgnored_def)
  define v1 where "v1 = (if uPath ref = [] \<and> uRawQuery ref = []
      then (if uFragment ref = [] then ref\<lparr>uScheme := uScheme u, uRawQuery := uRawQuery u, uFragment := uFragment u\<rparr>
            else ref\<lparr>uScheme := uScheme u, uRawQuery := uRawQuery u\<rparr>)
      else ref\<lparr>uScheme := uScheme u\<rparr>)"
  have "uScheme v1 = uScheme u" by (simp add: v1_def)
  moreover have "ResolveReference u ref = setPathIgnored (v1\<lparr>uHost := uHost u, uUser := uUser u\<rparr>)
      (resolveRefPath (EscapedPath u) (EscapedPath ref))"
    unfolding ResolveReference_def Let_def v1_def by (simp only: ref simp_thms if_True if_False not_None_eq)
  ultimately show ?thesis by (simp add: keep)
qed

lemma unescape_path_first:
  assumes "unescape encodePath (c # s) = Some p" and "c \<noteq> CHR ''%''"
  shows "\<exists>q. p = c # q"
  using assms by auto

lemma parseRest_path_first:
  assumes "parseRest u r = Some v" and "uScheme v = []" and "uHost v = []"
    and "HasPrefix (uPath v) ''/''" and "uPath u = []"
  shows "\<exists>c t. r = c # t \<and> (c = slash \<or> c = CHR ''%'')"
proof (rule ccontr)
  assume no: "\<not> ?thesis"
  then have h: "\<not> HasPrefix r ''/''" and h2: "\<not> HasPrefix r ''//''"
    by (cases r; auto simp: HasPrefix_def)+
  have "setPath u r = Some v"
    using assms(1,2,4,5) h h2 by (auto simp: parseRest_def HasPrefix_def split: if_splits)
  then obtain p where p: "unescape encodePath r = Some p" "uPath v = p"
    by (auto simp: setPath_def)
  show False
  proof (cases r)
    case Nil
    with p assms(4) show False by (simp add: HasPrefix_def)
  next
    case (Cons c t)
    with no have "c \<noteq> CHR ''%''" "c \<noteq> slash" by auto
    with unescape_path_first [of c t p] p Cons assms(4) show False by (auto simp: HasPrefix_def)
  qed
qed

lemma parseNoFragment_path_first:
  assumes "parseNoFragment raw = Some v" and "uScheme v = []" and "uHost v = []"
    and "HasPrefix (uPath v) ''/''"
  shows "\<exists>c t. raw = c # t \<and> (c = slash \<or> c = CHR ''%'')"
proof -
  have star: "raw \<noteq> ''*''"
    using assms(1,4) by (auto simp: parseNoFragment_def HasPrefix_def isCTLByte_def)
  from parseNoFragment_scheme [OF assms(1,2) star] have g: "getScheme raw = Some ([], raw)" .
  have ne: "list_ex isCTLByte raw = False" using assms(1) by (auto simp: parseNoFragment_def split: if_splits)
  obtain u r where "parseRest u r = Some v" "prefix r raw" "uPath u = []"
  proof (cases "HasSuffix raw ''?'' \<and> Count raw (CHR ''?'') = 1")
    case True
    then show thesis
      using that [of "emptyURL\<lparr>uScheme := [], uForceQuery := True\<rparr>" "butlast raw"] assms(1) g ne star
      by (auto simp: parseNoFragment_def ToLower_def Let_def emptyURL_def prefixeq_butlast)
  next
    case False
    then show thesis
      using that [of "emptyURL\<lparr>uScheme := []\<rparr>" raw]
        that [of "emptyURL\<lparr>uScheme := [], uRawQuery := q\<rparr>" r for q r] assms(1) g ne star
      by (auto simp: parseNoFragment_def ToLower_def Let_def emptyURL_def
          split: option.splits if_splits dest!: cutAt_Some)
  qed
  with parseRest_path_first [OF _ assms(2-4)] show ?thesis
    by (metis append_Cons prefixE)
qed

subsection \<open>Query strings read back\<close>

lemma QueryEscape_bytes:
  assumes "c \<in> set (QueryEscape s)"
  shows "c \<noteq> CHR ''&'' \<and> c \<noteq> CHR '';'' \<and> c \<noteq> CHR ''=''"
proof -
  obtain x where x: "c \<in> set (escapeByte encodeQueryComponent x)"
    using assms by (auto simp: QueryEscape_def escape_def)
  have "of_char x div 16 < (16::nat)" "of_char x mod 16 < (16::nat)"
    using nat_of_char_lt [of x] by (simp_all add: less_mult_imp_div_less)
  then have "isHexByte (upperhex (of_char x div 16))" "isHexByte (upperhex (of_char x mod 16))"
    using upperhex_hex by blast+
  moreover have "\<not> isHexByte (CHR ''&'')" "\<not> isHexByte (CHR '';'')" "\<not> isHexByte (CHR ''='')"
    by (simp_all add: isHexByte_def isDigit_def)
  ultimately have h: "upperhex (of_char x div 16) \<notin> {CHR ''&'', CHR '';'', CHR ''=''}"
    "upperhex (of_char x mod 16) \<notin> {CHR ''&'', CHR '';'', CHR ''=''}"
    by (metis (full_types) empty_iff insert_iff)+
  show ?thesis
  proof (cases "shouldEscape x encodeQueryComponent")
    case True
    then show ?thesis using x h by (auto simp: escapeByte_def split: if_splits)
  next
    case False
    then have "c = x" using x by (simp add: escapeByte_def)
    then show ?thesis
      using False by (auto simp: shouldEscape_def isLetter_def isLower_def isUpper_def isDigit_def)
  qed
qed

lemma parseQueryPair_escaped:
  "parseQueryPair (QueryEscape k @ ''='' @ QueryEscape v) = Some (k, v)"
proof -
  have "CHR ''='' \<notin> set (QueryEscape k)" using QueryEscape_bytes by blast
  then have "cutAt (CHR ''='') (QueryEscape k @ CHR ''='' # QueryEscape v) = Some (QueryEscape k, QueryEscape v)"
    by (rule cutAt_append)
  moreover have "unescape encodeQueryComponent (QueryEscape s) = Some s" for s
    by (simp add: QueryEscape_def unescape_escape freeMode_def)
  ultimately show ?thesis by (simp add: parseQueryPair_def)
qed

text \<open>What \<open>Values.Encode\<close> writes, \<open>ParseQuery\<close> reads: the pairs, sorted by key.\<close>

lemma ParseQuery_encodeQuery: "ParseQuery (encodeQuery q) = foldr insertPair q []"
proof -
  let ?ps = "foldr insertPair q []"
  let ?f = "\<lambda>(k, v). QueryEscape k @ ''='' @ QueryEscape v"
  have b: "c \<noteq> CHR ''&'' \<and> c \<noteq> CHR '';''" if "c \<in> set (?f p)" for c p
    using that QueryEscape_bytes by (cases p) auto
  have join: "set (Join xs sep) \<subseteq> \<Union> (set ` set xs) \<union> set sep" for xs sep
    by (induction xs sep rule: Join.induct) auto
  have "CHR '';'' \<notin> set (encodeQuery q)"
    using join [of "map ?f ?ps" "''&''"] b unfolding encodeQuery_def by fastforce
  then have m: "map (\<lambda>c. if c = CHR '';'' then CHR ''&'' else c) (encodeQuery q) = encodeQuery q"
    by (intro map_idI) auto
  have pairs: "List.map_filter parseQueryPair (map ?f ps) = ps" for ps
    by (induction ps) (auto simp: parseQueryPair_escaped [simplified] List.map_filter_simps)
  show ?thesis
  proof (cases "?ps = []")
    case True
    then show ?thesis
      by (simp add: ParseQuery_def encodeQuery_def parseQueryPair_def List.map_filter_simps)
  next
    case False
    have "\<forall>s \<in> set (map ?f ?ps). CHR ''&'' \<notin> set s" using b by fastforce
    then have "Split (CHR ''&'') (encodeQuery q) = map ?f ?ps"
      using False Split_Join [of "map ?f ?ps" "CHR ''&''"] by (simp add: encodeQuery_def)
    then show ?thesis using m pairs by (simp add: ParseQuery_def)
  qed
qed

end
