(* ===== verification/Http.thy ===== *)
theory Http
  imports Go_URL
begin

text \<open>
  The HTTP data the handlers work on: headers, requests and the response writer of Go's
  \<open>net/http\<close>, \<open>http.Redirect\<close> and \<open>http.Error\<close>, and the program's own packages
  \<open>internal/httperrors\<close>, \<open>internal/request\<close>, \<open>internal/host\<close> and
  \<open>internal/feature\<close>.  A response writer keeps the header map, what was sent with the first
  \<open>WriteHeader\<close> (later calls are ignored, later header changes are not sent) and the body
  written so far.  Logging, error tracking and metrics are not part of the model.
\<close>

named_theorems http_simps \<open>unfolding rules for response writers, redirects and error pages\<close>

subsection \<open>Headers\<close>

type_synonym header = "string \<rightharpoonup> string list"

definition isTokenByte :: "char \<Rightarrow> bool" where
  "isTokenByte c \<longleftrightarrow> isLetter c \<or> isDigit c \<or> c \<in> set ''!#$%&*+-.^_`|~'' \<or> of_char c = (39::nat)"

fun canonicalBytes :: "bool \<Rightarrow> string \<Rightarrow> string" where
  "canonicalBytes up [] = []"
| "canonicalBytes up (c # s) =
     (if up then toUpperByte c else toLowerByte c) # canonicalBytes (c = CHR ''-'') s"

definition CanonicalHeaderKey :: "string \<Rightarrow> string" where
  "CanonicalHeaderKey k = (if list_all isTokenByte k then canonicalBytes True k else k)"

definition hdrGet :: "header \<Rightarrow> string \<Rightarrow> string" where
  "hdrGet h k = (case h (CanonicalHeaderKey k) of Some (v # vs) \<Rightarrow> v | _ \<Rightarrow> [])"

definition hdrSet :: "string \<Rightarrow> string \<Rightarrow> header \<Rightarrow> header" where
  "hdrSet k v h = h(CanonicalHeaderKey k \<mapsto> [v])"

definition hdrAdd :: "string \<Rightarrow> string \<Rightarrow> header \<Rightarrow> header" where
  "hdrAdd k v h =
     h(CanonicalHeaderKey k \<mapsto> (case h (CanonicalHeaderKey k) of None \<Rightarrow> [v] | Some vs \<Rightarrow> vs @ [v]))"

subsection \<open>Requests\<close>

record request =
  rqMethod :: string
  rqHost :: string
  rqRequestURI :: string
  rqURL :: url
  rqHeader :: header
  rqRemoteAddr :: string
  rqTLS :: bool

subsection \<open>internal/httperrors\<close>

record error_content =
  cStatus :: nat
  cTitle :: string
  cStatusString :: string
  cHeader :: string
  cSubHeader :: string

definition content401 :: error_content where
  "content401 = \<lparr>cStatus = 401, cTitle = ''Unauthorized (401)'', cStatusString = ''401'',
     cHeader = ''You don't have permission to access the resource.'',
     cSubHeader = ''<p>The resource that you are attempting to access is protected and you don't have the necessary permissions to view it.</p>''\<rparr>"

definition content404 :: error_content where
  "content404 = \<lparr>cStatus = 404, cTitle = ''The page you're looking for could not be found (404)'',
     cStatusString = ''404'',
     cHeader = ''The page you're looking for could not be found.'',
     cSubHeader = ''<p>The resource that you are attempting to access does not exist or you don't have the necessary permissions to view it.</p>\<newline>     <p>Make sure the address is correct and that the page hasn't moved.</p>\<newline>     <p>Please contact your GitLab administrator if you think this is a mistake.</p>''\<rparr>"

definition content414 :: error_content where
  "content414 = \<lparr>cStatus = 414, cTitle = ''Request URI Too Long (414)'', cStatusString = ''414'',
     cHeader = ''Request URI Too Long.'',
     cSubHeader = ''<p>The URI provided was too long for the server to process.</p>\<newline>'' @ replicate 3 (CHR 0x09) @ ''<p>Try to make the request URI shorter.</p>''\<rparr>"

definition content429 :: error_content where
  "content429 = \<lparr>cStatus = 429, cTitle = ''Too many requests (429)'', cStatusString = ''429'',
     cHeader = ''Too many requests.'',
     cSubHeader = ''<p>The resource that you are attempting to access is being rate limited.</p>''\<rparr>"

definition refreshText :: string where
  "refreshText = ''<p>Try refreshing the page, or going back and attempting the action again.</p>\<newline>     <p>Please contact your GitLab administrator if this problem persists.</p>''"

definition content500 :: error_content where
  "content500 = \<lparr>cStatus = 500, cTitle = ''Something went wrong (500)'', cStatusString = ''500'',
     cHeader = ''Whoops, something went wrong on our end.'', cSubHeader = refreshText\<rparr>"

definition content502 :: error_content where
  "content502 = \<lparr>cStatus = 502, cTitle = ''Something went wrong (502)'', cStatusString = ''502'',
     cHeader = ''Whoops, something went wrong on our end.'', cSubHeader = refreshText\<rparr>"

definition content503 :: error_content where
  "content503 = \<lparr>cStatus = 503, cTitle = ''Service Unavailable (503)'', cStatusString = ''503'',
     cHeader = ''Whoops, something went wrong on our end.'', cSubHeader = refreshText\<rparr>"

text \<open>
  What a handler writes to the body.  \<open>ErrorPage c\<close> is the HTML template of
  \<open>internal/httperrors\<close> filled in with the title, status, header and sub-header of \<open>c\<close>; the
  markup around these four places is constant.
\<close>

datatype chunk = Bytes string | ErrorPage error_content

subsection \<open>Response writers\<close>

record response =
  rHeader :: header
  rSent :: "(nat \<times> header) option"
  rBody :: "chunk list"

definition newResponse :: response where
  "newResponse = \<lparr>rHeader = Map.empty, rSent = None, rBody = []\<rparr>"

definition setHeader :: "string \<Rightarrow> string \<Rightarrow> response \<Rightarrow> response" where
  "setHeader k v w = w\<lparr>rHeader := hdrSet k v (rHeader w)\<rparr>"

definition addHeader :: "string \<Rightarrow> string \<Rightarrow> response \<Rightarrow> response" where
  "addHeader k v w = w\<lparr>rHeader := hdrAdd k v (rHeader w)\<rparr>"

definition WriteHeader :: "nat \<Rightarrow> response \<Rightarrow> response" where
  "WriteHeader code w = (if rSent w = None then w\<lparr>rSent := Some (code, rHeader w)\<rparr> else w)"

text \<open>The first \<open>Write\<close> sends status 200 when no status was sent before.\<close>

definition WriteChunk :: "chunk \<Rightarrow> response \<Rightarrow> response" where
  "WriteChunk c w = (let w' = WriteHeader 200 w in w'\<lparr>rBody := rBody w' @ [c]\<rparr>)"

definition sentStatus :: "response \<Rightarrow> nat option" where
  "sentStatus w = map_option fst (rSent w)"

definition sentHeader :: "response \<Rightarrow> string \<Rightarrow> string" where
  "sentHeader w k = (case rSent w of None \<Rightarrow> [] | Some (_, h) \<Rightarrow> hdrGet h k)"

definition generateErrorHTML :: "error_content \<Rightarrow> chunk" where
  "generateErrorHTML c = ErrorPage c"

definition serveErrorPage :: "error_content \<Rightarrow> response \<Rightarrow> response" where
  "serveErrorPage c w =
     WriteChunk (generateErrorHTML c)
       (WriteHeader (cStatus c)
         (setHeader ''X-Content-Type-Options'' ''nosniff''
           (setHeader ''Content-Type'' ''text/html; charset=utf-8'' w)))"

definition Serve401 :: "response \<Rightarrow> response" where "Serve401 = serveErrorPage content401"

definition Serve404 :: "response \<Rightarrow> response" where "Serve404 = serveErrorPage content404"

definition Serve414 :: "response \<Rightarrow> response" where "Serve414 = serveErrorPage content414"

definition Serve429 :: "response \<Rightarrow> response" where "Serve429 = serveErrorPage content429"

definition Serve500 :: "response \<Rightarrow> response" where "Serve500 = serveErrorPage content500"

definition Serve500WithRequest :: "response \<Rightarrow> response" where
  "Serve500WithRequest = serveErrorPage content500"

definition Serve502 :: "response \<Rightarrow> response" where "Serve502 = serveErrorPage content502"

definition Serve503 :: "response \<Rightarrow> response" where "Serve503 = serveErrorPage content503"

subsection \<open>http.Redirect and http.Error\<close>

definition statusText :: "nat \<Rightarrow> string" where
  "statusText code =
     (if code = 301 then ''Moved Permanently''
      else if code = 302 then ''Found''
      else if code = 307 then ''Temporary Redirect''
      else if code = 405 then ''Method Not Allowed''
      else [])"

definition htmlEscape :: "string \<Rightarrow> string" where
  "htmlEscape s = concat (map (\<lambda>c.
     if c = CHR ''&'' then ''&amp;''
     else if c = CHR ''<'' then ''&lt;''
     else if c = CHR ''>'' then ''&gt;''
     else if of_char c = (34::nat) then ''&#34;''
     else if of_char c = (39::nat) then ''&#39;''
     else [c]) s)"

definition hexEscapeNonASCII :: "string \<Rightarrow> string" where
  "hexEscapeNonASCII s = concat (map (\<lambda>c.
     if of_char c < (128::nat) then [c]
     else [CHR ''%'', toLowerByte (upperhex (of_char c div 16)),
           toLowerByte (upperhex (of_char c mod 16))]) s)"

text \<open>The location \<open>http.Redirect\<close> computes: a URL with neither scheme nor host is made absolute
  and cleaned, keeping a trailing slash and the query; any other URL is used as it is.\<close>

definition redirectLocation :: "request \<Rightarrow> string \<Rightarrow> string" where
  "redirectLocation r url =
     (case ParseURL url of
        None \<Rightarrow> url
      | Some u \<Rightarrow>
          (if uScheme u = [] \<and> uHost u = [] then
             (let oldpath = (if uPath (rqURL r) = [] then ''/'' else uPath (rqURL r));
                  url1 = (if HasPrefix url ''/'' then url else fst (SplitPath oldpath) @ url);
                  (url2, query) =
                    (case cutAt (CHR ''?'') url1 of
                       None \<Rightarrow> (url1, []) | Some (a, b) \<Rightarrow> (a, CHR ''?'' # b));
                  url3 = Clean url2
              in (if HasSuffix url2 ''/'' \<and> \<not> HasSuffix url3 ''/'' then url3 @ ''/'' else url3) @ query)
           else url))"

definition Redirect :: "request \<Rightarrow> string \<Rightarrow> nat \<Rightarrow> response \<Rightarrow> response" where
  "Redirect r url code w =
     (let loc = redirectLocation r url;
          hadCT = rHeader w ''Content-Type'' \<noteq> None;
          w1 = setHeader ''Location'' (hexEscapeNonASCII loc) w;
          w2 = (if \<not> hadCT \<and> (rqMethod r = ''GET'' \<or> rqMethod r = ''HEAD'')
                then setHeader ''Content-Type'' ''text/html; charset=utf-8'' w1 else w1);
          w3 = WriteHeader code w2
      in if \<not> hadCT \<and> rqMethod r = ''GET''
         then WriteChunk (Bytes (''<a href=\"'' @ htmlEscape loc @ ''\">'' @ statusText code
                @ ''</a>.\<newline>\<newline>'')) w3
         else w3)"

definition HttpError :: "string \<Rightarrow> nat \<Rightarrow> response \<Rightarrow> response" where
  "HttpError msg code w =
     WriteChunk (Bytes (msg @ ''\<newline>''))
       (WriteHeader code
         (setHeader ''X-Content-Type-Options'' ''nosniff''
           (setHeader ''Content-Type'' ''text/plain; charset=utf-8'' w)))"

subsection \<open>internal/request, internal/host, internal/feature\<close>

definition IsHTTPS :: "request \<Rightarrow> bool" where
  "IsHTTPS r \<longleftrightarrow> uScheme (rqURL r) = ''https''"

definition GetHostWithoutPort :: "request \<Rightarrow> string" where
  "GetHostWithoutPort r =
     (case SplitHostPort (rqHost r) of None \<Rightarrow> rqHost r | Some (host, _) \<Rightarrow> host)"

definition GetRemoteAddrWithoutPort :: "request \<Rightarrow> string" where
  "GetRemoteAddrWithoutPort r =
     (case SplitHostPort (rqRemoteAddr r) of None \<Rightarrow> rqRemoteAddr r | Some (addr, _) \<Rightarrow> addr)"

definition FromString :: "string \<Rightarrow> string" where
  "FromString s =
     (let host = ToLower s
      in (case SplitHostPort host of None \<Rightarrow> host | Some (splitHost, _) \<Rightarrow> splitHost))"

definition FromRequest :: "request \<Rightarrow> string" where
  "FromRequest r = FromString (rqHost r)"

record feature =
  EnvVariable :: string
  defaultEnabled :: bool

definition EnforceIPRateLimits :: feature where
  "EnforceIPRateLimits = \<lparr>EnvVariable = ''FF_ENFORCE_IP_RATE_LIMITS'', defaultEnabled = False\<rparr>"

definition EnforceDomainRateLimits :: feature where
  "EnforceDomainRateLimits = \<lparr>EnvVariable = ''FF_ENFORCE_DOMAIN_RATE_LIMITS'', defaultEnabled = False\<rparr>"

definition RedirectsPlaceholders :: feature where
  "RedirectsPlaceholders = \<lparr>EnvVariable = ''FF_ENABLE_PLACEHOLDERS'', defaultEnabled = False\<rparr>"

text \<open>The process environment is \<open>os.Getenv\<close>: unset variables read as the empty string.\<close>

type_synonym environ = "string \<Rightarrow> string"

definition Enabled :: "environ \<Rightarrow> feature \<Rightarrow> bool" where
  "Enabled getenv f =
     (if defaultEnabled f then getenv (EnvVariable f) \<noteq> ''false''
      else getenv (EnvVariable f) = ''true'')"

lemmas [http_simps] =
  isTokenByte_def CanonicalHeaderKey_def hdrGet_def hdrSet_def hdrAdd_def newResponse_def
  setHeader_def addHeader_def WriteHeader_def WriteChunk_def sentStatus_def sentHeader_def
  generateErrorHTML_def serveErrorPage_def Serve401_def Serve404_def Serve414_def Serve429_def
  Serve500_def Serve500WithRequest_def Serve502_def Serve503_def content401_def content404_def
  content414_def content429_def content500_def content502_def content503_def Redirect_def
  HttpError_def redirectLocation_def htmlEscape_def hexEscapeNonASCII_def IsHTTPS_def

subsection \<open>Facts about response writers\<close>

text \<open>A response that has been sent is never sent again: the status of the first \<open>WriteHeader\<close>
  stays.  \<open>fresh\<close> is the state of a writer nothing was sent on.\<close>

abbreviation fresh :: "response \<Rightarrow> bool" where
  "fresh w \<equiv> rSent w = None"

lemma rSent_setHeader [simp]: "rSent (setHeader k v w) = rSent w"
  by (simp add: setHeader_def)

lemma rBody_setHeader [simp]: "rBody (setHeader k v w) = rBody w"
  by (simp add: setHeader_def)

lemma rHeader_setHeader [simp]:
  "rHeader (setHeader k v w) = (rHeader w)(CanonicalHeaderKey k \<mapsto> [v])"
  by (simp add: setHeader_def hdrSet_def)

lemma rHeader_WriteHeader [simp]: "rHeader (WriteHeader code w) = rHeader w"
  by (simp add: WriteHeader_def)

lemma rBody_WriteHeader [simp]: "rBody (WriteHeader code w) = rBody w"
  by (simp add: WriteHeader_def)

lemma rSent_WriteHeader [simp]:
  "rSent (WriteHeader code w) = (case rSent w of None \<Rightarrow> Some (code, rHeader w) | Some x \<Rightarrow> Some x)"
  by (simp add: WriteHeader_def split: option.split)

lemma rHeader_WriteChunk [simp]: "rHeader (WriteChunk c w) = rHeader w"
  by (simp add: WriteChunk_def Let_def)

lemma rBody_WriteChunk [simp]: "rBody (WriteChunk c w) = rBody w @ [c]"
  by (simp add: WriteChunk_def Let_def)

lemma rSent_WriteChunk [simp]: "rSent (WriteChunk c w) = rSent (WriteHeader 200 w)"
  by (simp add: WriteChunk_def Let_def)

lemma hdrGet_upd_same [simp]: "CanonicalHeaderKey k = k' \<Longrightarrow> hdrGet (h(k' \<mapsto> [v])) k = v"
  by (simp add: hdrGet_def)

lemma hdrGet_upd_other: "CanonicalHeaderKey k \<noteq> k' \<Longrightarrow> hdrGet (h(k' := x)) k = hdrGet h k"
  by (simp add: hdrGet_def)

lemma serveErrorPage_fresh:
  assumes "fresh w"
  shows "sentStatus (serveErrorPage c w) = Some (cStatus c)"
    and "rBody (serveErrorPage c w) = rBody w @ [ErrorPage c]"
  using assms by (simp_all add: serveErrorPage_def sentStatus_def generateErrorHTML_def)

lemma serveErrorPage_sent: "\<not> fresh (serveErrorPage c w)"
  by (simp add: serveErrorPage_def split: option.splits)

lemma sentStatus_Redirect: "fresh w \<Longrightarrow> sentStatus (Redirect r u code w) = Some code"
  by (simp add: Redirect_def Let_def sentStatus_def)

lemma canonical_Location [simp]: "CanonicalHeaderKey ''Location'' = ''Location''"
  and canonical_Content_Type [simp]: "CanonicalHeaderKey ''Content-Type'' = ''Content-Type''"
  and canonical_ETag [simp]: "CanonicalHeaderKey ''ETag'' = ''Etag''"
  and canonical_Etag [simp]: "CanonicalHeaderKey ''Etag'' = ''Etag''"
  and canonical_Cache_Control [simp]: "CanonicalHeaderKey ''Cache-Control'' = ''Cache-Control''"
  and canonical_Content_Encoding [simp]: "CanonicalHeaderKey ''Content-Encoding'' = ''Content-Encoding''"
  and canonical_Content_Length [simp]: "CanonicalHeaderKey ''Content-Length'' = ''Content-Length''"
  and canonical_Expires [simp]: "CanonicalHeaderKey ''Expires'' = ''Expires''"
  and canonical_Last_Modified [simp]: "CanonicalHeaderKey ''Last-Modified'' = ''Last-Modified''"
  and canonical_XCTO [simp]: "CanonicalHeaderKey ''X-Content-Type-Options'' = ''X-Content-Type-Options''"
  and canonical_Range [simp]: "CanonicalHeaderKey ''Range'' = ''Range''"
  by code_simp+

lemma sentHeader_Redirect:
  "fresh w \<Longrightarrow> sentHeader (Redirect r u code w) ''Location'' = hexEscapeNonASCII (redirectLocation r u)"
  unfolding Redirect_def Let_def
  by (cases "rHeader w ''Content-Type''") (auto simp: sentHeader_def hdrGet_def)

lemma Redirect_sent: "\<not> fresh (Redirect r u code w)"
  by (simp add: Redirect_def Let_def split: option.splits)

lemma serveErrorPage_keeps_sent: "rSent w = Some x \<Longrightarrow> rSent (serveErrorPage c w) = Some x"
  by (simp add: serveErrorPage_def)

lemma Redirect_keeps_sent: "rSent w = Some x \<Longrightarrow> rSent (Redirect r u code w) = Some x"
  by (simp add: Redirect_def Let_def)

lemmas Serve_defs = Serve401_def Serve404_def Serve414_def Serve429_def Serve500_def
  Serve500WithRequest_def Serve502_def Serve503_def

text \<open>Whether a status has been sent.\<close>

definition wasSent :: "response \<Rightarrow> bool" where
  "wasSent w \<longleftrightarrow> rSent w \<noteq> None"

lemma wasSent_simps [simp]:
  "wasSent (setHeader k v w) = wasSent w" "wasSent (WriteHeader code w)" "wasSent (WriteChunk c w)"
  "wasSent (serveErrorPage content w)" "wasSent (Redirect r u code w)" "wasSent (HttpError m code w)"
  using serveErrorPage_sent Redirect_sent
  by (simp_all add: wasSent_def WriteHeader_def HttpError_def del: not_None_eq)

lemma wasSent_status: "wasSent w \<longleftrightarrow> (\<exists>code. sentStatus w = Some code)"
  by (auto simp: wasSent_def sentStatus_def)

subsection \<open>A request, for examples\<close>

definition exampleGet :: "string \<Rightarrow> string \<Rightarrow> request" where
  "exampleGet host path =
     \<lparr>rqMethod = ''GET'', rqHost = host, rqRequestURI = path, rqURL = emptyURL\<lparr>uPath := path\<rparr>,
      rqHeader = Map.empty, rqRemoteAddr = ''10.0.0.1:4000'', rqTLS = False\<rparr>"

end
