(* ===== verification/Vfs.thy ===== *)
theory Vfs
  imports Prelude
begin

text \<open>
  The interface of \<open>internal/vfs\<close>: what a site root offers (\<open>vfs.Root\<close>: \<open>Lstat\<close>, \<open>Readlink\<close>,
  \<open>Open\<close>), file information, open files, and the errors the file-serving packages compare.
  A root is a record of functions, so it is a snapshot: during one request the tree does not
  change.  The instrumented wrappers of \<open>vfs.go\<close> and \<open>root.go\<close> only count and log the calls.
  Times are nanoseconds since Go's zero time.

  The locale \<open>vfs_root_laws\<close> states what the disk reader relies on and what every implementation
  promises: an opened file is a regular file of the root, and looking up a relative name looks up the
  cleaned name.
\<close>

type_synonym gotime = int

text \<open>\<open>time.Unix(0, 0)\<close> on this scale.\<close>

definition unixEpochTime :: gotime where
  "unixEpochTime = 62135596800 * 1000000000"

datatype file_type = RegularFile | Directory | Symlink | OtherFile

record file_info =
  fiType :: file_type
  fiSize :: int
  fiModTime :: gotime

text \<open>An open file: what reading it to the end gives, and whether it also implements
  \<open>vfs.SeekableFile\<close>.\<close>

record vfs_file =
  fContent :: string
  fSeekable :: bool

datatype goerr =
    ErrNotExist
  | Canceled
  | DeadlineExceeded
  | ErrPermission
  | ENOTDIR
  | ELOOP
  | errNotFile
  | errNotSymlink
  | errSymlinkSize
  | errNotDirectory
  | invalidPathError string string
  | locationDirectoryError string string
  | locationFileNoExtensionError string
  | errNotRegular string
  | errBacktrackRoot
  | errTooManyLinks
  | errAlreadyCached
  | errMissingCacheKey
  | ErrNotFound
  | ErrRangeRequestsNotSupported
  | ErrInvalidRange
  | errSeekInvalidWhence
  | errSeekOutsideRange
  | errUnexpectedEOF
  | errEOF
  | errUnsupportedMethod nat
  | ErrDomainDoesNotExist
  | ErrUnauthorizedAPI
  | ErrDiskDisabled
  | errUnknownServing string
  | errHTTPStatus nat
  | errURL string
  | errInvalidToken
  | errEmptyDomainOrCode
  | errInvalidNonce
  | errInvalidCode
  | errResponseNotOk
  | errGenerateKeys
  | otherErr string
  | errWrapped string goerr

type_synonym 'a res = "goerr + 'a"

text \<open>\<open>errors.Is\<close>: the error or one it wraps with \<open>%w\<close> is the target.\<close>

fun errIs :: "goerr \<Rightarrow> goerr \<Rightarrow> bool" where
  "errIs (errWrapped msg err) target = (errWrapped msg err = target \<or> errIs err target)"
| "errIs err target = (err = target)"

record vfs_root =
  vLstat :: "string \<Rightarrow> file_info res"
  vReadlink :: "string \<Rightarrow> string res"
  vOpen :: "string \<Rightarrow> vfs_file res"

definition isRegular :: "file_info \<Rightarrow> bool" where
  "isRegular fi \<longleftrightarrow> fiType fi = RegularFile"

definition isDir :: "file_info \<Rightarrow> bool" where
  "isDir fi \<longleftrightarrow> fiType fi = Directory"

definition isSymlink :: "file_info \<Rightarrow> bool" where
  "isSymlink fi \<longleftrightarrow> fiType fi = Symlink"

locale vfs_root_laws =
  fixes root :: vfs_root
  assumes open_regular: "vOpen root n = Inr f \<Longrightarrow> \<exists>fi. vLstat root n = Inr fi \<and> isRegular fi"
    and lstat_clean: "\<not> isRooted n \<Longrightarrow> n \<noteq> [] \<Longrightarrow> vLstat root (Clean n) = vLstat root n"
begin

lemma open_not_dir: "vLstat root n = Inr fi \<Longrightarrow> isDir fi \<Longrightarrow> \<exists>e. vOpen root n = Inl e"
  using open_regular by (cases "vOpen root n") (fastforce simp: isDir_def isRegular_def)+

lemma open_missing: "vLstat root n = Inl e \<Longrightarrow> \<exists>e'. vOpen root n = Inl e'"
  using open_regular by (cases "vOpen root n") fastforce+

end

end
