(* ===== verification/Http_Client.thy ===== *)
theory Http_Client
  imports Http Vfs
begin

text \<open>
  Outgoing HTTP requests.  The network and the servers behind it are a parameter, a function from
  the request made to the response or an error (\<open>http.Client.Do\<close>), fixed for the time of one page
  request; \<open>http.NewRequestWithContext\<close> is modelled, deadlines and contexts are part of the parameter.
\<close>

record out_request =
  oqMethod :: string
  oqURL :: url
  oqHeader :: header
  oqBody :: string

record in_response =
  irStatus :: nat
  irHeader :: header
  irContentLength :: int
  irBody :: string

type_synonym http_do = "out_request \<Rightarrow> in_response res"

text \<open>A host that ends in a colon loses it.\<close>

definition hasPort :: "string \<Rightarrow> bool" where
  "hasPort s \<longleftrightarrow> CHR '':'' \<in> set (takeWhile (\<lambda>c. c \<noteq> CHR '']'') (rev s))"

definition removeEmptyPort :: "string \<Rightarrow> string" where
  "removeEmptyPort host = (if hasPort host then TrimSuffix host '':'' else host)"

definition NewRequest :: "string \<Rightarrow> string \<Rightarrow> string \<Rightarrow> out_request res" where
  "NewRequest method rawurl body =
     (case ParseURL rawurl of
        None \<Rightarrow> Inl (errURL rawurl)
      | Some u \<Rightarrow> Inr \<lparr>oqMethod = method, oqURL = u\<lparr>uHost := removeEmptyPort (uHost u)\<rparr>,
                      oqHeader = Map.empty, oqBody = body\<rparr>)"

definition setRequestHeader :: "string \<Rightarrow> string \<Rightarrow> out_request \<Rightarrow> out_request" where
  "setRequestHeader k v q = q\<lparr>oqHeader := hdrSet k v (oqHeader q)\<rparr>"

definition addRequestHeader :: "string \<Rightarrow> string \<Rightarrow> out_request \<Rightarrow> out_request" where
  "addRequestHeader k v q = q\<lparr>oqHeader := hdrAdd k v (oqHeader q)\<rparr>"

lemma NewRequest_fields:
  assumes "NewRequest m u b = Inr q"
  shows "oqMethod q = m" "oqHeader q = Map.empty" "oqBody q = b"
  using assms by (auto simp: NewRequest_def split: option.splits)

end
