(* ===== verification/Content.thy ===== *)
theory Content
  imports Http Vfs
begin

text \<open>
  Serving the content of a file: \<open>internal/vfs/serving\<close>, a copy of Go's \<open>net/http/fs.go\<close> without
  range requests, and \<open>http.ServeContent\<close> itself, which the disk reader calls for seekable files.
  Both share the precondition checks of RFC 7232.  Parsing and printing of HTTP dates
  (\<open>http.ParseTime\<close>, \<open>time.Format\<close>) is the argument \<open>dates\<close>; the boundary of a multipart answer,
  which Go picks at random, is the argument \<open>boundary\<close>.  Times are nanoseconds, so \<open>Truncate\<close> to
  seconds is division.
\<close>

record http_dates =
  dParse :: "string \<Rightarrow> gotime option"
  dFormat :: "gotime \<Rightarrow> string"

definition second :: int where "second = 1000000000"

subsection \<open>Entity tags\<close>

definition isTextSpace :: "char \<Rightarrow> bool" where
  "isTextSpace c \<longleftrightarrow> of_char c \<in> {9, 10, 13, 32 :: nat}"

text \<open>\<open>textproto.TrimString\<close>.\<close>

definition TrimString :: "string \<Rightarrow> string" where
  "TrimString s = rev (dropWhile isTextSpace (rev (dropWhile isTextSpace s)))"

definition isETagByte :: "char \<Rightarrow> bool" where
  "isETagByte c \<longleftrightarrow> (let n = of_char c :: nat in n = 33 \<or> (35 \<le> n \<and> n \<le> 126) \<or> 128 \<le> n)"

definition isQuote :: "char \<Rightarrow> bool" where
  "isQuote c \<longleftrightarrow> of_char c = (34::nat)"

fun scanETagFrom :: "string \<Rightarrow> string \<Rightarrow> string \<times> string" where
  "scanETagFrom pre [] = ([], [])"
| "scanETagFrom pre (c # s) =
     (if isETagByte c then scanETagFrom (pre @ [c]) s
      else if isQuote c then (pre @ [c], s)
      else ([], []))"

definition scanETag :: "string \<Rightarrow> string \<times> string" where
  "scanETag s0 =
     (let s = TrimString s0;
          start = (if HasPrefix s ''W/'' then 2 else 0)
      in if length (drop start s) < 2 \<or> \<not> isQuote (s ! start) then ([], [])
         else scanETagFrom (take (start + 1) s) (drop (start + 1) s))"

definition etagStrongMatch :: "string \<Rightarrow> string \<Rightarrow> bool" where
  "etagStrongMatch a b \<longleftrightarrow> a = b \<and> a \<noteq> [] \<and> isQuote (hd a)"

definition etagWeakMatch :: "string \<Rightarrow> string \<Rightarrow> bool" where
  "etagWeakMatch a b \<longleftrightarrow> TrimPrefix a ''W/'' = TrimPrefix b ''W/''"

lemma TrimString_length: "length (TrimString s) \<le> length s"
proof -
  have "length (dropWhile isTextSpace (rev (dropWhile isTextSpace s))) \<le> length (dropWhile isTextSpace s)"
    by (metis length_dropWhile_le length_rev)
  also have "\<dots> \<le> length s" by (rule length_dropWhile_le)
  finally show ?thesis by (simp add: TrimString_def)
qed

lemma scanETagFrom_length:
  "fst (scanETagFrom pre s) \<noteq> [] \<Longrightarrow> length (snd (scanETagFrom pre s)) < length s"
  by (induction pre s rule: scanETagFrom.induct) (auto split: if_splits intro: less_SucI)

lemma scanETag_shorter:
  assumes "fst (scanETag s) \<noteq> []"
  shows "length (snd (scanETag s)) < length s"
proof -
  let ?t = "TrimString s"
  let ?k = "if HasPrefix ?t ''W/'' then 2 else 0 :: nat"
  have e: "scanETag s = scanETagFrom (take (?k + 1) ?t) (drop (?k + 1) ?t)"
    using assms unfolding scanETag_def Let_def by (auto split: if_splits)
  then have "length (snd (scanETag s)) < length (drop (?k + 1) ?t)"
    using assms scanETagFrom_length by metis
  also have "\<dots> \<le> length s" using TrimString_length [of s] by simp
  finally show ?thesis .
qed

subsection \<open>Preconditions\<close>

datatype cond_result = condNone | condTrue | condFalse

text \<open>The loop of \<open>checkIfMatch\<close> and \<open>checkIfNoneMatch\<close>: whether some listed tag satisfies \<open>hit\<close>, or
  the list has a \<open>*\<close>, before the list ends or stops being well-formed.\<close>

function listedTag :: "(string \<Rightarrow> bool) \<Rightarrow> string \<Rightarrow> bool" where
  "listedTag hit s =
     (let buf = TrimString s
      in if buf = [] then False
         else if hd buf = CHR '','' then listedTag hit (tl buf)
         else if hd buf = CHR ''*'' then True
         else if fst (scanETag buf) = [] then False
         else if hit (fst (scanETag buf)) then True
         else listedTag hit (snd (scanETag buf)))"
  by pat_completeness auto

lemma listedTag_shorter:
  "TrimString s \<noteq> [] \<Longrightarrow> length (tl (TrimString s)) < length s"
  "fst (scanETag (TrimString s)) \<noteq> [] \<Longrightarrow> length (snd (scanETag (TrimString s))) < length s"
  using TrimString_length [of s] scanETag_shorter [of "TrimString s"]
  by (cases "TrimString s"; simp)+

termination listedTag
  by (relation "measure (\<lambda>(hit, s). length s)") (auto simp: listedTag_shorter simp del: length_tl)

declare listedTag.simps [simp del]

definition checkIfMatch :: "response \<Rightarrow> request \<Rightarrow> cond_result" where
  "checkIfMatch w r =
     (let im = hdrGet (rqHeader r) ''If-Match''
      in if im = [] then condNone
         else if listedTag (\<lambda>etag. etagStrongMatch etag (hdrGet (rHeader w) ''Etag'')) im then condTrue
         else condFalse)"

definition checkIfNoneMatch :: "response \<Rightarrow> request \<Rightarrow> cond_result" where
  "checkIfNoneMatch w r =
     (let inm = hdrGet (rqHeader r) ''If-None-Match''
      in if inm = [] then condNone
         else if listedTag (\<lambda>etag. etagWeakMatch etag (hdrGet (rHeader w) ''Etag'')) inm then condFalse
         else condTrue)"

definition isZeroTime :: "gotime \<Rightarrow> bool" where
  "isZeroTime t \<longleftrightarrow> t = 0 \<or> t = unixEpochTime"

definition truncateSecond :: "gotime \<Rightarrow> gotime" where
  "truncateSecond t = t div second * second"

definition checkIfUnmodifiedSince :: "http_dates \<Rightarrow> request \<Rightarrow> gotime \<Rightarrow> cond_result" where
  "checkIfUnmodifiedSince dates r modtime =
     (let ius = hdrGet (rqHeader r) ''If-Unmodified-Since''
      in if ius = [] \<or> isZeroTime modtime then condNone
         else case dParse dates ius of
                None \<Rightarrow> condNone
              | Some t \<Rightarrow> if truncateSecond modtime < t \<or> truncateSecond modtime = t then condTrue
                          else condFalse)"

definition checkIfModifiedSince :: "http_dates \<Rightarrow> request \<Rightarrow> gotime \<Rightarrow> cond_result" where
  "checkIfModifiedSince dates r modtime =
     (if rqMethod r \<noteq> ''GET'' \<and> rqMethod r \<noteq> ''HEAD'' then condNone
      else
        (let ims = hdrGet (rqHeader r) ''If-Modified-Since''
         in if ims = [] \<or> isZeroTime modtime then condNone
            else case dParse dates ims of
                   None \<Rightarrow> condNone
                 | Some t \<Rightarrow> if truncateSecond modtime < t \<or> truncateSecond modtime = t then condFalse
                             else condTrue))"

definition deleteHeader :: "string \<Rightarrow> response \<Rightarrow> response" where
  "deleteHeader k w = w\<lparr>rHeader := (rHeader w)(k := None)\<rparr>"

definition setLastModified :: "http_dates \<Rightarrow> gotime \<Rightarrow> response \<Rightarrow> response" where
  "setLastModified dates modtime w =
     (if isZeroTime modtime then w else setHeader ''Last-Modified'' (dFormat dates modtime) w)"

definition writeNotModified :: "response \<Rightarrow> response" where
  "writeNotModified w =
     (let w1 = deleteHeader ''Content-Length'' (deleteHeader ''Content-Type'' w);
          w2 = (if hdrGet (rHeader w1) ''Etag'' \<noteq> [] then deleteHeader ''Last-Modified'' w1 else w1)
      in WriteHeader 304 w2)"

text \<open>The result is whether the response is complete, and the response.\<close>

definition checkPreconditions :: "http_dates \<Rightarrow> request \<Rightarrow> gotime \<Rightarrow> response \<Rightarrow> bool \<times> response" where
  "checkPreconditions dates r modtime w =
     (let ch0 = checkIfMatch w r;
          ch = (if ch0 = condNone then checkIfUnmodifiedSince dates r modtime else ch0)
      in if ch = condFalse then (True, WriteHeader 412 w)
         else
           (case checkIfNoneMatch w r of
              condFalse \<Rightarrow>
                if rqMethod r = ''GET'' \<or> rqMethod r = ''HEAD'' then (True, writeNotModified w)
                else (True, WriteHeader 412 w)
            | condNone \<Rightarrow>
                if checkIfModifiedSince dates r modtime = condFalse then (True, writeNotModified w)
                else (False, w)
            | condTrue \<Rightarrow> (False, w)))"

subsection \<open>Files that cannot seek\<close>

text \<open>\<open>serveContent\<close> and \<open>ServeCompressedFile\<close>.\<close>

definition serveContent :: "http_dates \<Rightarrow> request \<Rightarrow> gotime \<Rightarrow> string \<Rightarrow> response \<Rightarrow> response" where
  "serveContent dates r modtime content w =
     (case checkPreconditions dates r modtime (setLastModified dates modtime w) of
        (True, w') \<Rightarrow> w'
      | (False, w') \<Rightarrow>
          if rHeader w' ''Content-Type'' = None then Serve500 w'
          else
            (let w'' = WriteHeader 200 w'
             in if rqMethod r \<noteq> ''HEAD'' then WriteChunk (Bytes content) w'' else w''))"

definition ServeCompressedFile :: "http_dates \<Rightarrow> request \<Rightarrow> gotime \<Rightarrow> string \<Rightarrow> response \<Rightarrow> response" where
  "ServeCompressedFile dates r modtime content w = serveContent dates r modtime content w"

subsection \<open>http.ServeContent\<close>

definition checkIfRange :: "http_dates \<Rightarrow> request \<Rightarrow> gotime \<Rightarrow> response \<Rightarrow> cond_result" where
  "checkIfRange dates r modtime w =
     (if rqMethod r \<noteq> ''GET'' \<and> rqMethod r \<noteq> ''HEAD'' then condNone
      else
        (let ir = hdrGet (rqHeader r) ''If-Range''
         in if ir = [] then condNone
            else if fst (scanETag ir) \<noteq> [] then
              (if etagStrongMatch (fst (scanETag ir)) (hdrGet (rHeader w) ''Etag'') then condTrue else condFalse)
            else if modtime = 0 then condFalse
            else case dParse dates ir of
                   None \<Rightarrow> condFalse
                 | Some t \<Rightarrow> if t div second = modtime div second then condTrue else condFalse))"

text \<open>\<open>strconv.ParseInt\<close> with base 10 and 64 bits.\<close>

definition parseInt64 :: "string \<Rightarrow> int option" where
  "parseInt64 s =
     (let (neg, ds) = (case s of
            c # cs \<Rightarrow> if c = CHR ''-'' then (True, cs) else if c = CHR ''+'' then (False, cs) else (False, s)
          | [] \<Rightarrow> (False, s))
      in if ds = [] \<or> \<not> list_all isDigit ds then None
         else
           (let n = int (decimalValue ds)
            in if neg then (if n > 2 ^ 63 then None else Some (- n))
               else (if n \<ge> 2 ^ 63 then None else Some n)))"

datatype range_error = invalidRange | noOverlapError

text \<open>One range of the header: \<open>None\<close> when it begins after the end of the content.\<close>

definition parseOneRange :: "int \<Rightarrow> string \<Rightarrow> range_error + (int \<times> int) option" where
  "parseOneRange sz ra =
     (case cutAt (CHR ''-'') ra of
        None \<Rightarrow> Inl invalidRange
      | Some (a, b) \<Rightarrow>
          (let s = TrimString a; e = TrimString b
           in if s = [] then
                (if e = [] \<or> hd e = CHR ''-'' then Inl invalidRange
                 else case parseInt64 e of
                        None \<Rightarrow> Inl invalidRange
                      | Some i \<Rightarrow>
                          if i < 0 then Inl invalidRange
                          else (let st = sz - min i sz in Inr (Some (st, sz - st))))
              else case parseInt64 s of
                     None \<Rightarrow> Inl invalidRange
                   | Some i \<Rightarrow>
                       if i < 0 then Inl invalidRange
                       else if i \<ge> sz then Inr None
                       else if e = [] then Inr (Some (i, sz - i))
                       else case parseInt64 e of
                              None \<Rightarrow> Inl invalidRange
                            | Some j \<Rightarrow>
                                if i > j then Inl invalidRange
                                else Inr (Some (i, min j (sz - 1) - i + 1))))"

fun parseRanges :: "int \<Rightarrow> string list \<Rightarrow> bool \<Rightarrow> (int \<times> int) list \<Rightarrow> range_error + (int \<times> int) list" where
  "parseRanges sz [] noOverlap ranges =
     (if noOverlap \<and> ranges = [] then Inl noOverlapError else Inr ranges)"
| "parseRanges sz (ra0 # ras) noOverlap ranges =
     (let ra = TrimString ra0
      in if ra = [] then parseRanges sz ras noOverlap ranges
         else case parseOneRange sz ra of
                Inl e \<Rightarrow> Inl e
              | Inr None \<Rightarrow> parseRanges sz ras True ranges
              | Inr (Some r) \<Rightarrow> parseRanges sz ras noOverlap (ranges @ [r]))"

definition parseRange :: "string \<Rightarrow> int \<Rightarrow> range_error + (int \<times> int) list" where
  "parseRange s sz =
     (if s = [] then Inr []
      else if \<not> HasPrefix s ''bytes='' then Inl invalidRange
      else parseRanges sz (Split (CHR '','') (drop 6 s)) False [])"

definition decimalInt :: "int \<Rightarrow> string" where
  "decimalInt n = (if n < 0 then ''-'' @ decimal (nat (- n)) else decimal (nat n))"

definition contentRange :: "int \<Rightarrow> int \<times> int \<Rightarrow> string" where
  "contentRange sz r =
     ''bytes '' @ decimalInt (fst r) @ ''-'' @ decimalInt (fst r + snd r - 1) @ ''/'' @ decimalInt sz"

definition slice :: "string \<Rightarrow> int \<times> int \<Rightarrow> string" where
  "slice content r = take (nat (snd r)) (drop (nat (fst r)) content)"

definition CRLF :: string where "CRLF = [char_of (13::nat), char_of (10::nat)]"

definition multipartPart :: "string \<Rightarrow> string \<Rightarrow> string \<Rightarrow> bool \<Rightarrow> int \<times> int \<Rightarrow> string" where
  "multipartPart boundary ctype content isFirst r =
     (if isFirst then [] else CRLF) @ ''--'' @ boundary @ CRLF
     @ ''Content-Range: '' @ contentRange (int (length content)) r @ CRLF
     @ ''Content-Type: '' @ ctype @ CRLF @ CRLF @ slice content r"

definition multipartBody :: "string \<Rightarrow> string \<Rightarrow> string \<Rightarrow> (int \<times> int) list \<Rightarrow> string" where
  "multipartBody boundary ctype content ranges =
     concat (map (\<lambda>(k, r). multipartPart boundary ctype content (k = 0) r) (enumerate 0 ranges))
     @ CRLF @ ''--'' @ boundary @ ''--'' @ CRLF"

text \<open>The content type is set by the callers of this development, so it is not sniffed.\<close>

definition ServeContent ::
  "http_dates \<Rightarrow> string \<Rightarrow> request \<Rightarrow> gotime \<Rightarrow> string \<Rightarrow> response \<Rightarrow> response"
where
  "ServeContent dates boundary r modtime content w =
     (case checkPreconditions dates r modtime (setLastModified dates modtime w) of
        (True, w') \<Rightarrow> w'
      | (False, w1) \<Rightarrow>
          (let rangeHeader = hdrGet (rqHeader r) ''Range'';
               rangeReq = (if rangeHeader \<noteq> [] \<and> checkIfRange dates r modtime w1 = condFalse then []
                           else rangeHeader);
               ctype = hdrGet (rHeader w1) ''Content-Type'';
               sz = int (length content)
           in case parseRange rangeReq sz of
                Inl noOverlapError \<Rightarrow>
                  HttpError ''invalid range: failed to overlap'' 416
                    (setHeader ''Content-Range'' (''bytes */'' @ decimalInt sz) w1)
              | Inl invalidRange \<Rightarrow> HttpError ''invalid range'' 416 w1
              | Inr ranges0 \<Rightarrow>
                  (let ranges = (if sum_list (map snd ranges0) > sz then [] else ranges0);
                       (code, body, w2) =
                         (case ranges of
                            [] \<Rightarrow> (200, content, w1)
                          | [ra] \<Rightarrow> (206, slice content ra, setHeader ''Content-Range'' (contentRange sz ra) w1)
                          | _ \<Rightarrow> (206, multipartBody boundary ctype content ranges,
                                 setHeader ''Content-Type'' (''multipart/byteranges; boundary='' @ boundary) w1));
                       w3 = setHeader ''Accept-Ranges'' ''bytes'' w2;
                       w4 = (if hdrGet (rHeader w3) ''Content-Encoding'' = []
                             then setHeader ''Content-Length'' (decimalInt (int (length body))) w3 else w3);
                       w5 = WriteHeader code w4
                   in if rqMethod r \<noteq> ''HEAD'' then WriteChunk (Bytes body) w5 else w5)))"

subsection \<open>Lists of entity tags\<close>

definition validTag :: "string \<Rightarrow> bool" where
  "validTag e \<longleftrightarrow>
     (\<exists>q t. isQuote q \<and> list_all isETagByte t \<and> (e = q # t @ [q] \<or> e = ''W/'' @ q # t @ [q]))"

lemma isQuote_unique: "isQuote p \<Longrightarrow> isQuote q \<Longrightarrow> p = q"
  unfolding isQuote_def by (metis char_of_char)

lemma isQuote_not: "isQuote q \<Longrightarrow> \<not> isETagByte q \<and> \<not> isTextSpace q \<and> q \<noteq> CHR '','' \<and> q \<noteq> CHR ''*'' \<and> q \<noteq> CHR ''W''"
  by (auto simp: isQuote_def isETagByte_def isTextSpace_def)

lemma scanETagFrom_tag:
  "list_all isETagByte t \<Longrightarrow> isQuote q \<Longrightarrow> scanETagFrom pre (t @ q # rest) = (pre @ t @ [q], rest)"
  by (induction t arbitrary: pre) (auto dest: isQuote_not)

lemma TrimString_id:
  assumes "s \<noteq> []" and "\<not> isTextSpace (hd s)" and "\<not> isTextSpace (last s)"
  shows "TrimString s = s"
proof -
  have "dropWhile isTextSpace s = s" using assms(1,2) by (cases s) auto
  moreover have "dropWhile isTextSpace (rev s) = rev s" using assms(1,3) by (cases s rule: rev_cases) auto
  ultimately show ?thesis by (simp add: TrimString_def)
qed

lemma scanETag_tag:
  assumes "validTag e" and "last (e @ rest) = last e"
  shows "scanETag (e @ rest) = (e, rest)"
proof -
  obtain q t where q: "isQuote q" "list_all isETagByte t" and e: "e = q # t @ [q] \<or> e = ''W/'' @ q # t @ [q]"
    using assms(1) by (auto simp: validTag_def)
  note n = isQuote_not [OF q(1)]
  have "last e = q" "e \<noteq> []" "hd (e @ rest) = q \<or> hd (e @ rest) = CHR ''W''" using e by auto
  then have t: "TrimString (e @ rest) = e @ rest"
    using assms(2) n by (intro TrimString_id) (auto simp: isTextSpace_def)
  from e show ?thesis
  proof
    assume e: "e = q # t @ [q]"
    then have "\<not> HasPrefix (e @ rest) ''W/''" using n by (simp add: HasPrefix_def)
    then show ?thesis unfolding scanETag_def Let_def t using e q scanETagFrom_tag [OF q(2,1), of "[q]" rest] by simp
  next
    assume e: "e = ''W/'' @ q # t @ [q]"
    then have "HasPrefix (e @ rest) ''W/''" by (simp add: HasPrefix_def)
    then show ?thesis
      unfolding scanETag_def Let_def t using e q scanETagFrom_tag [OF q(2,1), of "''W/'' @ [q]" rest] by simp
  qed
qed

lemma validTag_ends:
  assumes "validTag e"
  shows "e \<noteq> []" "\<not> isTextSpace (hd e)" "\<not> isTextSpace (last e)" "hd e \<noteq> CHR '',''" "hd e \<noteq> CHR ''*''"
    "isQuote (last e)"
proof -
  obtain q t where q: "isQuote q" and e: "e = q # t @ [q] \<or> e = ''W/'' @ q # t @ [q]"
    using assms by (auto simp: validTag_def)
  then show "e \<noteq> []" "\<not> isTextSpace (hd e)" "\<not> isTextSpace (last e)" "hd e \<noteq> CHR '',''" "hd e \<noteq> CHR ''*''"
    "isQuote (last e)"
    using isQuote_not [OF q] by (auto simp: isTextSpace_def)
qed

lemma Join_tags_ends:
  assumes "es \<noteq> []" and "\<forall>e \<in> set es. validTag e"
  shows "Join es '', '' \<noteq> [] \<and> hd (Join es '', '') = hd (hd es) \<and> last (Join es '', '') = last (last es)"
  using assms
proof (induction es)
  case (Cons e es)
  then show ?case using validTag_ends(1) [of e] by (cases es) auto
qed simp

lemma last_quote:
  assumes "es \<noteq> []" and "\<forall>e \<in> set es. validTag e" and "validTag e"
  shows "last (e @ '', '' @ Join es '', '') = last e"
  using Join_tags_ends [OF assms(1,2)] validTag_ends(6) [OF assms(3)] validTag_ends(6) [of "last es"] assms
    isQuote_unique by simp

lemma listedTag_Join:
  assumes "es \<noteq> []" and "\<forall>e \<in> set es. validTag e" and "pre = [] \<or> pre = '' ''"
  shows "listedTag hit (pre @ Join es '', '') \<longleftrightarrow> (\<exists>e \<in> set es. hit e)"
  using assms
proof (induction es arbitrary: pre)
  case Nil
  then show ?case by simp
next
  case (Cons e es)
  note ends = validTag_ends [of e] and j = Join_tags_ends [OF Cons.prems(1,2)]
  have v: "validTag e" using Cons.prems by simp
  let ?s = "Join (e # es) '', ''"
  have "TrimString ?s = ?s" using Cons.prems j validTag_ends [of "last (e # es)"] ends v
    by (intro TrimString_id) auto
  moreover have "TrimString ('' '' @ ?s) = TrimString ?s"
    by (simp add: TrimString_def isTextSpace_def)
  ultimately have t: "TrimString (pre @ ?s) = ?s" using Cons.prems(3) by auto
  have h: "?s \<noteq> []" "hd ?s \<noteq> CHR '',''" "hd ?s \<noteq> CHR ''*''" using j ends v by auto
  show ?case
  proof (cases "es = []")
    case True
    then have "scanETag ?s = (e, [])" using scanETag_tag [OF v, of "[]"] by simp
    moreover have "listedTag hit [] = False" by (simp add: listedTag.simps [of hit "[]"] TrimString_def)
    ultimately show ?thesis using True h ends(1) [OF v]
      unfolding listedTag.simps [of hit "pre @ ?s"] t Let_def by simp
  next
    case False
    let ?r = "'', '' @ Join es '', ''"
    have s: "?s = e @ ?r" using False by (cases es) auto
    have sc: "scanETag ?s = (e, ?r)"
      unfolding s using scanETag_tag [OF v last_quote [OF False _ v]] Cons.prems by simp
    have "TrimString ?r = ?r"
    proof (rule TrimString_id)
      show "\<not> isTextSpace (last ?r)"
        using Join_tags_ends [OF False] Cons.prems validTag_ends(3) [of "last es"] False by simp
    qed (simp_all add: isTextSpace_def)
    then have "listedTag hit ?r = listedTag hit ('' '' @ Join es '', '')"
      using listedTag.simps [of hit ?r] by simp
    also have "\<dots> = (\<exists>e \<in> set es. hit e)" using Cons.IH [of "'' ''"] False Cons.prems by simp
    finally have IH: "listedTag hit ?r = (\<exists>e \<in> set es. hit e)" .
    show ?thesis
      unfolding listedTag.simps [of hit "pre @ ?s"] t Let_def sc using h ends(1) [OF v] IH by simp
  qed
qed

text \<open>
  An \<open>If-None-Match\<close> header that lists entity tags separated by commas is refused exactly when one
  of them is the response's tag under weak comparison: scanning the printed list finds every tag.
\<close>

theorem checkIfNoneMatch_list:
  assumes "es \<noteq> []" and "\<forall>e \<in> set es. validTag e"
    and "hdrGet (rqHeader r) ''If-None-Match'' = Join es '', ''"
  shows "checkIfNoneMatch w r =
    (if \<exists>e \<in> set es. etagWeakMatch e (hdrGet (rHeader w) ''Etag'') then condFalse else condTrue)"
  using listedTag_Join [OF assms(1,2), of "[]"] Join_tags_ends [OF assms(1,2)] assms(3)
  by (simp add: checkIfNoneMatch_def)

definition exampleTag :: "string \<Rightarrow> string" where
  "exampleTag t = [char_of (34::nat)] @ t @ [char_of (34::nat)]"

lemma exampleTag_valid: "list_all isETagByte t \<Longrightarrow> validTag (exampleTag t)"
  unfolding validTag_def exampleTag_def isQuote_def by (intro exI [of _ "char_of (34::nat)"] exI [of _ t]) simp

theorem checkIfNoneMatch_list_witness:
  "checkIfNoneMatch (setHeader ''Etag'' (exampleTag ''b'') newResponse)
    (exampleGet ''h'' ''/''\<lparr>rqHeader := [''If-None-Match'' \<mapsto> [Join [exampleTag ''a'', exampleTag ''b''] '', '']]\<rparr>)
    = condFalse"
proof -
  let ?es = "[exampleTag ''a'', exampleTag ''b'']"
  let ?r = "exampleGet ''h'' ''/''\<lparr>rqHeader := [''If-None-Match'' \<mapsto> [Join ?es '', '']]\<rparr>"
  have v: "\<forall>e \<in> set ?es. validTag e" by (auto intro!: exampleTag_valid simp: isETagByte_def)
  have "CanonicalHeaderKey ''If-None-Match'' = ''If-None-Match''" by code_simp
  then have h: "hdrGet (rqHeader ?r) ''If-None-Match'' = Join ?es '', ''" by (simp add: hdrGet_def)
  show ?thesis using checkIfNoneMatch_list [OF _ v h] by (simp add: etagWeakMatch_def)
qed

subsection \<open>What is sent\<close>

lemma rSent_deleteHeader [simp]: "rSent (deleteHeader k w) = rSent w"
  and rBody_deleteHeader [simp]: "rBody (deleteHeader k w) = rBody w"
  and rHeader_deleteHeader [simp]: "rHeader (deleteHeader k w) = (rHeader w)(k := None)"
  by (simp_all add: deleteHeader_def)

lemma setLastModified_frame [simp]:
  "rSent (setLastModified dates t w) = rSent w" "rBody (setLastModified dates t w) = rBody w"
  "rHeader (setLastModified dates t w) ''Content-Type'' = rHeader w ''Content-Type''"
  "rHeader (setLastModified dates t w) ''Etag'' = rHeader w ''Etag''"
  by (simp_all add: setLastModified_def)

lemma writeNotModified_sent:
  "fresh w \<Longrightarrow> sentStatus (writeNotModified w) = Some 304 \<and> rBody (writeNotModified w) = rBody w
    \<and> sentHeader (writeNotModified w) ''Content-Length'' = [] \<and> sentHeader (writeNotModified w) ''Content-Type'' = []"
  by (simp add: writeNotModified_def Let_def sentStatus_def sentHeader_def hdrGet_def)

lemma checkPreconditions_done:
  assumes "checkPreconditions dates r t w = (d, w')" and "fresh w"
  shows "if d then sentStatus w' \<in> {Some 304, Some 412} \<and> rBody w' = rBody w else w' = w"
  using assms writeNotModified_sent [OF assms(2)]
  by (auto simp: checkPreconditions_def Let_def sentStatus_def split: cond_result.splits if_splits)

lemma ServeCompressedFile_answer:
  assumes "fresh w" and "rHeader w ''Content-Type'' \<noteq> None"
  shows "(sentStatus (ServeCompressedFile dates r t content w) \<in> {Some 304, Some 412}
      \<and> rBody (ServeCompressedFile dates r t content w) = rBody w)
    \<or> (sentStatus (ServeCompressedFile dates r t content w) = Some 200
      \<and> rBody (ServeCompressedFile dates r t content w) =
          (if rqMethod r = ''HEAD'' then rBody w else rBody w @ [Bytes content]))"
proof -
  obtain d w' where c: "checkPreconditions dates r t (setLastModified dates t w) = (d, w')" by fastforce
  show ?thesis
    using checkPreconditions_done [OF c] assms
    by (cases d) (auto simp: ServeCompressedFile_def serveContent_def c Let_def sentStatus_def)
qed

text \<open>
  A file that cannot seek is answered completely: with 304 or 412 and no body when a
  precondition decides, and otherwise with 200 and the whole content, or no body for \<open>HEAD\<close>.
\<close>

theorem ServeCompressedFile_response:
  assumes "fresh w" and "rHeader w ''Content-Type'' \<noteq> None"
  shows "(sentStatus (ServeCompressedFile dates r t content w) \<in> {Some 304, Some 412}
      \<and> rBody (ServeCompressedFile dates r t content w) = rBody w)
    \<or> (sentStatus (ServeCompressedFile dates r t content w) = Some 200
      \<and> rBody (ServeCompressedFile dates r t content w) =
          (if rqMethod r = ''HEAD'' then rBody w else rBody w @ [Bytes content]))"
  by (rule ServeCompressedFile_answer [OF assms])

theorem ServeCompressedFile_response_witness:
  "sentStatus (ServeCompressedFile \<lparr>dParse = \<lambda>_. None, dFormat = \<lambda>_. []\<rparr> (exampleGet ''h'' ''/a'') 0 ''hi''
    (setHeader ''Content-Type'' ''text/plain'' newResponse)) \<in> {Some 200, Some 304, Some 412}"
proof -
  have "fresh (setHeader ''Content-Type'' ''text/plain'' newResponse)"
    "rHeader (setHeader ''Content-Type'' ''text/plain'' newResponse) ''Content-Type'' \<noteq> None"
    by (simp_all add: newResponse_def)
  from ServeCompressedFile_response [OF this] show ?thesis by blast
qed

lemma parseOneRange_bounds:
  assumes "parseOneRange sz ra = Inr (Some (a, l))" and "0 \<le> sz"
  shows "0 \<le> a \<and> 0 \<le> l \<and> a + l \<le> sz"
  using assms by (auto simp: parseOneRange_def Let_def split: option.splits if_splits prod.splits)

lemma parseRanges_bounds:
  assumes "parseRanges sz ras n rs = Inr rs'" and "0 \<le> sz"
    and "\<forall>(a, l) \<in> set rs. 0 \<le> a \<and> 0 \<le> l \<and> a + l \<le> sz"
  shows "\<forall>(a, l) \<in> set rs'. 0 \<le> a \<and> 0 \<le> l \<and> a + l \<le> sz"
  using assms
proof (induction sz ras n rs rule: parseRanges.induct)
  case (1 sz n rs)
  then show ?case by (auto split: if_splits)
next
  case (2 sz ra0 ras n rs)
  show ?case
  proof (cases "TrimString ra0 = []")
    case True
    then show ?thesis using "2.IH"(1) "2.prems" by simp
  next
    case False
    then obtain ro where o: "parseOneRange sz (TrimString ra0) = Inr ro"
      using "2.prems"(1) by (cases "parseOneRange sz (TrimString ra0)") auto
    show ?thesis
    proof (cases ro)
      case None
      then show ?thesis using "2.IH"(2) [OF refl False] o False "2.prems" by simp
    next
      case (Some r)
      obtain a l where r: "r = (a, l)" by fastforce
      have "0 \<le> a \<and> 0 \<le> l \<and> a + l \<le> sz" using parseOneRange_bounds o Some r "2.prems"(2) by simp
      then show ?thesis using "2.IH"(3) [OF refl False o Some] o Some r False "2.prems" by simp
    qed
  qed
qed

lemma parseRange_bounds:
  assumes "parseRange s sz = Inr rs" and "0 \<le> sz"
  shows "\<forall>(a, l) \<in> set rs. 0 \<le> a \<and> 0 \<le> l \<and> a + l \<le> sz"
  using assms parseRanges_bounds [of sz _ False "[]" rs] by (auto simp: parseRange_def split: if_splits)

text \<open>The two shapes of a complete answer of \<open>http.ServeContent\<close>: the whole content, or parts of it
  within its bounds.\<close>

definition servedRanges :: "string \<Rightarrow> string \<Rightarrow> string \<Rightarrow> string \<Rightarrow> bool" where
  "servedRanges boundary ctype content body \<longleftrightarrow>
     (\<exists>rs. rs \<noteq> [] \<and> (\<forall>(a, l) \<in> set rs. 0 \<le> a \<and> 0 \<le> l \<and> a + l \<le> int (length content))
        \<and> body = (if length rs = 1 then slice content (hd rs) else multipartBody boundary ctype content rs))"

lemma ServeContent_response:
  assumes "fresh w" and w': "w' = ServeContent dates boundary r t content w"
  shows "(sentStatus w' \<in> {Some 304, Some 412} \<and> rBody w' = rBody w)
    \<or> (sentStatus w' = Some 416)
    \<or> (\<exists>body. (sentStatus w' = Some 200 \<and> body = content
          \<or> sentStatus w' = Some 206 \<and> servedRanges boundary (hdrGet (rHeader w) ''Content-Type'') content body)
        \<and> rBody w' = (if rqMethod r = ''HEAD'' then rBody w else rBody w @ [Bytes body]))"
proof -
  obtain d w1 where c: "checkPreconditions dates r t (setLastModified dates t w) = (d, w1)" by fastforce
  show ?thesis
  proof (cases d)
    case True
    then have "w' = w1" by (simp add: w' ServeContent_def c)
    then show ?thesis using checkPreconditions_done [OF c] assms(1) True by simp
  next
    case False
    then have w1: "w1 = setLastModified dates t w" using checkPreconditions_done [OF c] assms(1) by simp
    have ct: "hdrGet (rHeader w1) ''Content-Type'' = hdrGet (rHeader w) ''Content-Type''"
      by (simp add: hdrGet_def w1)
    have f: "fresh w1" "rBody w1 = rBody w" using assms(1) by (simp_all add: w1)
    define req where "req = (if hdrGet (rqHeader r) ''Range'' \<noteq> [] \<and> checkIfRange dates r t w1 = condFalse then []
      else hdrGet (rqHeader r) ''Range'')"
    show ?thesis
    proof (cases "parseRange req (int (length content))")
      case (Inl e)
      then have "sentStatus w' = Some 416"
        using False f unfolding w' ServeContent_def c req_def
        by (cases e) (simp_all add: Let_def HttpError_def sentStatus_def)
      then show ?thesis by simp
    next
      case (Inr rs0)
      define rs where "rs = (if sum_list (map snd rs0) > int (length content) then [] else rs0)"
      have b: "\<forall>(a, l) \<in> set rs. 0 \<le> a \<and> 0 \<le> l \<and> a + l \<le> int (length content)"
        using parseRange_bounds [OF Inr] by (simp add: rs_def)
      define body where "body = (case rs of [] \<Rightarrow> content | [ra] \<Rightarrow> slice content ra
        | _ \<Rightarrow> multipartBody boundary (hdrGet (rHeader w) ''Content-Type'') content rs)"
      have "sentStatus w' = Some (if rs = [] then 200 else 206)
          \<and> rBody w' = (if rqMethod r = ''HEAD'' then rBody w else rBody w @ [Bytes body])"
        using False f Inr
        unfolding w' ServeContent_def c req_def body_def rs_def
        by (auto simp: Let_def sentStatus_def ct split: list.split prod.split)
      moreover have "rs = [] \<Longrightarrow> body = content" by (simp add: body_def)
      moreover have "rs \<noteq> [] \<Longrightarrow> servedRanges boundary (hdrGet (rHeader w) ''Content-Type'') content body"
        unfolding servedRanges_def using b by (intro exI [of _ rs]) (auto simp: body_def split: list.split)
      ultimately show ?thesis by (cases "rs = []") auto
    qed
  qed
qed

end
