(* ===== verification/Http_Range.thy ===== *)
theory Http_Range
  imports Http_Client Content
begin

text \<open>
  Reading parts of remote archives, \<open>internal/httprange\<close>.  The HTTP client is a parameter from requests to
  responses.  The body of a response arrives in pieces: \<open>bdChunks\<close> are the pieces the network delivers,
  \<open>bdEnd\<close> is what reading past the last one reports (\<open>errEOF\<close>, or a broken connection), and \<open>bdEager\<close> says
  whether that is already reported together with the last piece.  Offsets and sizes are \<open>int64\<close>: integers,
  with the wrap-around of sums written out.  Contexts and metrics are left out.
\<close>

subsection \<open>64-bit integers\<close>

definition wrap64 :: "int \<Rightarrow> int" where
  "wrap64 n = (n + 2 ^ 63) mod 2 ^ 64 - 2 ^ 63"

definition isInt64 :: "int \<Rightarrow> bool" where
  "isInt64 n \<longleftrightarrow> - (2 ^ 63) \<le> n \<and> n < 2 ^ 63"

text \<open>\<open>strconv.ParseInt(s, 0, 64)\<close>: a sign, a prefix that chooses the base, digits with separating
  underscores.\<close>

definition digitOf :: "char \<Rightarrow> nat option" where
  "digitOf c =
     (if isDigit c then Some (of_char c - 48)
      else if isLower (toLowerByte c) then Some (of_char (toLowerByte c) - 87)
      else None)"

fun parseDigits :: "nat \<Rightarrow> nat \<Rightarrow> string \<Rightarrow> nat option" where
  "parseDigits base v [] = Some v"
| "parseDigits base v (c # s) =
     (if c = CHR ''_'' then parseDigits base v s
      else case digitOf c of
          None \<Rightarrow> None
        | Some d \<Rightarrow> if d < base then parseDigits base (v * base + d) s else None)"

text \<open>\<open>i\<close> is the class of the previous character: a digit, an underscore or something else.\<close>

datatype seen = SeenDigit | SeenUnderscore | SeenOther

fun underscoresOk :: "bool \<Rightarrow> seen \<Rightarrow> string \<Rightarrow> bool" where
  "underscoresOk hex i [] = (i \<noteq> SeenUnderscore)"
| "underscoresOk hex i (c # s) =
     (if isDigit c \<or> (hex \<and> isHexByte c) then underscoresOk hex SeenDigit s
      else if c = CHR ''_'' then (i = SeenDigit \<and> underscoresOk hex SeenUnderscore s)
      else (i \<noteq> SeenUnderscore \<and> underscoresOk hex SeenOther s))"

definition parsePrefix :: "string \<Rightarrow> nat \<times> seen \<times> string" where
  "parsePrefix s =
     (case s of
        a # b # rest \<Rightarrow>
          if a \<noteq> CHR ''0'' then (10, SeenOther, s)
          else if rest = [] then (8, SeenDigit, [b])
          else if toLowerByte b = CHR ''b'' then (2, SeenDigit, rest)
          else if toLowerByte b = CHR ''o'' then (8, SeenDigit, rest)
          else if toLowerByte b = CHR ''x'' then (16, SeenDigit, rest)
          else (8, SeenDigit, b # rest)
      | [a] \<Rightarrow> if a = CHR ''0'' then (8, SeenDigit, []) else (10, SeenOther, s)
      | [] \<Rightarrow> (10, SeenOther, s))"

definition parseUint64 :: "string \<Rightarrow> nat option" where
  "parseUint64 s =
     (if s = [] then None
      else case parsePrefix s of
          (base, i, digits) \<Rightarrow>
            (case parseDigits base 0 digits of
               None \<Rightarrow> None
             | Some v \<Rightarrow>
                 if v < 2 ^ 64 \<and> (CHR ''_'' \<notin> set s \<or> underscoresOk (base = 16) i digits) then Some v else None))"

definition ParseInt64 :: "string \<Rightarrow> int option" where
  "ParseInt64 s =
     (let neg = HasPrefix s ''-'';
          digits = (if neg \<or> HasPrefix s ''+'' then drop 1 s else s)
      in case parseUint64 digits of
           None \<Rightarrow> None
         | Some v \<Rightarrow>
             if neg then (if int v \<le> 2 ^ 63 then Some (- int v) else None)
             else (if int v < 2 ^ 63 then Some (int v) else None))"

subsection \<open>Bodies\<close>

record body =
  bdChunks :: "string list"
  bdEnd :: goerr
  bdEager :: bool

text \<open>\<open>Body.Read\<close> with a buffer of \<open>n\<close> bytes.\<close>

definition bodyRead :: "nat \<Rightarrow> body \<Rightarrow> string \<times> goerr option \<times> body" where
  "bodyRead n b =
     (case bdChunks b of
        [] \<Rightarrow> ([], Some (bdEnd b), b)
      | c # cs \<Rightarrow>
          if length c \<le> n
          then (c, (if cs = [] \<and> bdEager b then Some (bdEnd b) else None), b\<lparr>bdChunks := cs\<rparr>)
          else (take n c, None, b\<lparr>bdChunks := drop n c # cs\<rparr>))"

record range_response =
  rrStatus :: nat
  rrHeader :: header
  rrContentLength :: int
  rrBody :: body

type_synonym range_do = "out_request \<Rightarrow> range_response res"

subsection \<open>resource.go\<close>

text \<open>A resource; the error that readers leave in it is part of it.\<close>

record resource =
  rsETag :: string
  rsLastModified :: string
  rsSize :: int
  rsURL :: string
  rsErr :: "goerr option"

definition SetURL :: "string \<Rightarrow> resource \<Rightarrow> resource" where
  "SetURL u rs = (if rsURL rs = u then rs else rs\<lparr>rsURL := u\<rparr>)"

definition Valid :: "resource \<Rightarrow> bool" where
  "Valid rs \<longleftrightarrow> rsErr rs = None"

definition setError :: "goerr \<Rightarrow> resource \<Rightarrow> resource" where
  "setError err rs = rs\<lparr>rsErr := Some err\<rparr>"

definition resourceRequest :: "resource \<Rightarrow> out_request res" where
  "resourceRequest rs =
     (case NewRequest ''GET'' (rsURL rs) [] of
        Inl err \<Rightarrow> Inl err
      | Inr req \<Rightarrow>
          Inr (if rsETag rs \<noteq> [] then setRequestHeader ''ETag'' (rsETag rs) req
               else if rsLastModified rs \<noteq> [] then setRequestHeader ''If-Range'' (rsLastModified rs) req
               else req))"

definition rangeHeader :: "int \<Rightarrow> int \<Rightarrow> string" where
  "rangeHeader a b = ''bytes='' @ decimalInt a @ ''-'' @ decimalInt b"

definition NewResource :: "range_do \<Rightarrow> string \<Rightarrow> resource res" where
  "NewResource http u =
     (case NewRequest ''GET'' u [] of
        Inl err \<Rightarrow> Inl err
      | Inr req \<Rightarrow>
          (case http (setRequestHeader ''Range'' (rangeHeader 0 0) req) of
             Inl err \<Rightarrow> Inl err
           | Inr res \<Rightarrow>
               (let resource = SetURL u \<lparr>rsETag = hdrGet (rrHeader res) ''ETag'',
                      rsLastModified = hdrGet (rrHeader res) ''Last-Modified'', rsSize = 0, rsURL = [], rsErr = None\<rparr>
                in if rrStatus res = 200 then Inr (resource\<lparr>rsSize := rrContentLength res\<rparr>)
                   else if rrStatus res = 206 then
                     (case cutAt slash (hdrGet (rrHeader res) ''Content-Range'') of
                        None \<Rightarrow> Inl (otherErr ''invalid Content-Range'')
                      | Some (_, complete) \<Rightarrow>
                          (case ParseInt64 complete of
                             None \<Rightarrow> Inl (otherErr ''invalid Content-Range'')
                           | Some n \<Rightarrow> Inr (resource\<lparr>rsSize := n\<rparr>)))
                   else if rrStatus res = 416 then Inl ErrRangeRequestsNotSupported
                   else if rrStatus res = 404 then Inl ErrNotFound
                   else Inl (errHTTPStatus (rrStatus res)))))"

subsection \<open>http_reader.go\<close>

record range_reader =
  rdRes :: "body option"
  rdStart :: int
  rdSize :: int
  rdOffset :: int

definition NewReader :: "int \<Rightarrow> int \<Rightarrow> range_reader" where
  "NewReader offset sz = \<lparr>rdRes = None, rdStart = offset, rdSize = sz, rdOffset = offset\<rparr>"

definition rangeEnd :: "range_reader \<Rightarrow> int" where
  "rangeEnd rd = wrap64 (rdStart rd + rdSize rd)"

definition prepareRequest :: "range_reader \<Rightarrow> resource \<Rightarrow> out_request res" where
  "prepareRequest rd rs =
     (if rdStart rd < 0 \<or> rdSize rd < 0 \<or> rangeEnd rd > rsSize rs then Inl ErrInvalidRange
      else if rdOffset rd < rdStart rd \<or> rdOffset rd \<ge> rangeEnd rd then Inl ErrInvalidRange
      else case resourceRequest rs of
          Inl err \<Rightarrow> Inl err
        | Inr req \<Rightarrow> Inr (setRequestHeader ''Range'' (rangeHeader (rdOffset rd) (wrap64 (rangeEnd rd - 1))) req))"

definition readerSetResponse :: "range_response \<Rightarrow> range_reader \<Rightarrow> resource \<Rightarrow> goerr option \<times> range_reader \<times> resource" where
  "readerSetResponse res rd rs =
     (if rrStatus res = 200 then
        (if rdOffset rd > 0 \<or> rsETag rs \<noteq> [] \<and> rsETag rs \<noteq> hdrGet (rrHeader res) ''ETag''
         then (Some ErrRangeRequestsNotSupported, rd, setError ErrRangeRequestsNotSupported rs)
         else (None, rd\<lparr>rdRes := Some (rrBody res)\<rparr>, rs))
      else if rrStatus res = 404 then (Some ErrNotFound, rd, setError ErrNotFound rs)
      else if rrStatus res = 206 then (None, rd\<lparr>rdRes := Some (rrBody res)\<rparr>, rs)
      else if rrStatus res = 416 then (Some ErrRangeRequestsNotSupported, rd, setError ErrRangeRequestsNotSupported rs)
      else (Some (errHTTPStatus (rrStatus res)), rd, rs))"

definition ensureResponse :: "range_do \<Rightarrow> range_reader \<Rightarrow> resource \<Rightarrow> goerr option \<times> range_reader \<times> resource" where
  "ensureResponse http rd rs =
     (case rdRes rd of
        Some _ \<Rightarrow> (None, rd, rs)
      | None \<Rightarrow>
          (case prepareRequest rd rs of
             Inl err \<Rightarrow> (Some err, rd, rs)
           | Inr req \<Rightarrow>
               (case http req of
                  Inl err \<Rightarrow> (Some err, rd, rs)
                | Inr res \<Rightarrow> readerSetResponse res rd rs)))"

definition readerClose :: "range_reader \<Rightarrow> range_reader" where
  "readerClose rd = rd\<lparr>rdRes := None\<rparr>"

text \<open>\<open>whence\<close> is 0 for \<open>io.SeekStart\<close>, 1 for \<open>io.SeekCurrent\<close>, 2 for \<open>io.SeekEnd\<close>.\<close>

definition readerSeek :: "int \<Rightarrow> int \<Rightarrow> range_reader \<Rightarrow> int res \<times> range_reader" where
  "readerSeek offset whence rd =
     (if whence \<notin> {0, 1, 2} then (Inl errSeekInvalidWhence, rd)
      else
        (let newOffset = wrap64 (if whence = 0 then rdStart rd + offset
                                 else if whence = 1 then rdOffset rd + offset
                                 else rangeEnd rd + offset)
         in if newOffset < rdStart rd \<or> newOffset > rangeEnd rd then (Inl errSeekOutsideRange, rd)
            else
              (let rd' = (if newOffset \<noteq> rdOffset rd then readerClose rd else rd)
               in (Inr (wrap64 (newOffset - rdStart rd)), rd'\<lparr>rdOffset := newOffset\<rparr>))))"

definition readerRead ::
  "range_do \<Rightarrow> nat \<Rightarrow> range_reader \<Rightarrow> resource \<Rightarrow> string \<times> goerr option \<times> range_reader \<times> resource"
where
  "readerRead http n rd rs =
     (if n = 0 then ([], None, rd, rs)
      else case ensureResponse http rd rs of
          (Some err, rd', rs') \<Rightarrow> ([], Some err, rd', rs')
        | (None, rd', rs') \<Rightarrow>
            (case bodyRead n (the (rdRes rd')) of
               (got, err, b) \<Rightarrow>
                 (got, err,
                  (if err = None \<or> err = Some errEOF
                   then rd'\<lparr>rdRes := Some b, rdOffset := wrap64 (rdOffset rd' + int (length got))\<rparr>
                   else rd'\<lparr>rdRes := Some b\<rparr>), rs')))"

subsection \<open>http_ranged_reader.go\<close>

text \<open>How much a reader has left to read from its body.\<close>

definition readsLeft :: "range_reader \<Rightarrow> nat" where
  "readsLeft rd = (case rdRes rd of None \<Rightarrow> 0 | Some b \<Rightarrow> length (bdChunks b))"

lemma ensureResponse_open: "ensureResponse http rd rs = (None, rd', rs') \<Longrightarrow> rdRes rd' \<noteq> None"
  by (auto simp: ensureResponse_def readerSetResponse_def split: option.splits sum.splits if_splits)

lemma bodyRead_progress:
  "bodyRead n b = (got, None, b') \<Longrightarrow>
     length (bdChunks b') < length (bdChunks b) \<or> length (bdChunks b') = length (bdChunks b) \<and> length got = n"
  by (auto simp: bodyRead_def split: list.splits if_splits)

lemma readerRead_open:
  assumes "readerRead http n rd rs = (got, None, rd', rs')" and "n > 0"
  shows "rdRes rd' \<noteq> None"
    and "rdRes rd \<noteq> None \<Longrightarrow> readsLeft rd' < readsLeft rd \<or> readsLeft rd' = readsLeft rd \<and> length got = n"
proof -
  obtain rd1 b where e: "ensureResponse http rd rs = (None, rd1, rs')" and b: "bodyRead n (the (rdRes rd1)) = (got, None, b)"
    and rd': "rd' = rd1\<lparr>rdRes := Some b, rdOffset := wrap64 (rdOffset rd1 + int (length got))\<rparr>"
    using assms by (auto simp: readerRead_def split: prod.splits option.splits)
  then show "rdRes rd' \<noteq> None" by simp
  show "readsLeft rd' < readsLeft rd \<or> readsLeft rd' = readsLeft rd \<and> length got = n" if "rdRes rd \<noteq> None"
  proof -
    have "rd1 = rd" using e that by (auto simp: ensureResponse_def)
    then show ?thesis using bodyRead_progress [OF b] that rd' by (auto simp: readsLeft_def)
  qed
qed

text \<open>\<open>io.ReadFull\<close> on a reader: \<open>n\<close> bytes are still wanted, \<open>acc\<close> have been read.\<close>

function readFull ::
  "range_do \<Rightarrow> nat \<Rightarrow> string \<Rightarrow> range_reader \<Rightarrow> resource \<Rightarrow> string \<times> goerr option \<times> range_reader \<times> resource"
where
  "readFull http n acc rd rs =
     (if n = 0 then (acc, None, rd, rs)
      else case readerRead http n rd rs of
          (got, None, rd', rs') \<Rightarrow> readFull http (n - length got) (acc @ got) rd' rs'
        | (got, Some err, rd', rs') \<Rightarrow>
            (acc @ got,
             (if length got \<ge> n then None
              else if acc @ got \<noteq> [] \<and> err = errEOF then Some errUnexpectedEOF
              else Some err), rd', rs'))"
  by pat_completeness auto
termination
  by (relation "measures [\<lambda>(http, n, acc, rd, rs). if rdRes rd = None then 1 else 0,
        \<lambda>(http, n, acc, rd, rs). readsLeft rd, \<lambda>(http, n, acc, rd, rs). n]")
    (auto dest: readerRead_open(2) [OF sym] readerRead_open(1) [OF sym])

declare readFull.simps [simp del]

record ranged_reader =
  rrResource :: resource
  rrCached :: "range_reader option"

definition NewRangedReader :: "resource \<Rightarrow> ranged_reader" where
  "NewRangedReader rs = \<lparr>rrResource = rs, rrCached = None\<rparr>"

definition cachedRead ::
  "range_do \<Rightarrow> nat \<Rightarrow> int \<Rightarrow> range_reader \<Rightarrow> resource \<Rightarrow> string \<times> goerr option \<times> range_reader \<times> resource"
where
  "cachedRead http n off rd rs =
     (case readerSeek off 0 rd of
        (Inl err, rd') \<Rightarrow> ([], Some err, rd', rs)
      | (Inr _, rd') \<Rightarrow> readFull http n [] rd' rs)"

definition ephemeralRead :: "range_do \<Rightarrow> nat \<Rightarrow> int \<Rightarrow> resource \<Rightarrow> string \<times> goerr option \<times> resource" where
  "ephemeralRead http n offset rs =
     (case readFull http n [] (NewReader offset (int n)) rs of (got, err, rd, rs') \<Rightarrow> (got, err, rs'))"

definition SectionReader :: "ranged_reader \<Rightarrow> int \<Rightarrow> int \<Rightarrow> range_reader" where
  "SectionReader rr offset sz = NewReader offset sz"

definition ReadAt :: "range_do \<Rightarrow> nat \<Rightarrow> int \<Rightarrow> ranged_reader \<Rightarrow> string \<times> goerr option \<times> ranged_reader" where
  "ReadAt http n offset rr =
     (case rrCached rr of
        Some rd \<Rightarrow>
          (case cachedRead http n offset rd (rrResource rr) of
             (got, err, rd', rs') \<Rightarrow> (got, err, rr\<lparr>rrResource := rs', rrCached := Some rd'\<rparr>))
      | None \<Rightarrow>
          (case ephemeralRead http n offset (rrResource rr) of
             (got, err, rs') \<Rightarrow> (got, err, rr\<lparr>rrResource := rs'\<rparr>)))"

definition WithCachedReader :: "(ranged_reader \<Rightarrow> 'a \<times> ranged_reader) \<Rightarrow> ranged_reader \<Rightarrow> 'a \<times> ranged_reader" where
  "WithCachedReader readFunc rr =
     (case readFunc (rr\<lparr>rrCached := Some (NewReader 0 (rsSize (rrResource rr)))\<rparr>) of
        (x, rr') \<Rightarrow> (x, rr'\<lparr>rrCached := None\<rparr>))"

subsection \<open>Only ranges inside the resource are asked for\<close>

lemma wrap64_id [simp]: "isInt64 n \<Longrightarrow> wrap64 n = n"
  by (simp add: wrap64_def isInt64_def)

lemma wrap64_sum:
  assumes "isInt64 a" and "isInt64 b" and "0 \<le> a" and "0 \<le> b"
  shows "wrap64 (a + b) = a + b \<or> wrap64 (a + b) < 0"
proof (cases "a + b < 9223372036854775808")
  case True
  then have "isInt64 (a + b)" using assms by (simp add: isInt64_def)
  then show ?thesis by simp
next
  case False
  define m where "m = a + b - 9223372036854775808"
  have m: "0 \<le> m" "m < 9223372036854775808" using False assms by (simp_all add: m_def isInt64_def)
  have "a + b + 9223372036854775808 = m + 18446744073709551616" by (simp add: m_def)
  then have "(a + b + 9223372036854775808) mod 18446744073709551616 = m" using m by simp
  then show ?thesis using m by (simp add: wrap64_def)
qed


definition exampleResource :: resource where
  "exampleResource = \<lparr>rsETag = [], rsLastModified = [], rsSize = 5, rsURL = ''https://store.example/a.zip'', rsErr = None\<rparr>"

lemma exampleRequest: "\<exists>q. resourceRequest exampleResource = Inr q"
proof -
  have "ParseURL ''https://store.example/a.zip'' \<noteq> None" by code_simp
  then show ?thesis by (auto simp: resourceRequest_def exampleResource_def NewRequest_def)
qed


subsection \<open>Reading gives the content\<close>

definition cut :: "string \<Rightarrow> int \<Rightarrow> int \<Rightarrow> string" where
  "cut content a b = take (nat (b - a)) (drop (nat a) content)"

text \<open>What the code relies on: the server answers a range request inside the resource with these bytes, in
  pieces of any size.\<close>

definition serves_ranges :: "range_do \<Rightarrow> string \<Rightarrow> resource \<Rightarrow> bool" where
  "serves_ranges http content rs \<longleftrightarrow> rsSize rs = int (length content) \<and> isInt64 (int (length content))
     \<and> (\<exists>req. resourceRequest rs = Inr req \<and> (\<forall>a b. 0 \<le> a \<and> a \<le> b \<and> b < int (length content) \<longrightarrow>
          (\<exists>res. http (setRequestHeader ''Range'' (rangeHeader a b) req) = Inr res \<and> rrStatus res = 206
             \<and> concat (bdChunks (rrBody res)) = cut content a (b + 1) \<and> bdEnd (rrBody res) = errEOF)))"

text \<open>A reader inside the content whose open response, if any, holds what its range has left.\<close>

definition reader_ok :: "string \<Rightarrow> range_reader \<Rightarrow> bool" where
  "reader_ok content rd \<longleftrightarrow> 0 \<le> rdStart rd \<and> rdStart rd \<le> rdOffset rd \<and> rdOffset rd \<le> rdStart rd + rdSize rd
     \<and> rdStart rd + rdSize rd \<le> int (length content) \<and> isInt64 (int (length content))
     \<and> (\<forall>b. rdRes rd = Some b \<longrightarrow>
          concat (bdChunks b) = cut content (rdOffset rd) (rdStart rd + rdSize rd) \<and> bdEnd b = errEOF)"

lemma reader_ok_end: "reader_ok content rd \<Longrightarrow> rangeEnd rd = rdStart rd + rdSize rd"
  unfolding rangeEnd_def reader_ok_def by (rule wrap64_id) (auto simp: isInt64_def)

lemma length_cut: "0 \<le> a \<Longrightarrow> a \<le> b \<Longrightarrow> b \<le> int (length content) \<Longrightarrow> length (cut content a b) = nat (b - a)"
  by (simp add: cut_def)

lemma cut_split:
  assumes "xs @ ys = cut content a b" and "0 \<le> a" and "a \<le> b" and "b \<le> int (length content)"
  shows "xs = cut content a (a + int (length xs))" and "ys = cut content (a + int (length xs)) b"
    and "a + int (length xs) \<le> b"
proof -
  have len: "length xs + length ys = nat (b - a)" using assms length_cut by (metis length_append)
  then show le: "a + int (length xs) \<le> b" using assms(3) by linarith
  have "xs = take (length xs) (cut content a b)" using assms(1) by (metis append_eq_conv_conj)
  then show "xs = cut content a (a + int (length xs))" using len by (simp add: cut_def min_def)
  have "ys = drop (length xs) (cut content a b)" using assms(1) by (metis append_eq_conv_conj)
  then show "ys = cut content (a + int (length xs)) b"
    using assms(2) le by (simp add: cut_def drop_take nat_add_distrib nat_diff_distrib add.commute algebra_simps)
qed

lemma ensureResponse_serves:
  assumes "serves_ranges http content rs" and "reader_ok content rd" and "rdOffset rd < rdStart rd + rdSize rd"
  shows "\<exists>b. ensureResponse http rd rs = (None, rd\<lparr>rdRes := Some b\<rparr>, rs) \<and> reader_ok content (rd\<lparr>rdRes := Some b\<rparr>)"
proof (cases "rdRes rd")
  case (Some b)
  then have "rd\<lparr>rdRes := Some b\<rparr> = rd" by simp
  then show ?thesis using Some assms(2) by (intro exI [of _ b]) (simp add: ensureResponse_def reader_ok_def)
next
  case None
  let ?e = "rdStart rd + rdSize rd"
  note r = assms(2) [unfolded reader_ok_def]
  obtain req where req: "resourceRequest rs = Inr req"
    and ans: "0 \<le> rdOffset rd \<and> rdOffset rd \<le> ?e - 1 \<and> ?e - 1 < int (length content) \<Longrightarrow>
      \<exists>res. http (setRequestHeader ''Range'' (rangeHeader (rdOffset rd) (?e - 1)) req) = Inr res \<and> rrStatus res = 206
        \<and> concat (bdChunks (rrBody res)) = cut content (rdOffset rd) (?e - 1 + 1) \<and> bdEnd (rrBody res) = errEOF"
    using assms(1) unfolding serves_ranges_def by blast
  have sz: "rsSize rs = int (length content)" using assms(1) by (simp add: serves_ranges_def)
  obtain res where res: "http (setRequestHeader ''Range'' (rangeHeader (rdOffset rd) (?e - 1)) req) = Inr res"
    "rrStatus res = 206" "concat (bdChunks (rrBody res)) = cut content (rdOffset rd) ?e" "bdEnd (rrBody res) = errEOF"
    using ans r assms(3) by auto
  have "wrap64 (?e - 1) = ?e - 1" using r assms(3) by (intro wrap64_id) (auto simp: isInt64_def)
  then have "prepareRequest rd rs = Inr (setRequestHeader ''Range'' (rangeHeader (rdOffset rd) (?e - 1)) req)"
    using r assms(3) sz req by (simp add: prepareRequest_def reader_ok_end [OF assms(2)])
  then have "ensureResponse http rd rs = (None, rd\<lparr>rdRes := Some (rrBody res)\<rparr>, rs)"
    using None res by (simp add: ensureResponse_def readerSetResponse_def)
  moreover have "reader_ok content (rd\<lparr>rdRes := Some (rrBody res)\<rparr>)" using r res by (simp add: reader_ok_def)
  ultimately show ?thesis by blast
qed

lemma bodyRead_split:
  assumes "bodyRead n b = (got, err, b')" and "bdEnd b = errEOF" and "concat (bdChunks b) \<noteq> []"
  shows "got @ concat (bdChunks b') = concat (bdChunks b)" and "length got \<le> n" and "bdEnd b' = errEOF"
    and "err = None \<or> err = Some errEOF \<and> concat (bdChunks b') = []"
proof -
  obtain c cs where c: "bdChunks b = c # cs" using assms(3) by (cases "bdChunks b") auto
  then show "got @ concat (bdChunks b') = concat (bdChunks b)" "length got \<le> n" "bdEnd b' = errEOF"
    "err = None \<or> err = Some errEOF \<and> concat (bdChunks b') = []"
    using assms(1,2) by (auto simp: bodyRead_def split: if_splits)
qed

lemma readerRead_ok:
  assumes "serves_ranges http content rs" and "reader_ok content rd" and "rdOffset rd < rdStart rd + rdSize rd"
    and "n > 0" and "readerRead http n rd rs = (got, err, rd', rs')"
  shows "rs' = rs" and "reader_ok content rd'" and "rdStart rd' = rdStart rd" and "rdSize rd' = rdSize rd"
    and "rdOffset rd' = rdOffset rd + int (length got)" and "length got \<le> n"
    and "got = cut content (rdOffset rd) (rdOffset rd + int (length got))"
    and "err = None \<or> err = Some errEOF \<and> rdOffset rd' = rdStart rd + rdSize rd"
proof -
  let ?e = "rdStart rd + rdSize rd"
  obtain b where e: "ensureResponse http rd rs = (None, rd\<lparr>rdRes := Some b\<rparr>, rs)"
    and ok: "reader_ok content (rd\<lparr>rdRes := Some b\<rparr>)"
    using ensureResponse_serves [OF assms(1-3)] by blast
  obtain b' where b': "bodyRead n b = (got, err, b')"
    using e assms(4,5) by (auto simp: readerRead_def split: prod.splits)
  have b: "concat (bdChunks b) = cut content (rdOffset rd) ?e" "bdEnd b = errEOF"
    and r: "0 \<le> rdStart rd" "rdStart rd \<le> rdOffset rd" "?e \<le> int (length content)" "isInt64 (int (length content))"
    using ok by (simp_all add: reader_ok_def)
  have "length (concat (bdChunks b)) > 0" using b r assms(3) by (simp add: length_cut)
  then have s: "got @ concat (bdChunks b') = cut content (rdOffset rd) ?e" "length got \<le> n" "bdEnd b' = errEOF"
    "err = None \<or> err = Some errEOF \<and> concat (bdChunks b') = []"
    using bodyRead_split [OF b'] b by auto
  have o: "0 \<le> rdOffset rd" "rdOffset rd \<le> ?e" using r assms(3) by linarith+
  note c = cut_split [OF s(1) o r(3)]
  have "isInt64 (rdOffset rd + int (length got))" using c(3) o r by (auto simp: isInt64_def)
  then have rd': "rd' = rd\<lparr>rdRes := Some b', rdOffset := rdOffset rd + int (length got)\<rparr>" and rs': "rs' = rs"
    using assms(4,5) e b' s(4) by (auto simp: readerRead_def)
  show "rs' = rs" "rdStart rd' = rdStart rd" "rdSize rd' = rdSize rd" "rdOffset rd' = rdOffset rd + int (length got)"
    by (simp_all add: rd' rs')
  show "reader_ok content rd'" using r o c s(3) by (simp add: reader_ok_def rd')
  show "length got \<le> n" by (rule s(2))
  show "got = cut content (rdOffset rd) (rdOffset rd + int (length got))" by (rule c(1))
  have "rdOffset rd + int (length got) = ?e" if "concat (bdChunks b') = []"
  proof -
    have "got = cut content (rdOffset rd) ?e" using s(1) unfolding that by simp
    then show ?thesis using length_cut [OF o r(3)] o by simp
  qed
  then show "err = None \<or> err = Some errEOF \<and> rdOffset rd' = ?e" using s(4) by (auto simp: rd')
qed

lemma cut_append: "0 \<le> a \<Longrightarrow> cut content a (a + int k) @ cut content (a + int k) (a + int k + int m) = cut content a (a + int (k + m))"
  by (simp add: cut_def take_add nat_add_distrib add.commute)

lemma readFull_ok:
  assumes "serves_ranges http content rs" and "reader_ok content rd" and "rdOffset rd + int n \<le> rdStart rd + rdSize rd"
  shows "\<exists>rd'. readFull http n acc rd rs = (acc @ cut content (rdOffset rd) (rdOffset rd + int n), None, rd', rs)
    \<and> reader_ok content rd' \<and> rdStart rd' = rdStart rd \<and> rdSize rd' = rdSize rd"
  using assms
proof (induction http n acc rd rs rule: readFull.induct)
  case (1 http n acc rd rs)
  show ?case
  proof (cases "n = 0")
    case True
    then show ?thesis using 1(3) by (simp add: readFull.simps [of http 0] cut_def)
  next
    case False
    obtain got err rd' rs' where r: "readerRead http n rd rs = (got, err, rd', rs')" by (metis prod_cases4)
    have lt: "rdOffset rd < rdStart rd + rdSize rd" using 1(4) False by linarith
    note k = readerRead_ok [OF 1(2,3) lt _ r]
    have o: "0 \<le> rdOffset rd" using 1(3) by (simp add: reader_ok_def)
    have "int n = int (length got) + int (n - length got)" using k(6) False by simp
    then have joined: "got @ cut content (rdOffset rd') (rdOffset rd' + int (n - length got)) = cut content (rdOffset rd) (rdOffset rd + int n)"
      using cut_append [OF o, of content "length got" "n - length got"] k(5,6,7) False by simp
    show ?thesis
    proof (cases err)
      case None
      have "\<exists>rd''. readFull http (n - length got) (acc @ got) rd' rs'
          = ((acc @ got) @ cut content (rdOffset rd') (rdOffset rd' + int (n - length got)), None, rd'', rs')
        \<and> reader_ok content rd'' \<and> rdStart rd'' = rdStart rd' \<and> rdSize rd'' = rdSize rd'"
        using r None False 1(2,4) k by (intro 1(1)) auto
      then show ?thesis using r None False k joined by (simp add: readFull.simps [of http n])
    next
      case (Some e)
      then have n: "length got = n" using k(5,6,8) 1(4) False by auto
      have "readFull http n acc rd rs = (acc @ got, None, rd', rs)" using r Some False k(1) n by (simp add: readFull.simps [of http n])
      then show ?thesis using k(2,3,4,7) n False by simp
    qed
  qed
qed

text \<open>The contract of \<open>io.ReaderAt\<close> on a content, and what it gives a client that reads several parts.\<close>

fun readParts :: "(nat \<Rightarrow> int \<Rightarrow> 's \<Rightarrow> string \<times> goerr option \<times> 's) \<Rightarrow> (nat \<times> int) list \<Rightarrow> 's \<Rightarrow> (string \<times> goerr option) list \<times> 's" where
  "readParts readAt [] s = ([], s)"
| "readParts readAt ((n, off) # ps) s =
     (case readAt n off s of
        (got, err, s') \<Rightarrow> (case readParts readAt ps s' of (rest, s'') \<Rightarrow> ((got, err) # rest, s'')))"

locale reader_at =
  fixes readAt :: "nat \<Rightarrow> int \<Rightarrow> 's \<Rightarrow> string \<times> goerr option \<times> 's"
    and content :: string
    and ok :: "'s \<Rightarrow> bool"
  assumes reads: "\<lbrakk>ok s; 0 \<le> off; off + int n \<le> int (length content)\<rbrakk> \<Longrightarrow>
    \<exists>s'. readAt n off s = (take n (drop (nat off) content), None, s') \<and> ok s'"
begin

lemma parts_read:
  assumes "ok s" and "\<forall>(n, off) \<in> set ps. 0 \<le> off \<and> off + int n \<le> int (length content)"
  shows "fst (readParts readAt ps s) = map (\<lambda>(n, off). (take n (drop (nat off) content), None)) ps
    \<and> ok (snd (readParts readAt ps s))"
  using assms
proof (induction ps arbitrary: s)
  case (Cons p ps)
  obtain n off where p: "p = (n, off)" by (cases p)
  then have "0 \<le> off" "off + int n \<le> int (length content)" using Cons.prems(2) by auto
  then obtain s' where "readAt n off s = (take n (drop (nat off) content), None, s')" "ok s'"
    using reads [OF Cons.prems(1)] by blast
  then show ?case using Cons.IH [of s'] Cons.prems(2) p by (auto split: prod.splits)
qed simp

end

definition ranged_ok :: "range_do \<Rightarrow> string \<Rightarrow> ranged_reader \<Rightarrow> bool" where
  "ranged_ok http content rr \<longleftrightarrow> serves_ranges http content (rrResource rr)
     \<and> (\<forall>rd. rrCached rr = Some rd \<longrightarrow> reader_ok content rd \<and> rdStart rd = 0 \<and> rdSize rd = int (length content))"

lemma readerSeek_ok:
  assumes "reader_ok content rd" and "rdStart rd = 0" and "0 \<le> off" and "off \<le> rdSize rd"
  shows "\<exists>rd'. readerSeek off 0 rd = (Inr off, rd') \<and> reader_ok content rd' \<and> rdOffset rd' = off
    \<and> rdStart rd' = rdStart rd \<and> rdSize rd' = rdSize rd"
proof -
  have e: "rangeEnd rd = rdSize rd" using reader_ok_end [OF assms(1)] assms(2) by simp
  have i: "isInt64 off" using assms by (auto simp: reader_ok_def isInt64_def)
  show ?thesis using assms e wrap64_id [OF i]
    by (cases "off = rdOffset rd") (auto simp: readerSeek_def readerClose_def reader_ok_def)
qed

lemma cut_part: "0 \<le> a \<Longrightarrow> cut content a (a + int n) = take n (drop (nat a) content)"
  by (simp add: cut_def)

lemma ReadAt_ok:
  assumes "ranged_ok http content rr" and "0 \<le> off" and "off + int n \<le> int (length content)"
  shows "\<exists>rr'. ReadAt http n off rr = (take n (drop (nat off) content), None, rr') \<and> ranged_ok http content rr'
    \<and> rrResource rr' = rrResource rr"
proof (cases "rrCached rr")
  case None
  have s: "serves_ranges http content (rrResource rr)" using assms(1) by (simp add: ranged_ok_def)
  then have "reader_ok content (NewReader off (int n))"
    using assms(2,3) by (simp add: reader_ok_def NewReader_def serves_ranges_def)
  from readFull_ok [OF s this, of n "[]"] show ?thesis
    using None assms by (auto simp: ReadAt_def ephemeralRead_def NewReader_def cut_part)
next
  case (Some rd)
  have s: "serves_ranges http content (rrResource rr)" and r: "reader_ok content rd" "rdStart rd = 0" "rdSize rd = int (length content)"
    using assms(1) Some by (auto simp: ranged_ok_def)
  obtain rd1 where k: "readerSeek off 0 rd = (Inr off, rd1)" "reader_ok content rd1" "rdOffset rd1 = off"
    "rdStart rd1 = 0" "rdSize rd1 = int (length content)"
    using readerSeek_ok [OF r(1,2) assms(2)] r assms(3) by auto
  from readFull_ok [OF s k(2), of n "[]"] show ?thesis
    using k Some s assms by (auto simp: ReadAt_def cachedRead_def ranged_ok_def cut_part)
qed

lemma NewRangedReader_ok: "serves_ranges http content rs \<Longrightarrow> ranged_ok http content (NewRangedReader rs)"
  by (simp add: ranged_ok_def NewRangedReader_def)

lemma cachedReader_ok:
  "ranged_ok http content rr \<Longrightarrow> ranged_ok http content (rr\<lparr>rrCached := Some (NewReader 0 (rsSize (rrResource rr)))\<rparr>)"
  by (simp add: ranged_ok_def serves_ranges_def reader_ok_def NewReader_def)

interpretation remote: reader_at "ReadAt http" content "ranged_ok http content" for http content
  by unfold_locales (use ReadAt_ok in blast)

text \<open>
  C15: an archive on a server that honours range requests is read like a local file.  For every list of parts
  inside the content, in whatever pieces the network delivers the bodies, reading them one after the other
  returns exactly these bytes and no error, both with a request for each part and with the one reader that
  \<^verbatim>\<open>WithCachedReader\<close> keeps open and seeks.
\<close>

theorem ReadAt_parts:
  assumes "serves_ranges http content rs" and "\<forall>(n, off) \<in> set ps. 0 \<le> off \<and> off + int n \<le> int (length content)"
  shows "fst (readParts (ReadAt http) ps (NewRangedReader rs)) = map (\<lambda>(n, off). (take n (drop (nat off) content), None)) ps
    \<and> fst (WithCachedReader (readParts (ReadAt http) ps) (NewRangedReader rs))
      = map (\<lambda>(n, off). (take n (drop (nat off) content), None)) ps"
proof -
  note ok = NewRangedReader_ok [OF assms(1)]
  show ?thesis
    using remote.parts_read [OF ok assms(2)] remote.parts_read [OF cachedReader_ok [OF ok] assms(2)]
    by (simp add: WithCachedReader_def case_prod_unfold)
qed

text \<open>A server that reads the two digits of a range back from its header and delivers the bytes one by one.\<close>

definition exampleServer :: "string \<Rightarrow> range_do" where
  "exampleServer content req =
     (case cutAt (CHR ''-'') (drop 6 (hdrGet (oqHeader req) ''Range'')) of
        None \<Rightarrow> Inl (otherErr ''no range'')
      | Some (a, b) \<Rightarrow>
          (let i = of_char (hd a) - 48; j = of_char (hd b) - 48
           in Inr \<lparr>rrStatus = 206, rrHeader = Map.empty, rrContentLength = j - i + 1,
                rrBody = \<lparr>bdChunks = map (\<lambda>c. [c]) (cut content i (j + 1)), bdEnd = errEOF, bdEager = True\<rparr>\<rparr>))"

lemma exampleRanges:
  "list_all (\<lambda>a. list_all (\<lambda>b. cutAt (CHR ''-'') (drop 6 (rangeHeader a b)) = Some (decimalInt a, decimalInt b))
     [0, 1, 2, 3, 4]) [0, 1, 2, 3, 4]"
  by code_simp

lemma exampleNumbers: "list_all (\<lambda>a. of_char (hd (decimalInt a)) = a + 48) [0, 1, 2, 3, 4]"
  by code_simp

lemma exampleServer_answer:
  assumes "0 \<le> a" and "a \<le> b" and "b < 5"
  shows "\<exists>res. exampleServer content (setRequestHeader ''Range'' (rangeHeader a b) q) = Inr res \<and> rrStatus res = 206
    \<and> concat (bdChunks (rrBody res)) = cut content a (b + 1) \<and> bdEnd (rrBody res) = errEOF"
proof -
  have "a \<in> set [0, 1, 2, 3, 4]" "b \<in> set [0, 1, 2, 3, 4]" using assms by auto
  then have "cutAt (CHR ''-'') (drop 6 (rangeHeader a b)) = Some (decimalInt a, decimalInt b)"
    "of_char (hd (decimalInt a)) = a + 48" "of_char (hd (decimalInt b)) = b + 48"
    using exampleRanges exampleNumbers unfolding list_all_iff by blast+
  moreover have "concat (map (\<lambda>c. [c]) xs) = xs" for xs :: string by (induction xs) auto
  ultimately show ?thesis by (simp add: exampleServer_def setRequestHeader_def hdrGet_def hdrSet_def Let_def add.commute)
qed

lemma exampleServer_serves: "serves_ranges (exampleServer ''hello'') ''hello'' exampleResource"
proof -
  obtain q where q: "resourceRequest exampleResource = Inr q" using exampleRequest by blast
  have "rsSize exampleResource = 5" by (simp add: exampleResource_def)
  then show ?thesis
    using q exampleServer_answer [of _ _ "''hello''" q] unfolding serves_ranges_def by (simp add: isInt64_def)
qed

theorem ReadAt_parts_witness:
  "map fst (fst (WithCachedReader (readParts (ReadAt (exampleServer ''hello'')) [(2, 3), (3, 0)]) (NewRangedReader exampleResource)))
     = [''lo'', ''hel'']"
  using ReadAt_parts [OF exampleServer_serves, of "[(2, 3), (3, 0)]"] by simp

end
