(* ===== verification/Deflate_Pool.thy ===== *)
theory Deflate_Pool
  imports Vfs
begin

text \<open>
  The pool of decompressing readers, \<open>internal/vfs/zip/deflate_reader.go\<close>.  Readers are objects in a store, because
  a closed reader goes to a pool and comes back to another request under the same address.  Decompression
  (\<open>compress/flate\<close>) is a parameter \<open>inflate\<close>, and what \<^verbatim>\<open>sync.Pool\<close> hands out is a choice: some reader that was put, or
  none.  The main lemmas say that requests do not see each other's files as long as none uses a reader it has closed,
  and what happens when one does.
\<close>

subsection \<open>Readers\<close>

text \<open>\<open>drCloser\<close> is the stream to close, with the data it delivers, and \<open>drRest\<close> what is left to read of its
  decompressed data.\<close>

record deflate_reader =
  drCloser :: "string option"
  drRest :: string

record pool_state =
  plHeap :: "nat \<Rightarrow> deflate_reader"
  plNext :: nat
  plPool :: "nat list"

definition ErrClosedReader :: goerr where
  "ErrClosedReader = otherErr ''deflatereader: reader is closed''"

definition resetReader :: "(string \<Rightarrow> string) \<Rightarrow> string \<Rightarrow> nat \<Rightarrow> pool_state \<Rightarrow> pool_state" where
  "resetReader inflate raw p s = s\<lparr>plHeap := (plHeap s)(p := \<lparr>drCloser = Some raw, drRest = inflate raw\<rparr>)\<rparr>"

text \<open>\<open>got\<close> is what \<^verbatim>\<open>Pool.Get\<close> returns.\<close>

definition newDeflateReader :: "(string \<Rightarrow> string) \<Rightarrow> nat option \<Rightarrow> string \<Rightarrow> pool_state \<Rightarrow> nat \<times> pool_state" where
  "newDeflateReader inflate got raw s =
     (case got of
        Some p \<Rightarrow> (p, resetReader inflate raw p (s\<lparr>plPool := remove1 p (plPool s)\<rparr>))
      | None \<Rightarrow> (plNext s, resetReader inflate raw (plNext s) (s\<lparr>plNext := Suc (plNext s)\<rparr>)))"

text \<open>A read may return less than asked for; \<open>k\<close> is how much it returns at most.\<close>

definition deflateRead :: "nat \<Rightarrow> nat \<Rightarrow> pool_state \<Rightarrow> string res \<times> pool_state" where
  "deflateRead k p s =
     (let r = plHeap s p
      in if drCloser r = None then (Inl ErrClosedReader, s)
         else (Inr (take k (drRest r)), s\<lparr>plHeap := (plHeap s)(p := r\<lparr>drRest := drop k (drRest r)\<rparr>)\<rparr>))"

definition deflateClose :: "nat \<Rightarrow> pool_state \<Rightarrow> goerr option \<times> pool_state" where
  "deflateClose p s =
     (let r = plHeap s p
      in if drCloser r = None then (Some ErrClosedReader, s)
         else (None, s\<lparr>plHeap := (plHeap s)(p := r\<lparr>drCloser := None\<rparr>), plPool := p # plPool s\<rparr>))"

subsection \<open>Requests\<close>

text \<open>A request that reads a file: its reader, the file, and what it has read so far.\<close>

record pool_user =
  usReader :: nat
  usRaw :: string
  usGot :: string
  usClosed :: bool

record pool_world =
  pwPool :: pool_state
  pwUsers :: "nat \<Rightarrow> pool_user option"

definition poolStart :: pool_world where
  "poolStart = \<lparr>pwPool = \<lparr>plHeap = (\<lambda>p. \<lparr>drCloser = None, drRest = []\<rparr>), plNext = 0, plPool = []\<rparr>, pwUsers = Map.empty\<rparr>"

text \<open>The pool may also drop readers.  No request uses its reader after it has closed it.\<close>

inductive pool_step :: "(string \<Rightarrow> string) \<Rightarrow> pool_world \<Rightarrow> pool_world \<Rightarrow> bool" for inflate where
  Open: "\<lbrakk>pwUsers w i = None; \<forall>p. got = Some p \<longrightarrow> p \<in> set (plPool (pwPool w)); newDeflateReader inflate got raw (pwPool w) = (p, s)\<rbrakk> \<Longrightarrow>
    pool_step inflate w (w\<lparr>pwPool := s, pwUsers := (pwUsers w)(i \<mapsto> \<lparr>usReader = p, usRaw = raw, usGot = [], usClosed = False\<rparr>)\<rparr>)"
| Read: "\<lbrakk>pwUsers w i = Some u; \<not> usClosed u; deflateRead k (usReader u) (pwPool w) = (Inr x, s)\<rbrakk> \<Longrightarrow>
    pool_step inflate w (w\<lparr>pwPool := s, pwUsers := (pwUsers w)(i \<mapsto> u\<lparr>usGot := usGot u @ x\<rparr>)\<rparr>)"
| Close: "\<lbrakk>pwUsers w i = Some u; \<not> usClosed u; deflateClose (usReader u) (pwPool w) = (None, s)\<rbrakk> \<Longrightarrow>
    pool_step inflate w (w\<lparr>pwPool := s, pwUsers := (pwUsers w)(i \<mapsto> u\<lparr>usClosed := True\<rparr>)\<rparr>)"
| Drop: "pool_step inflate w (w\<lparr>pwPool := (pwPool w)\<lparr>plPool := remove1 p (plPool (pwPool w))\<rparr>\<rparr>)"

text \<open>The invariant: an open reader belongs to one request and is neither in the pool nor free, and it has left what
  its request has not read yet.\<close>

definition user_ok :: "(string \<Rightarrow> string) \<Rightarrow> pool_state \<Rightarrow> pool_user \<Rightarrow> bool" where
  "user_ok inflate s u \<longleftrightarrow>
     (\<exists>rest. inflate (usRaw u) = usGot u @ rest
       \<and> (\<not> usClosed u \<longrightarrow> plHeap s (usReader u) = \<lparr>drCloser = Some (usRaw u), drRest = rest\<rparr>
            \<and> usReader u \<notin> set (plPool s) \<and> usReader u < plNext s))"

definition pool_inv :: "(string \<Rightarrow> string) \<Rightarrow> pool_world \<Rightarrow> bool" where
  "pool_inv inflate w \<longleftrightarrow>
     distinct (plPool (pwPool w)) \<and> (\<forall>p \<in> set (plPool (pwPool w)). p < plNext (pwPool w))
   \<and> (\<forall>i u. pwUsers w i = Some u \<longrightarrow> user_ok inflate (pwPool w) u)
   \<and> (\<forall>i j u v. pwUsers w i = Some u \<longrightarrow> pwUsers w j = Some v \<longrightarrow> \<not> usClosed u \<longrightarrow> \<not> usClosed v \<longrightarrow>
        usReader u = usReader v \<longrightarrow> i = j)"

lemma poolStart_inv: "pool_inv inflate poolStart"
  by (simp add: pool_inv_def poolStart_def)

text \<open>A step at a reader that no other request has open keeps what holds of the others.\<close>

lemma user_ok_frame:
  assumes "user_ok inflate s u" and "\<not> usClosed u \<Longrightarrow> plHeap s' (usReader u) = plHeap s (usReader u)"
    and "\<not> usClosed u \<Longrightarrow> usReader u \<notin> set (plPool s')" and "plNext s \<le> plNext s'"
  shows "user_ok inflate s' u"
  using assms unfolding user_ok_def by (metis order_less_le_trans)

lemma newDeflateReader_props:
  assumes "newDeflateReader inflate got raw s = (p, s')" and "\<forall>p. got = Some p \<longrightarrow> p \<in> set (plPool s)"
    and "distinct (plPool s)" and "\<forall>p \<in> set (plPool s). p < plNext s"
  shows "plHeap s' = (plHeap s)(p := \<lparr>drCloser = Some raw, drRest = inflate raw\<rparr>)" and "set (plPool s') \<subseteq> set (plPool s)"
    and "distinct (plPool s')" and "p \<notin> set (plPool s')" and "p < plNext s'" and "plNext s \<le> plNext s'"
    and "p \<in> set (plPool s) \<or> p = plNext s"
  using assms set_remove1_subset [of "the got" "plPool s"]
  by (auto simp: newDeflateReader_def resetReader_def split: option.splits)

lemma pool_invD:
  assumes "pool_inv inflate w"
  shows "distinct (plPool (pwPool w))" and "\<forall>p \<in> set (plPool (pwPool w)). p < plNext (pwPool w)"
    and "pwUsers w j = Some u \<Longrightarrow> user_ok inflate (pwPool w) u"
    and "\<lbrakk>pwUsers w i = Some u; pwUsers w j = Some v; \<not> usClosed u; \<not> usClosed v; usReader u = usReader v\<rbrakk> \<Longrightarrow> i = j"
  using assms unfolding pool_inv_def by blast+

text \<open>The invariant from a new store and one new or changed request.\<close>

lemma pool_invI:
  assumes "pool_inv inflate w" and "distinct (plPool s)" and "\<forall>p \<in> set (plPool s). p < plNext s"
    and "user_ok inflate s u"
    and "\<And>j v. pwUsers w j = Some v \<Longrightarrow> j \<noteq> i \<Longrightarrow> user_ok inflate s v"
    and "\<And>j v. pwUsers w j = Some v \<Longrightarrow> j \<noteq> i \<Longrightarrow> \<not> usClosed u \<Longrightarrow> \<not> usClosed v \<Longrightarrow> usReader v \<noteq> usReader u"
  shows "pool_inv inflate (w\<lparr>pwPool := s, pwUsers := (pwUsers w)(i \<mapsto> u)\<rparr>)"
proof -
  have uniq: "k = j" if "((pwUsers w)(i \<mapsto> u)) k = Some x" "((pwUsers w)(i \<mapsto> u)) j = Some y" "\<not> usClosed x" "\<not> usClosed y"
    "usReader x = usReader y" for k j x y
  proof (cases "k = i")
    case True
    then show ?thesis using that assms(6) [of j y] by (cases "j = i") auto
  next
    case k: False
    show ?thesis
    proof (cases "j = i")
      case True
      then show ?thesis using that k assms(6) [of k x] by auto
    next
      case False
      then show ?thesis using pool_invD(4) [OF assms(1), of k x j y] that k by simp
    qed
  qed
  have users: "user_ok inflate s x" if "((pwUsers w)(i \<mapsto> u)) k = Some x" for k x
    using that assms(4,5) by (cases "k = i") auto
  let ?w = "w\<lparr>pwPool := s, pwUsers := (pwUsers w)(i \<mapsto> u)\<rparr>"
  have w: "pwPool ?w = s" "pwUsers ?w = (pwUsers w)(i \<mapsto> u)" by simp_all
  show ?thesis unfolding pool_inv_def w
    by (intro conjI allI impI, rule assms(2), rule assms(3), erule users, rule uniq)
qed

lemma user_okD:
  assumes "user_ok inflate s u" and "\<not> usClosed u"
  shows "usReader u \<notin> set (plPool s)" and "usReader u < plNext s"
    and "\<exists>rest. inflate (usRaw u) = usGot u @ rest \<and> plHeap s (usReader u) = \<lparr>drCloser = Some (usRaw u), drRest = rest\<rparr>"
  using assms unfolding user_ok_def by blast+

lemma pool_open_inv:
  assumes inv: "pool_inv inflate w" and "pwUsers w i = None" and got: "\<forall>p. got = Some p \<longrightarrow> p \<in> set (plPool (pwPool w))"
    and new: "newDeflateReader inflate got raw (pwPool w) = (p, s)"
  shows "pool_inv inflate (w\<lparr>pwPool := s, pwUsers := (pwUsers w)(i \<mapsto> \<lparr>usReader = p, usRaw = raw, usGot = [], usClosed = False\<rparr>)\<rparr>)"
proof -
  note s = newDeflateReader_props [OF new got pool_invD(1,2) [OF inv]]
  have other: "usReader u \<noteq> p" if "pwUsers w j = Some u" "\<not> usClosed u" for j u
    using user_okD(1,2) [OF pool_invD(3) [OF inv that(1)] that(2)] s(7) by auto
  have frame: "user_ok inflate s u" if "pwUsers w j = Some u" for j u
  proof (rule user_ok_frame [OF pool_invD(3) [OF inv that]])
    show "plHeap s (usReader u) = plHeap (pwPool w) (usReader u)" if "\<not> usClosed u" using other [OF \<open>pwUsers w j = Some u\<close> that] s(1) by simp
    show "usReader u \<notin> set (plPool s)" if "\<not> usClosed u"
      using user_okD(1) [OF pool_invD(3) [OF inv \<open>pwUsers w j = Some u\<close>] that] s(2) by blast
  qed (rule s(6))
  show ?thesis
  proof (rule pool_invI [OF inv s(3)])
    show "\<forall>p \<in> set (plPool s). p < plNext s" using s(2,6) pool_invD(2) [OF inv] by fastforce
    show "user_ok inflate s \<lparr>usReader = p, usRaw = raw, usGot = [], usClosed = False\<rparr>" using s by (simp add: user_ok_def)
  qed (use frame other in auto)
qed

lemma pool_read_inv:
  assumes inv: "pool_inv inflate w" and u: "pwUsers w i = Some u" "\<not> usClosed u"
    and r: "deflateRead k (usReader u) (pwPool w) = (Inr x, s)"
  shows "pool_inv inflate (w\<lparr>pwPool := s, pwUsers := (pwUsers w)(i \<mapsto> u\<lparr>usGot := usGot u @ x\<rparr>)\<rparr>)"
proof -
  obtain rest where rest: "inflate (usRaw u) = usGot u @ rest" "plHeap (pwPool w) (usReader u) = \<lparr>drCloser = Some (usRaw u), drRest = rest\<rparr>"
    using user_okD(3) [OF pool_invD(3) [OF inv u(1)] u(2)] by blast
  note o = user_okD(1,2) [OF pool_invD(3) [OF inv u(1)] u(2)]
  have s: "x = take k rest" "s = (pwPool w)\<lparr>plHeap := (plHeap (pwPool w))(usReader u := \<lparr>drCloser = Some (usRaw u), drRest = drop k rest\<rparr>)\<rparr>"
    using r rest(2) by (auto simp: deflateRead_def Let_def)
  have other: "usReader v \<noteq> usReader u" if "pwUsers w j = Some v" "j \<noteq> i" "\<not> usClosed v" for j v
    using pool_invD(4) [OF inv that(1) u(1) that(3) u(2)] that(2) by auto
  show ?thesis
  proof (rule pool_invI [OF inv])
    show "distinct (plPool s)" "\<forall>p \<in> set (plPool s). p < plNext s" using pool_invD(1,2) [OF inv] by (simp_all add: s)
    show "user_ok inflate s (u\<lparr>usGot := usGot u @ x\<rparr>)"
      using rest(1) o u(2) unfolding user_ok_def by (intro exI [of _ "drop k rest"]) (simp add: s)
    show "user_ok inflate s v" if "pwUsers w j = Some v" "j \<noteq> i" for j v
      using user_ok_frame [OF pool_invD(3) [OF inv that(1)], of s] other [OF that] user_okD(1) [OF pool_invD(3) [OF inv that(1)]] by (simp add: s)
  qed (use other in auto)
qed

lemma pool_close_inv:
  assumes inv: "pool_inv inflate w" and u: "pwUsers w i = Some u" "\<not> usClosed u"
    and r: "deflateClose (usReader u) (pwPool w) = (None, s)"
  shows "pool_inv inflate (w\<lparr>pwPool := s, pwUsers := (pwUsers w)(i \<mapsto> u\<lparr>usClosed := True\<rparr>)\<rparr>)"
proof -
  note o = user_okD [OF pool_invD(3) [OF inv u(1)] u(2)]
  have s: "plPool s = usReader u # plPool (pwPool w)" "plNext s = plNext (pwPool w)"
    "\<And>p. p \<noteq> usReader u \<Longrightarrow> plHeap s p = plHeap (pwPool w) p"
    using r by (auto simp: deflateClose_def Let_def split: if_splits)
  have other: "usReader v \<noteq> usReader u" if "pwUsers w j = Some v" "j \<noteq> i" "\<not> usClosed v" for j v
    using pool_invD(4) [OF inv that(1) u(1) that(3) u(2)] that(2) by auto
  show ?thesis
  proof (rule pool_invI [OF inv])
    show "distinct (plPool s)" "\<forall>p \<in> set (plPool s). p < plNext s" using pool_invD(1,2) [OF inv] o(1,2) by (simp_all add: s)
    show "user_ok inflate s (u\<lparr>usClosed := True\<rparr>)" using o(3) unfolding user_ok_def by auto
    show "user_ok inflate s v" if "pwUsers w j = Some v" "j \<noteq> i" for j v
      using user_ok_frame [OF pool_invD(3) [OF inv that(1)], of s] other [OF that] user_okD(1) [OF pool_invD(3) [OF inv that(1)]] by (simp add: s)
  qed simp
qed

lemma pool_drop_inv:
  assumes "pool_inv inflate w"
  shows "pool_inv inflate (w\<lparr>pwPool := (pwPool w)\<lparr>plPool := remove1 p (plPool (pwPool w))\<rparr>\<rparr>)"
proof -
  let ?s = "(pwPool w)\<lparr>plPool := remove1 p (plPool (pwPool w))\<rparr>"
  have sub: "set (plPool ?s) \<subseteq> set (plPool (pwPool w))" by (simp add: set_remove1_subset)
  have "user_ok inflate ?s v" if "pwUsers w j = Some v" for j v
    using user_ok_frame [OF pool_invD(3) [OF assms that], of ?s] user_okD(1) [OF pool_invD(3) [OF assms that]] sub by auto
  then show ?thesis using assms sub unfolding pool_inv_def by auto
qed

lemma pool_step_inv: "pool_step inflate w w' \<Longrightarrow> pool_inv inflate w \<Longrightarrow> pool_inv inflate w'"
  by (induction rule: pool_step.induct) (simp_all add: pool_open_inv pool_read_inv pool_close_inv pool_drop_inv)

lemma pool_reachable: "(pool_step inflate)\<^sup>*\<^sup>* poolStart w \<Longrightarrow> pool_inv inflate w"
  by (induction rule: rtranclp_induct) (simp_all add: poolStart_inv pool_step_inv)

text \<open>
  C21: requests that share the pool of readers never see each other's files: whatever the pool hands out and
  however the requests interleave, what a request has read is the beginning of its own file, decompressed; and
  until it closes its reader, a read returns the next bytes of that file.
\<close>

theorem pool_reads_own_file:
  assumes "(pool_step inflate)\<^sup>*\<^sup>* poolStart w" and "pwUsers w i = Some u"
  shows "(\<exists>rest. inflate (usRaw u) = usGot u @ rest
    \<and> (\<not> usClosed u \<longrightarrow> fst (deflateRead k (usReader u) (pwPool w)) = Inr (take k rest)))"
proof -
  note ok = pool_invD(3) [OF pool_reachable [OF assms(1)] assms(2)]
  show ?thesis
  proof (cases "usClosed u")
    case True
    then show ?thesis using ok by (auto simp: user_ok_def)
  next
    case False
    then show ?thesis using user_okD(3) [OF ok] by (auto simp: deflateRead_def)
  qed
qed

lemma example_pool_run:
  "\<exists>w. (pool_step (\<lambda>raw. raw))\<^sup>*\<^sup>* poolStart w
    \<and> pwUsers w 0 = Some \<lparr>usReader = 0, usRaw = ''hello'', usGot = ''he'', usClosed = False\<rparr>"
proof -
  let ?u = "\<lparr>usReader = 0, usRaw = ''hello'', usGot = [], usClosed = False\<rparr>"
  let ?s1 = "resetReader (\<lambda>raw. raw) ''hello'' 0 ((pwPool poolStart)\<lparr>plNext := 1\<rparr>)"
  let ?w1 = "poolStart\<lparr>pwPool := ?s1, pwUsers := (pwUsers poolStart)(0 \<mapsto> ?u)\<rparr>"
  let ?s2 = "snd (deflateRead 2 0 ?s1)"
  let ?w2 = "?w1\<lparr>pwPool := ?s2, pwUsers := (pwUsers ?w1)(0 \<mapsto> ?u\<lparr>usGot := usGot ?u @ ''he''\<rparr>)\<rparr>"
  have 1: "pool_step (\<lambda>raw. raw) poolStart ?w1"
    by (rule pool_step.Open [where got = None]) (simp_all add: poolStart_def newDeflateReader_def)
  have 2: "pool_step (\<lambda>raw. raw) ?w1 ?w2"
    by (rule pool_step.Read [where k = 2]) (simp_all add: deflateRead_def resetReader_def)
  have "(pool_step (\<lambda>raw. raw))\<^sup>*\<^sup>* poolStart ?w2" using 1 2 by (meson rtranclp.rtrancl_into_rtrancl rtranclp.rtrancl_refl)
  then show ?thesis by (intro exI [of _ ?w2]) simp
qed

theorem pool_reads_own_file_witness:
  "\<exists>w. (pool_step (\<lambda>raw. raw))\<^sup>*\<^sup>* poolStart w \<and> fst (deflateRead 2 0 (pwPool w)) = Inr ''ll''"
proof -
  obtain w where w: "(pool_step (\<lambda>raw. raw))\<^sup>*\<^sup>* poolStart w"
    "pwUsers w 0 = Some \<lparr>usReader = 0, usRaw = ''hello'', usGot = ''he'', usClosed = False\<rparr>"
    using example_pool_run by blast
  then show ?thesis using pool_reads_own_file [OF w, of 2] by (intro exI [of _ w]) auto
qed

text \<open>A reader used after it was closed and handed out again is that of another request: a read takes the other's
  data, and a second close succeeds and makes the other's next read fail.\<close>

lemma closed_reader_reused:
  assumes "newDeflateReader inflate (Some p) raw s = (p, s1)"
  shows "fst (deflateRead k p s1) = Inr (take k (inflate raw))" and "fst (deflateClose p s1) = None"
    and "fst (deflateRead k p (snd (deflateClose p s1))) = Inl ErrClosedReader"
  using assms by (auto simp: newDeflateReader_def resetReader_def deflateRead_def deflateClose_def)

end
