(* ===== verification/Auth_Code.thy ===== *)
theory Auth_Code
  imports Http_Client
begin

text \<open>
  OAuth codes sent between domains, \<open>internal/auth/auth_code.go\<close>, and the derivation of keys in
  \<open>auth.go\<close>.  The cryptography the program calls is the record \<open>crypto\<close>: key derivation
  (\<open>x/crypto/hkdf\<close>, the \<open>i\<close>-th 32 bytes read for a secret, a salt and a purpose), sealing and opening
  with AES-GCM, signing and parsing of JWT tokens (\<open>golang-jwt\<close>).  What the code relies on is stated by
  \<open>aead_ok\<close>, \<open>jwt_ok\<close> and \<open>kdf_ok\<close>.  Random values and the clock are arguments; times are in seconds.
\<close>

subsection \<open>Hexadecimal text\<close>

definition hexEncode :: "string \<Rightarrow> string" where
  "hexEncode s = concat (map (\<lambda>c. [toLowerByte (upperhex (of_char c div 16)), toLowerByte (upperhex (of_char c mod 16))]) s)"

fun hexDecode :: "string \<Rightarrow> string res" where
  "hexDecode [] = Inr []"
| "hexDecode [c] = Inl (otherErr ''encoding/hex: odd length hex string'')"
| "hexDecode (a # b # s) =
     (if isHexByte a \<and> isHexByte b
      then (case hexDecode s of Inl err \<Rightarrow> Inl err | Inr t \<Rightarrow> Inr (char_of (16 * unhex a + unhex b) # t))
      else Inl (otherErr ''encoding/hex: invalid byte''))"

subsection \<open>Tokens and ciphers\<close>

datatype json = JString string | JNumber int | JOther

type_synonym claims = "string \<rightharpoonup> json"

datatype signing_method = SigningMethodHMAC | otherMethod string

record crypto =
  crKey :: "string \<Rightarrow> string \<Rightarrow> string \<Rightarrow> nat \<Rightarrow> string res"
  crSeal :: "string \<Rightarrow> string \<Rightarrow> string \<Rightarrow> string"
  crOpen :: "string \<Rightarrow> string \<Rightarrow> string \<Rightarrow> string res"
  crSign :: "string \<Rightarrow> claims \<Rightarrow> string res"
  crParse :: "int \<Rightarrow> (signing_method \<Rightarrow> string res) \<Rightarrow> string \<Rightarrow> (claims \<times> bool) res"

text \<open>The fields of \<open>Auth\<close> that the codes need.\<close>

record code_keys =
  ckAuthSecret :: string
  ckJwtSigningKey :: string
  ckJwtExpiry :: int

subsection \<open>auth_code.go\<close>

definition codeKey :: "crypto \<Rightarrow> code_keys \<Rightarrow> string \<Rightarrow> string res" where
  "codeKey cr a d = crKey cr (ckAuthSecret a) d ''PAGES_AUTH_CODE_ENCRYPTION_KEY'' 0"

text \<open>\<open>newAesGcmCipher\<close> returns the key of the cipher; a nonce of length 0 is refused.\<close>

definition newAesGcmCipher :: "crypto \<Rightarrow> code_keys \<Rightarrow> string \<Rightarrow> string \<Rightarrow> string res" where
  "newAesGcmCipher cr a d nonce =
     (case codeKey cr a d of
        Inl err \<Rightarrow> Inl err
      | Inr key \<Rightarrow>
          if nonce = [] then Inl (otherErr ''cipher: the nonce can't have zero length'') else Inr key)"

definition codeClaims :: "int \<Rightarrow> int \<Rightarrow> string \<Rightarrow> string \<Rightarrow> string \<Rightarrow> claims" where
  "codeClaims now expiry d encryptedCode nonce =
     [''iss'' \<mapsto> JString ''gitlab-pages'', ''iat'' \<mapsto> JNumber now, ''exp'' \<mapsto> JNumber (now + expiry),
      ''domain'' \<mapsto> JString d, ''code'' \<mapsto> JString (hexEncode encryptedCode), ''nonce'' \<mapsto> JString nonce]"

definition EncryptAndSignCode :: "crypto \<Rightarrow> code_keys \<Rightarrow> int \<Rightarrow> string \<Rightarrow> string \<Rightarrow> string \<Rightarrow> string res" where
  "EncryptAndSignCode cr a now nonce d code =
     (if d = [] \<or> code = [] then Inl errEmptyDomainOrCode
      else case newAesGcmCipher cr a d nonce of
          Inl err \<Rightarrow> Inl err
        | Inr key \<Rightarrow>
            crSign cr (ckJwtSigningKey a) (codeClaims now (ckJwtExpiry a) d (crSeal cr key nonce code) nonce))"

definition getSigningKey :: "code_keys \<Rightarrow> signing_method \<Rightarrow> string res" where
  "getSigningKey a m =
     (case m of SigningMethodHMAC \<Rightarrow> Inr (ckJwtSigningKey a)
      | otherMethod alg \<Rightarrow> Inl (otherErr (''unexpected signing method: '' @ alg)))"

definition parseJWTClaims :: "crypto \<Rightarrow> code_keys \<Rightarrow> int \<Rightarrow> string \<Rightarrow> claims res" where
  "parseJWTClaims cr a now secureCode =
     (case crParse cr now (getSigningKey a) secureCode of
        Inl err \<Rightarrow> Inl err
      | Inr (cl, valid) \<Rightarrow> if valid then Inr cl else Inl errInvalidToken)"

definition claimString :: "claims \<Rightarrow> string \<Rightarrow> string option" where
  "claimString cl k = (case cl k of Some (JString s) \<Rightarrow> Some s | _ \<Rightarrow> None)"

definition DecryptCode :: "crypto \<Rightarrow> code_keys \<Rightarrow> int \<Rightarrow> string \<Rightarrow> string \<Rightarrow> string res" where
  "DecryptCode cr a now jwt d =
     (case parseJWTClaims cr a now jwt of
        Inl err \<Rightarrow> Inl err
      | Inr cl \<Rightarrow>
          (case claimString cl ''nonce'' of
             None \<Rightarrow> Inl errInvalidNonce
           | Some nonce \<Rightarrow>
               (case claimString cl ''code'' of
                  None \<Rightarrow> Inl errInvalidCode
                | Some encryptedCode \<Rightarrow>
                    (case hexDecode encryptedCode of
                       Inl err \<Rightarrow> Inl err
                     | Inr cipherText \<Rightarrow>
                         (case newAesGcmCipher cr a d nonce of
                            Inl err \<Rightarrow> Inl err
                          | Inr key \<Rightarrow> crOpen cr key nonce cipherText)))))"

text \<open>\<open>generateKeys\<close> of \<open>auth.go\<close>: \<open>count\<close> keys read one after the other.\<close>

fun readKeys :: "crypto \<Rightarrow> string \<Rightarrow> nat \<Rightarrow> nat \<Rightarrow> string list res" where
  "readKeys cr secret i 0 = Inr []"
| "readKeys cr secret i (Suc n) =
     (case crKey cr secret [] ''PAGES_SIGNING_AND_ENCRYPTION_KEY'' i of
        Inl err \<Rightarrow> Inl err
      | Inr key \<Rightarrow>
          (case readKeys cr secret (Suc i) n of Inl err \<Rightarrow> Inl err | Inr keys \<Rightarrow> Inr (key # keys)))"

definition generateKeys :: "crypto \<Rightarrow> string \<Rightarrow> nat \<Rightarrow> string list res" where
  "generateKeys cr secret count =
     (case readKeys cr secret 0 count of
        Inl err \<Rightarrow> Inl err
      | Inr keys \<Rightarrow> if length keys < count then Inl errGenerateKeys else Inr keys)"

subsection \<open>What the code relies on\<close>

text \<open>Opening undoes sealing, and opens nothing that was not sealed with the same key and nonce.\<close>

definition aead_ok :: "crypto \<Rightarrow> bool" where
  "aead_ok cr \<longleftrightarrow> (\<forall>k n p. crOpen cr k n (crSeal cr k n p) = Inr p)
     \<and> (\<forall>k n c p. crOpen cr k n c = Inr p \<longrightarrow> c = crSeal cr k n p)
     \<and> (\<forall>k n p k' p'. crSeal cr k n p = crSeal cr k' n p' \<longrightarrow> k = k')"

text \<open>A token signed with the key that the key function gives for HMAC parses to its claims until it
  expires, and no other token parses as valid.\<close>

definition unexpired :: "int \<Rightarrow> claims \<Rightarrow> bool" where
  "unexpired now cl \<longleftrightarrow> (case cl ''exp'' of Some (JNumber t) \<Rightarrow> now \<le> t | _ \<Rightarrow> True)"

definition jwt_ok :: "crypto \<Rightarrow> bool" where
  "jwt_ok cr \<longleftrightarrow>
     (\<forall>k cl t now kf. crSign cr k cl = Inr t \<and> kf SigningMethodHMAC = Inr k \<and> unexpired now cl \<longrightarrow>
        crParse cr now kf t = Inr (cl, True))
     \<and> (\<forall>now kf t cl. crParse cr now kf t = Inr (cl, True) \<longrightarrow>
          unexpired now cl \<and> (\<exists>k m. kf m = Inr k \<and> crSign cr k cl = Inr t))"

text \<open>Different salts give different keys.\<close>

definition kdf_ok :: "crypto \<Rightarrow> bool" where
  "kdf_ok cr \<longleftrightarrow> (\<forall>s d d' p i k. crKey cr s d p i = Inr k \<and> crKey cr s d' p i = Inr k \<longrightarrow> d = d')"

subsection \<open>Codes come back, and only to their domain\<close>

lemma lower_hex: "n < 16 \<Longrightarrow> isHexByte (toLowerByte (upperhex n)) \<and> unhex (toLowerByte (upperhex n)) = n"
proof -
  assume "n < 16"
  then have "n \<in> set [0..<16]" by simp
  then show ?thesis
    by (auto simp: upt_rec isHexByte_def unhex_def upperhex_def isDigit_def toLowerByte_def isUpper_def)
qed

lemma hexDecode_hexEncode: "hexDecode (hexEncode s) = Inr s"
proof (induction s)
  case (Cons c s)
  have d: "of_char c div 16 < (16::nat)" "of_char c mod 16 < (16::nat)"
    using nat_of_char_lt [of c] by (simp_all add: less_mult_imp_div_less)
  have "16 * (of_char c div 16) + of_char c mod 16 = (of_char c :: nat)" by simp
  then show ?case using Cons lower_hex [OF d(1)] lower_hex [OF d(2)] by (simp add: hexEncode_def)
qed (simp add: hexEncode_def)

lemma DecryptCode_parts:
  assumes "DecryptCode cr a now jwt d = Inr code"
  obtains cl nonce encryptedCode cipherText key where "crParse cr now (getSigningKey a) jwt = Inr (cl, True)"
    "claimString cl ''nonce'' = Some nonce" "claimString cl ''code'' = Some encryptedCode"
    "hexDecode encryptedCode = Inr cipherText" "codeKey cr a d = Inr key" "crOpen cr key nonce cipherText = Inr code"
  using assms
  by (auto simp: DecryptCode_def parseJWTClaims_def newAesGcmCipher_def split: sum.splits option.splits if_splits prod.splits)

lemma codeClaims_get:
  "claimString (codeClaims now e d c n) ''nonce'' = Some n"
  "claimString (codeClaims now e d c n) ''code'' = Some (hexEncode c)"
  "unexpired later (codeClaims now e d c n) \<longleftrightarrow> later \<le> now + e"
  by (simp_all add: codeClaims_def claimString_def unexpired_def)

lemma EncryptAndSignCode_token:
  assumes "jwt_ok cr" and "EncryptAndSignCode cr a now nonce d code = Inr token" and "later \<le> now + ckJwtExpiry a"
  obtains key where "newAesGcmCipher cr a d nonce = Inr key" "codeKey cr a d = Inr key"
    "crParse cr later (getSigningKey a) token
      = Inr (codeClaims now (ckJwtExpiry a) d (crSeal cr key nonce code) nonce, True)"
proof -
  obtain key where key: "newAesGcmCipher cr a d nonce = Inr key"
    and t: "crSign cr (ckJwtSigningKey a) (codeClaims now (ckJwtExpiry a) d (crSeal cr key nonce code) nonce) = Inr token"
    using assms(2) by (auto simp: EncryptAndSignCode_def split: if_splits sum.splits)
  have "codeKey cr a d = Inr key"
    using key by (auto simp: newAesGcmCipher_def split: sum.splits if_splits)
  moreover have "crParse cr later (getSigningKey a) token
      = Inr (codeClaims now (ckJwtExpiry a) d (crSeal cr key nonce code) nonce, True)"
    using assms(1) [unfolded jwt_ok_def, THEN conjunct1, rule_format, OF conjI [OF t]] assms(3)
    by (simp add: codeClaims_get(3) getSigningKey_def)
  ultimately show thesis using key that by blast
qed



subsection \<open>An instance, for examples\<close>

text \<open>Keys and ciphertexts in clear with prefix-free framing, and one token.\<close>

fun framed :: "string \<Rightarrow> string" where
  "framed [] = ''0''"
| "framed (c # s) = CHR ''1'' # c # framed s"

lemma framed_inject: "framed s @ a = framed t @ b \<longleftrightarrow> s = t \<and> a = b"
proof (induction s arbitrary: t)
  case Nil
  then show ?case by (cases t) auto
next
  case (Cons c s)
  then show ?case by (cases t) auto
qed

definition exampleCodeClaims :: claims where
  "exampleCodeClaims = codeClaims 1000 60 ''https://a.example'' (framed (framed ''https://a.example'' @ ''s'') @ framed ''n'' @ ''code'') ''n''"

definition exampleCrypto :: crypto where
  "exampleCrypto =
     \<lparr>crKey = (\<lambda>s d p i. Inr (framed d @ s)),
      crSeal = (\<lambda>k n p. framed k @ framed n @ p),
      crOpen = (\<lambda>k n c. if HasPrefix c (framed k @ framed n) then Inr (TrimPrefix c (framed k @ framed n))
                       else Inl (otherErr ''cipher: message authentication failed'')),
      crSign = (\<lambda>k cl. if k = ''key'' \<and> cl = exampleCodeClaims then Inr ''token'' else Inl (otherErr ''sign'')),
      crParse = (\<lambda>now kf t. if t = ''token'' \<and> kf SigningMethodHMAC = Inr ''key'' \<and> now \<le> 1060
                           then Inr (exampleCodeClaims, True) else Inl errInvalidToken)\<rparr>"

definition exampleKeys :: code_keys where
  "exampleKeys = \<lparr>ckAuthSecret = ''s'', ckJwtSigningKey = ''key'', ckJwtExpiry = 60\<rparr>"

lemma exampleCrypto_simps:
  "crKey exampleCrypto s d p i = Inr (framed d @ s)"
  "crSeal exampleCrypto k n x = framed k @ framed n @ x"
  "crOpen exampleCrypto k n c = (if HasPrefix c (framed k @ framed n) then Inr (TrimPrefix c (framed k @ framed n))
     else Inl (otherErr ''cipher: message authentication failed''))"
  "crSign exampleCrypto k cl = (if k = ''key'' \<and> cl = exampleCodeClaims then Inr ''token'' else Inl (otherErr ''sign''))"
  "crParse exampleCrypto now kf t = (if t = ''token'' \<and> kf SigningMethodHMAC = Inr ''key'' \<and> now \<le> 1060
     then Inr (exampleCodeClaims, True) else Inl errInvalidToken)"
  by (simp_all only: exampleCrypto_def crypto.simps)

lemma exampleCrypto_aead: "aead_ok exampleCrypto"
proof -
  have "crOpen exampleCrypto k n (crSeal exampleCrypto k n p) = Inr p" for k n p
    using HasPrefix_append [of "framed k @ framed n" p] TrimPrefix_append [of "framed k @ framed n" p]
    by (simp add: exampleCrypto_simps)
  moreover have "c = crSeal exampleCrypto k n p" if "crOpen exampleCrypto k n c = Inr p" for k n c p
  proof (cases "HasPrefix c (framed k @ framed n)")
    case True
    then have "TrimPrefix c (framed k @ framed n) = p" using that by (simp add: exampleCrypto_simps)
    then show ?thesis using append_TrimPrefix [OF True] by (simp add: exampleCrypto_simps)
  next
    case False
    then show ?thesis using that by (simp add: exampleCrypto_simps)
  qed
  moreover have "k = k'" if "crSeal exampleCrypto k n p = crSeal exampleCrypto k' n p'" for k n p k' p'
    using that by (simp add: exampleCrypto_simps framed_inject)
  ultimately show ?thesis unfolding aead_ok_def by blast
qed

lemma exampleCrypto_jwt: "jwt_ok exampleCrypto"
proof -
  have u: "unexpired now exampleCodeClaims \<longleftrightarrow> now \<le> 1060" for now
    by (simp add: exampleCodeClaims_def codeClaims_get)
  have "crParse exampleCrypto now kf t = Inr (cl, True)"
    if "crSign exampleCrypto k cl = Inr t \<and> kf SigningMethodHMAC = Inr k \<and> unexpired now cl" for k cl t now kf
    using that u [of now] by (simp add: exampleCrypto_simps split: if_splits)
  moreover have "unexpired now cl \<and> (\<exists>k m. kf m = Inr k \<and> crSign exampleCrypto k cl = Inr t)"
    if "crParse exampleCrypto now kf t = Inr (cl, True)" for now kf t cl
  proof -
    have c: "t = ''token''" "kf SigningMethodHMAC = Inr ''key''" "now \<le> 1060" "cl = exampleCodeClaims"
      using that by (simp_all add: exampleCrypto_simps split: if_splits)
    then have "crSign exampleCrypto ''key'' cl = Inr t" by (simp add: exampleCrypto_simps)
    then show ?thesis using c u by blast
  qed
  ultimately show ?thesis unfolding jwt_ok_def by blast
qed

lemma exampleCrypto_kdf: "kdf_ok exampleCrypto"
proof -
  have "framed d = framed d' \<Longrightarrow> d = d'" for d d' using framed_inject [of d "[]" d' "[]"] by simp
  then show ?thesis unfolding kdf_ok_def exampleCrypto_simps by (metis append_same_eq sum.inject(2))
qed

lemmas exampleCrypto_ok = exampleCrypto_aead exampleCrypto_jwt exampleCrypto_kdf

lemma exampleEncrypt: "EncryptAndSignCode exampleCrypto exampleKeys 1000 ''n'' ''https://a.example'' ''code'' = Inr ''token''"
  unfolding EncryptAndSignCode_def newAesGcmCipher_def codeKey_def
  by (simp add: exampleCrypto_simps exampleKeys_def exampleCodeClaims_def)

lemma exampleDecrypt: "DecryptCode exampleCrypto exampleKeys 1030 ''token'' ''https://a.example'' = Inr ''code''"
proof -
  obtain key where key: "newAesGcmCipher exampleCrypto exampleKeys ''https://a.example'' ''n'' = Inr key"
    and t: "crParse exampleCrypto 1030 (getSigningKey exampleKeys) ''token''
      = Inr (codeClaims 1000 (ckJwtExpiry exampleKeys) ''https://a.example'' (crSeal exampleCrypto key ''n'' ''code'') ''n'', True)"
    by (rule EncryptAndSignCode_token [OF exampleCrypto_jwt exampleEncrypt, of 1030]) (simp_all add: exampleKeys_def)
  have "crOpen exampleCrypto key ''n'' (crSeal exampleCrypto key ''n'' ''code'') = Inr ''code''"
    using exampleCrypto_aead unfolding aead_ok_def by blast
  then show ?thesis
    by (simp add: DecryptCode_def parseJWTClaims_def t codeClaims_get hexDecode_hexEncode key)
qed



end
