(* ===== verification/Symlink.thy ===== *)
theory Symlink
  imports Vfs
begin

text \<open>
  Symbolic link evaluation inside a site root, \<open>internal/serving/disk/symlink\<close> (Unix, where
  \<open>volumeNameLen\<close> is 0).  The loop variables \<open>path\<close>, \<open>start\<close> and \<open>end\<close> are kept as the part of the
  path still to read, \<open>path[end:]\<close>; the indices of the last slash of \<open>dest\<close> after the volume are
  \<open>cutAtLast\<close> of \<open>dest[volLen:]\<close>.  The argument \<open>guarded\<close> is \<open>True\<close> for this package; the standard
  library's \<open>filepath.EvalSymlinks\<close>, from which the package is derived, is the same loop without the
  check that refuses to go above the root.
\<close>

definition maxLinks :: nat where "maxLinks = 255"

text \<open>\<open>dest[:r]\<close> and \<open>dest[r+1:]\<close> for the last slash \<open>r >= volLen\<close>.\<close>

definition lastSlash :: "string \<Rightarrow> string \<Rightarrow> (string \<times> string) option" where
  "lastSlash vol dest =
     map_option (\<lambda>(a, b). (take (length vol) dest @ a, b)) (cutAtLast slash (drop (length vol) dest))"

text \<open>The component \<open>..\<close>.  Without a slash after the volume, \<open>r + 1 = volLen\<close>.\<close>

definition stepBack :: "bool \<Rightarrow> string \<Rightarrow> string \<Rightarrow> string res" where
  "stepBack guarded vol dest =
     (let keep = (if length dest > length vol then dest @ ''/'' else dest) @ ''..''
      in case lastSlash vol dest of
           None \<Rightarrow>
             if guarded \<and> vol \<noteq> [] \<and> dest ! (length vol - 1) = slash then Inl errBacktrackRoot
             else Inr keep
         | Some (before, after) \<Rightarrow> Inr (if after = ''..'' then keep else before))"

definition appendComp :: "string \<Rightarrow> string \<Rightarrow> string" where
  "appendComp dest c = (if dest \<noteq> [] \<and> last dest \<noteq> slash then dest @ ''/'' else dest) @ c"

text \<open>The destination and the rest of the path after the symlink at \<open>dest\<close> has been read.\<close>

definition followLink :: "string \<Rightarrow> string \<Rightarrow> string \<Rightarrow> string \<Rightarrow> string \<times> string" where
  "followLink vol dest link rest =
     (if link \<noteq> [] \<and> hd link = slash then (''/'', tl link @ rest)
      else ((case lastSlash vol dest of None \<Rightarrow> vol | Some (before, _) \<Rightarrow> before), link @ rest))"

function walkLoop :: "bool \<Rightarrow> vfs_root \<Rightarrow> string \<Rightarrow> nat \<Rightarrow> string \<Rightarrow> string \<Rightarrow> string res" where
  "walkLoop guarded root vol linksWalked dest path =
     (let unread = dropWhile (\<lambda>c. c = slash) path;
          comp = takeWhile (\<lambda>c. c \<noteq> slash) unread;
          rest = dropWhile (\<lambda>c. c \<noteq> slash) unread
      in if comp = [] then Inr (Clean dest)
         else if comp = ''.'' then walkLoop guarded root vol linksWalked dest rest
         else if comp = ''..'' then
           (case stepBack guarded vol dest of
              Inl e \<Rightarrow> Inl e
            | Inr dest' \<Rightarrow> walkLoop guarded root vol linksWalked dest' rest)
         else
           (let dest' = appendComp dest comp
            in case vLstat root dest' of
                 Inl e \<Rightarrow> Inl e
               | Inr fi \<Rightarrow>
                   if \<not> isSymlink fi then
                     (if \<not> isDir fi \<and> rest \<noteq> [] then Inl ENOTDIR
                      else walkLoop guarded root vol linksWalked dest' rest)
                   else if linksWalked + 1 > maxLinks then Inl errTooManyLinks
                   else
                     (case vReadlink root dest' of
                        Inl e \<Rightarrow> Inl e
                      | Inr link \<Rightarrow>
                          walkLoop guarded root vol (linksWalked + 1)
                            (fst (followLink vol dest' link rest))
                            (snd (followLink vol dest' link rest)))))"
  by pat_completeness auto

lemma rest_shorter:
  assumes "takeWhile (\<lambda>c. c \<noteq> slash) (dropWhile (\<lambda>c. c = slash) path) \<noteq> []"
  shows "length (dropWhile (\<lambda>c. c \<noteq> slash) (dropWhile (\<lambda>c. c = slash) path)) < length path"
proof -
  let ?u = "dropWhile (\<lambda>c. c = slash) path"
  have "length (takeWhile (\<lambda>c. c \<noteq> slash) ?u) + length (dropWhile (\<lambda>c. c \<noteq> slash) ?u) = length ?u"
    by (metis length_append takeWhile_dropWhile_id)
  moreover have "length ?u \<le> length path" by (rule length_dropWhile_le)
  ultimately show ?thesis using assms by (cases "takeWhile (\<lambda>c. c \<noteq> slash) ?u") auto
qed

termination walkLoop
  by (relation "measures [\<lambda>(g, r, v, n, d, p). Suc maxLinks - n, \<lambda>(g, r, v, n, d, p). length p]")
    (auto simp: rest_shorter)

definition walkSymlinks :: "bool \<Rightarrow> vfs_root \<Rightarrow> string \<Rightarrow> string res" where
  "walkSymlinks guarded root path =
     (if HasPrefix path ''/'' then walkLoop guarded root ''/'' 0 ''/'' (drop 1 path)
      else walkLoop guarded root [] 0 [] path)"

definition EvalSymlinks :: "vfs_root \<Rightarrow> string \<Rightarrow> string res" where
  "EvalSymlinks root path = walkSymlinks True root path"

declare walkLoop.simps [simp del]

subsection \<open>No symbolic link is left\<close>

text \<open>The destinations the loop can hold: each ordinary component was looked up and is no symbolic
  link, and a component \<open>..\<close> is only kept behind a single component or another \<open>..\<close>.\<close>

definition keepUp :: "string \<Rightarrow> string" where
  "keepUp d = (if d = [] then ''..'' else d @ ''/..'')"

inductive settled :: "vfs_root \<Rightarrow> string \<Rightarrow> bool" for root where
  settled_empty: "settled root []"
| settled_root: "settled root ''/''"
| settled_up: "settled root d \<Longrightarrow> slash \<notin> set d \<or> HasSuffix d ''/..'' \<Longrightarrow> settled root (keepUp d)"
| settled_comp: "settled root d \<Longrightarrow> plainComp c \<Longrightarrow> vLstat root (appendComp d c) = Inr fi
    \<Longrightarrow> \<not> isSymlink fi \<Longrightarrow> settled root (appendComp d c)"

lemma settled_last: "settled root d \<Longrightarrow> d = [] \<or> d = ''/'' \<or> last d \<noteq> slash"
  by (induction rule: settled.induct) (auto dest: plainComp_last simp: appendComp_def keepUp_def)

lemma appendComp_settled:
  "settled root d \<Longrightarrow> appendComp d c = (if d = [] \<or> d = ''/'' then d @ c else d @ ''/'' @ c)"
  using settled_last [of root d] by (auto simp: appendComp_def)

lemma lastSlash_comp:
  assumes "slash \<notin> set c" and "length vol \<le> length d"
  shows "lastSlash vol (d @ slash # c) = Some (d, c)"
  using assms cutAtLast_append [of slash c "drop (length vol) d"] by (simp add: lastSlash_def)

lemma lastSlash_none: "slash \<notin> set (drop (length vol) d) \<Longrightarrow> lastSlash vol d = None"
  by (simp add: lastSlash_def cutAtLast_None)

lemma settled_before:
  assumes "settled root d" and "lastSlash vol d = Some (before, after)" and "length vol \<le> 1"
  shows "settled root before"
  using assms(1)
proof cases
  case settled_empty
  then show ?thesis using assms(2) by (simp add: lastSlash_none)
next
  case settled_root
  show ?thesis
  proof (cases vol)
    case Nil
    then show ?thesis using settled_root assms(2)
      by (simp add: lastSlash_def cutAtLast_def settled.settled_empty)
  next
    case (Cons x xs)
    then show ?thesis using settled_root assms(2) by (simp add: lastSlash_none)
  qed
next
  case (settled_up d')
  show ?thesis
  proof (cases "d' = []")
    case True
    then have "slash \<notin> set (drop (length vol) d)"
      using settled_up(1) in_set_dropD by (fastforce simp: keepUp_def)
    then show ?thesis using assms(2) by (simp add: lastSlash_none)
  next
    case False
    then have "length vol \<le> length d'" using assms(3) by (cases d') auto
    then show ?thesis
      using settled_up False assms(2) lastSlash_comp [of "''..''" vol d'] by (simp add: keepUp_def)
  qed
next
  case (settled_comp d' c fi)
  have c: "slash \<notin> set c" using settled_comp by (simp add: plainComp_def)
  consider "d' = []" | "d' = ''/''" | "d' \<noteq> []" "d' \<noteq> ''/''" by blast
  then show ?thesis
  proof cases
    case 1
    then have "slash \<notin> set (drop (length vol) d)"
      using settled_comp c in_set_dropD by (fastforce simp: appendComp_def)
    then show ?thesis using assms(2) by (simp add: lastSlash_none)
  next
    case 2
    then have d: "d = slash # c" using settled_comp by (simp add: appendComp_def)
    show ?thesis
    proof (cases vol)
      case Nil
      then show ?thesis
        using assms(2) d lastSlash_comp [OF c, of "[]" "[]"] by (simp add: settled.settled_empty)
    next
      case (Cons x xs)
      then have "lastSlash vol d = None" using d c assms(3) by (intro lastSlash_none) simp
      then show ?thesis using assms(2) by simp
    qed
  next
    case 3
    then have "length vol \<le> length d'" using assms(3) by (cases d') auto
    then show ?thesis
      using 3 settled_comp assms(2) lastSlash_comp [OF c, of vol d']
      by (simp add: appendComp_settled)
  qed
qed

lemma lastSlash_split:
  "lastSlash vol d = Some (before, after) \<Longrightarrow>
    \<exists>a. before = take (length vol) d @ a \<and> d = before @ slash # after \<and> slash \<notin> set after"
  by (auto simp: lastSlash_def dest!: cutAtLast_Some)
    (metis append.assoc append_take_drop_id)

lemma HasPrefix_volume:
  assumes "HasPrefix d vol"
  shows "HasPrefix (d @ s) vol" "HasPrefix (take (length vol) d @ s) vol"
  using assms by (auto elim!: HasPrefixE)

text \<open>What the loop keeps of \<open>dest\<close>.\<close>

definition walkInv :: "vfs_root \<Rightarrow> string \<Rightarrow> string \<Rightarrow> bool" where
  "walkInv root vol dest \<longleftrightarrow> (vol = [] \<or> vol = ''/'') \<and> HasPrefix dest vol \<and> settled root dest"

lemma walkInv_before:
  assumes "walkInv root vol dest" and "lastSlash vol dest = Some (before, after)"
  shows "walkInv root vol before"
proof -
  have "settled root before"
    using settled_before [OF _ assms(2)] assms(1) by (auto simp: walkInv_def)
  moreover have "HasPrefix before vol"
    using lastSlash_split [OF assms(2)] HasPrefix_volume(2) [of dest vol] assms(1)
    unfolding walkInv_def by blast
  ultimately show ?thesis using assms(1) by (simp add: walkInv_def)
qed

lemma walkInv_stepBack:
  assumes i: "walkInv root vol dest" and s: "stepBack True vol dest = Inr dest'"
  shows "walkInv root vol dest'"
proof (cases "lastSlash vol dest")
  case None
  have v: "vol = []"
  proof (rule ccontr)
    assume "vol \<noteq> []"
    with i have "vol = ''/''" "HasPrefix dest ''/''" by (auto simp: walkInv_def)
    then have "dest ! (length vol - 1) = slash" by (cases dest) (auto simp: HasPrefix_def)
    with s None \<open>vol \<noteq> []\<close> show False by (simp add: stepBack_def Let_def)
  qed
  with None have "slash \<notin> set dest" by (simp add: lastSlash_def cutAtLast_None)
  with i have "settled root (keepUp dest)" by (auto simp: walkInv_def intro: settled_up)
  moreover have "dest' = keepUp dest" using s None v by (auto simp: stepBack_def keepUp_def)
  ultimately show ?thesis using v by (simp add: walkInv_def)
next
  case (Some ba)
  obtain before after where ba: "ba = (before, after)" by fastforce
  note sp = lastSlash_split [OF Some [unfolded ba]]
  show ?thesis
  proof (cases "after = ''..''")
    case False
    then show ?thesis using walkInv_before [OF i Some [unfolded ba]] s Some ba by (simp add: stepBack_def)
  next
    case True
    with sp have d: "dest = before @ ''/..''" by auto
    then have "HasSuffix dest ''/..''" by (simp only: HasSuffix_append)
    with i have "settled root (keepUp dest)" by (auto simp: walkInv_def intro: settled_up)
    moreover have "length vol < length dest" using i d by (auto simp: walkInv_def)
    then have "dest' = dest @ ''/..''" using s Some ba True by (simp add: stepBack_def Let_def)
    ultimately show ?thesis using i d HasPrefix_volume(1) [of dest vol] by (auto simp: walkInv_def keepUp_def)
  qed
qed

lemma walkInv_appendComp:
  assumes "walkInv root vol dest" and "plainComp c" and "vLstat root (appendComp dest c) = Inr fi"
    and "\<not> isSymlink fi"
  shows "walkInv root vol (appendComp dest c)"
  using assms settled_comp [of root dest c fi] HasPrefix_volume(1) [of dest vol]
  by (auto simp: walkInv_def appendComp_def)

lemma lastSlash_appendComp:
  assumes "walkInv root vol dest" and "plainComp c"
    and "lastSlash vol (appendComp dest c) = Some (before, after)"
  shows "walkInv root vol before"
proof -
  have c: "slash \<notin> set c" using assms(2) by (simp add: plainComp_def)
  have st: "settled root dest" and hp: "HasPrefix dest vol" and v: "vol = [] \<or> vol = ''/''"
    using assms(1) by (auto simp: walkInv_def)
  consider "dest = []" | "dest = ''/''" | "dest \<noteq> []" "dest \<noteq> ''/''" by blast
  then show ?thesis
  proof cases
    case 1
    then show ?thesis using assms(3) c hp by (auto simp: appendComp_def HasPrefix_def lastSlash_none)
  next
    case 2
    then show ?thesis using assms(3) c v lastSlash_comp [OF c, of "[]" "[]"]
      by (auto simp: appendComp_def lastSlash_none walkInv_def settled_empty)
  next
    case 3
    then have "length vol \<le> length dest" using v by (cases dest) auto
    then show ?thesis
      using 3 assms(1,3) lastSlash_comp [OF c, of vol dest] appendComp_settled [OF st, of c] by simp
  qed
qed

lemma walkInv_followLink:
  assumes "walkInv root vol dest" and "plainComp c"
  shows "walkInv root vol (fst (followLink vol (appendComp dest c) link rest))"
proof -
  have v: "vol = [] \<or> vol = ''/''" using assms(1) by (simp add: walkInv_def)
  then have "walkInv root vol vol" "walkInv root vol ''/''"
    by (auto simp: walkInv_def settled_empty settled_root)
  then show ?thesis
    using lastSlash_appendComp [OF assms] by (auto simp: followLink_def split: option.split)
qed

lemma comp_plain:
  fixes p :: string
  assumes "c = takeWhile (\<lambda>x. x \<noteq> slash) p" and "c \<noteq> []" and "c \<noteq> ''.''" and "c \<noteq> ''..''"
  shows "plainComp c"
  using assms set_takeWhileD [of _ "\<lambda>x. x \<noteq> slash" p] by (auto simp: plainComp_def)

lemma walkLoop_settled:
  "walkLoop g root vol n dest path = Inr q \<Longrightarrow> g \<Longrightarrow> walkInv root vol dest \<Longrightarrow>
    \<exists>d. q = Clean d \<and> settled root d"
proof (induction g root vol n dest path rule: walkLoop.induct)
  case (1 g root vol n dest path)
  let ?u = "dropWhile (\<lambda>c. c = slash) path"
  let ?c = "takeWhile (\<lambda>c. c \<noteq> slash) ?u"
  let ?r = "dropWhile (\<lambda>c. c \<noteq> slash) ?u"
  note IH = "1.IH" [OF refl refl refl]
  note run = "1.prems"(1) [unfolded walkLoop.simps [of g root vol n dest path], unfolded Let_def]
  show ?case
  proof (cases "?c = []")
    case True
    then show ?thesis using run "1.prems"(3) by (auto simp: walkInv_def)
  next
    case c0: False
    show ?thesis
    proof (cases "?c = ''.''")
      case True
      then show ?thesis using IH(1) [OF c0 True] run "1.prems" c0 by simp
    next
      case c1: False
      show ?thesis
      proof (cases "?c = ''..''")
        case True
        then obtain d' where d: "stepBack g vol dest = Inr d'" using run c0 c1 by (cases "stepBack g vol dest") auto
        then show ?thesis
          using IH(2) [OF c0 c1 True d] run "1.prems" c0 c1 True walkInv_stepBack by simp
      next
        case c2: False
        have p: "plainComp ?c" by (rule comp_plain [OF refl c0 c1 c2])
        let ?d = "appendComp dest ?c"
        obtain fi where fi: "vLstat root ?d = Inr fi" using run c0 c1 c2 by (cases "vLstat root ?d") auto
        show ?thesis
        proof (cases "isSymlink fi")
          case False
          with run c0 c1 c2 fi have nd: "\<not> (\<not> isDir fi \<and> ?r \<noteq> [])" by (auto split: if_splits)
          have "walkInv root vol ?d" by (rule walkInv_appendComp [OF "1.prems"(3) p fi False])
          moreover have "walkLoop g root vol n ?d ?r = Inr q" using run c0 c1 c2 fi False nd by auto
          ultimately show ?thesis using IH(3) [OF c0 c1 c2 refl fi _ nd] False "1.prems"(2) by blast
        next
          case True
          with run c0 c1 c2 fi have n: "\<not> n + 1 > maxLinks" by (auto split: if_splits)
          with run c0 c1 c2 fi True obtain link where l: "vReadlink root ?d = Inr link"
            by (cases "vReadlink root ?d") auto
          have "walkInv root vol (fst (followLink vol ?d link ?r))"
            by (rule walkInv_followLink [OF "1.prems"(3) p])
          moreover have "walkLoop g root vol (n + 1) (fst (followLink vol ?d link ?r)) (snd (followLink vol ?d link ?r)) = Inr q"
            using run c0 c1 c2 fi True n l by auto
          ultimately show ?thesis using IH(4) [OF c0 c1 c2 refl fi _ n l] True "1.prems"(2) by blast
        qed
      qed
    qed
  qed
qed

subsection \<open>What evaluation returns\<close>

text \<open>A destination that ends in a kept \<open>..\<close> cleans to \<open>.\<close> or to a path above the root.\<close>

lemma settled_ups:
  assumes "settled root d"
  shows "(slash \<notin> set d \<longrightarrow> d = [] \<or> d = ''..'' \<or> plainComp d)
    \<and> (HasSuffix d ''/..'' \<longrightarrow> \<not> isRooted d \<and> (\<forall>c \<in> set (cleanComps False (Split slash d) []). c = ''..''))"
  using assms
proof induction
  case (settled_up d)
  consider "d = []" | "d = ''..''" | "plainComp d" "slash \<notin> set d" "d \<noteq> ''..''" "d \<noteq> []"
    | "slash \<in> set d" "HasSuffix d ''/..''" using settled_up by (auto simp: plainComp_def)
  then show ?case
  proof cases
    case 1
    then show ?thesis by (simp add: keepUp_def HasSuffix_def)
  next
    case 2
    then show ?thesis by (simp add: keepUp_def HasSuffix_def isRooted_def HasPrefix_def cleanStep_def)
  next
    case 3
    then have "Split slash (d @ ''/..'') = [d, ''..'']" using Split_append_sep [of slash d "''..''"] by simp
    moreover have "\<not> isRooted (d @ ''/..'')" using 3 by (cases d) (auto simp: isRooted_def HasPrefix_def)
    ultimately show ?thesis using 3 cleanStep_plain [of d False "[]"] by (simp add: keepUp_def) (simp add: cleanStep_def)
  next
    case 4
    with settled_up.IH have r: "\<not> isRooted d"
      and st: "\<forall>c \<in> set (cleanComps False (Split slash d) []). c = ''..''" by auto
    have "cleanComps False (Split slash (d @ ''/..'')) []
        = cleanStep False ''..'' (cleanComps False (Split slash d) [])"
      using Split_append [of slash d "''..''"] by (simp add: cleanComps_append)
    moreover have "d \<noteq> []" using 4 by auto
    then have "\<not> isRooted (d @ ''/..'')" using r by (cases d) (auto simp: isRooted_def HasPrefix_def)
    ultimately show ?thesis using 4 st \<open>d \<noteq> []\<close>
      by (cases "cleanComps False (Split slash d) []") (auto simp: keepUp_def cleanStep_def)
  qed
next
  case (settled_comp d c fi)
  have c: "slash \<notin> set c" "c \<noteq> ''..''" using settled_comp by (auto simp: plainComp_def)
  have n: "\<not> HasSuffix (appendComp d c) ''/..''"
  proof
    assume "HasSuffix (appendComp d c) ''/..''"
    then obtain t where t: "appendComp d c = t @ ''/..''" by (auto simp: HasSuffix_iff_suffix suffix_def)
    show False
    proof (cases "d = []")
      case True
      then show False using t c(1) by (auto simp: appendComp_def)
    next
      case False
      then obtain x where "appendComp d c = x @ slash # c"
        using settled_last [OF settled_comp(1)] by (auto simp: appendComp_def)
      then show False
        using t c cutAtLast_append [OF c(1), of x] cutAtLast_append [of slash "''..''" t] by simp
    qed
  qed
  show ?case using n settled_comp by (auto simp: appendComp_settled)
qed (simp_all add: HasSuffix_def)

lemma Clean_ups:
  assumes "\<not> isRooted d" and "\<forall>c \<in> set (cleanComps False (Split slash d) []). c = ''..''"
  shows "Clean d = ''.'' \<or> Clean d = ''..'' \<or> HasPrefix (Clean d) ''../''"
proof (cases "rev (cleanComps False (Split slash d) [])")
  case Nil
  then show ?thesis using assms(1) by (simp add: Clean_def)
next
  case (Cons c cs)
  then have "c = ''..''" using assms(2) by (metis list.set_intros(1) set_rev)
  with Cons assms(1) show ?thesis by (cases cs) (auto simp: Clean_def HasPrefix_def)
qed

lemma isRooted_append: "d \<noteq> [] \<Longrightarrow> isRooted (d @ s) = isRooted d"
  by (cases d) (simp_all add: isRooted_def HasPrefix_def)

lemma settled_rooted:
  assumes "settled root d"
  shows "isRooted d \<Longrightarrow> \<exists>cs. (\<forall>c \<in> set cs. plainComp c) \<and> d = ''/'' @ Join cs ''/''"
  using assms
proof induction
  case settled_empty
  then show ?case by (simp add: isRooted_def HasPrefix_def)
next
  case settled_root
  show ?case by (rule exI [of _ "[]"]) simp
next
  case (settled_up d)
  have "\<not> isRooted (keepUp d)"
  proof (cases "d = []")
    case True
    then show ?thesis by (simp add: keepUp_def isRooted_def HasPrefix_def)
  next
    case False
    have "slash \<notin> set d \<Longrightarrow> \<not> isRooted d" by (cases d) (auto simp: isRooted_def HasPrefix_def)
    then have "\<not> isRooted d" using settled_ups [OF settled_up(1)] settled_up(2) by blast
    then show ?thesis using False by (simp add: keepUp_def isRooted_append)
  qed
  then show ?case using settled_up by simp
next
  case (settled_comp d c fi)
  have c: "\<not> isRooted c" using settled_comp(2) by (cases c) (auto simp: isRooted_def HasPrefix_def plainComp_def)
  then have "d \<noteq> []" using settled_comp by (auto simp: appendComp_def)
  then have "isRooted d" using settled_comp.prems by (auto simp: appendComp_def isRooted_append split: if_splits)
  then obtain cs where cs: "\<forall>c \<in> set cs. plainComp c" "d = ''/'' @ Join cs ''/''"
    using settled_comp.IH by blast
  have "appendComp d c = ''/'' @ Join (cs @ [c]) ''/''"
    using cs Join_last_plain [of cs] by (cases "cs = []") (simp_all add: appendComp_def Join_append)
  then show ?case using cs settled_comp(2) by (intro exI [of _ "cs @ [c]"]) auto
qed

lemma settled_rooted_Clean: "settled root d \<Longrightarrow> isRooted d \<Longrightarrow> Clean d = d"
  using settled_rooted [of root d] Clean_rooted [of d] cleanRoot_Join by fastforce

lemma EvalSymlinks_settled:
  "EvalSymlinks root path = Inr q \<Longrightarrow> \<exists>d. q = Clean d \<and> settled root d"
  unfolding EvalSymlinks_def walkSymlinks_def
  by (auto split: if_splits dest!: walkLoop_settled simp: walkInv_def settled_empty settled_root)

context vfs_root_laws
begin

lemma settled_result:
  assumes "settled root d"
  shows "Clean d \<in> {''.'', ''/'', ''..''} \<or> HasPrefix (Clean d) ''../''
    \<or> (\<exists>fi. vLstat root (Clean d) = Inr fi \<and> \<not> isSymlink fi)"
  using assms
proof cases
  case settled_empty
  then show ?thesis by (simp add: Clean_def isRooted_def HasPrefix_def cleanStep_def)
next
  case settled_root
  then show ?thesis by (simp add: Clean_def isRooted_def HasPrefix_def cleanStep_def)
next
  case (settled_up d')
  show ?thesis
  proof (cases "d' = []")
    case True
    then show ?thesis using settled_up
      by (simp add: keepUp_def Clean_def isRooted_def HasPrefix_def cleanStep_def)
  next
    case False
    then have "HasSuffix d ''/..''" using settled_up by (simp add: keepUp_def)
    then show ?thesis using settled_ups [OF assms] Clean_ups by blast
  qed
next
  case (settled_comp d' c fi)
  have "d \<noteq> []" using settled_comp by (auto simp: appendComp_def plainComp_def)
  then have "vLstat root (Clean d) = vLstat root d"
    using lstat_clean [of d] settled_rooted_Clean [OF assms] by (cases "isRooted d") simp_all
  then show ?thesis using settled_comp by auto
qed

lemma EvalSymlinks_no_link:
  assumes "EvalSymlinks root path = Inr q"
  shows "q \<in> {''.'', ''/'', ''..''} \<or> HasPrefix q ''../''
    \<or> (\<exists>fi. vLstat root q = Inr fi \<and> \<not> isSymlink fi)"
  using EvalSymlinks_settled [OF assms] settled_result by blast

end

subsection \<open>Trees without symbolic links\<close>

text \<open>A plain directory walk: each component must exist, and all but the last be directories.\<close>

fun dirWalk :: "vfs_root \<Rightarrow> string list \<Rightarrow> string list \<Rightarrow> string res" where
  "dirWalk root seen [] = Inr (Join seen ''/'')"
| "dirWalk root seen (c # cs) =
     (case vLstat root (Join (seen @ [c]) ''/'') of
        Inl e \<Rightarrow> Inl e
      | Inr fi \<Rightarrow> if \<not> isDir fi \<and> cs \<noteq> [] then Inl ENOTDIR else dirWalk root (seen @ [c]) cs)"

lemma appendComp_Join:
  assumes "\<forall>c \<in> set as. plainComp c"
  shows "appendComp (Join as ''/'') c = Join (as @ [c]) ''/''"
  using assms Join_last_plain [of as] by (cases "as = []") (simp_all add: appendComp_def Join_append)

lemma takeWhile_Join:
  assumes "plainComp c"
  shows "takeWhile (\<lambda>x. x \<noteq> slash) (Join (c # cs) ''/'') = c"
    and "dropWhile (\<lambda>x. x = slash) (dropWhile (\<lambda>x. x \<noteq> slash) (Join (c # cs) ''/'')) =
      dropWhile (\<lambda>x. x = slash) (Join cs ''/'')"
    and "dropWhile (\<lambda>x. x \<noteq> slash) (Join (c # cs) ''/'') = [] \<longleftrightarrow> cs = []"
    and "dropWhile (\<lambda>x. x = slash) (Join (c # cs) ''/'') = Join (c # cs) ''/''"
proof -
  have c: "\<forall>x \<in> set c. x \<noteq> slash" using assms by (auto simp: plainComp_def)
  have t: "takeWhile (\<lambda>x. x \<noteq> slash) c = c" "dropWhile (\<lambda>x. x \<noteq> slash) c = []"
    using c by (auto simp: takeWhile_eq_all_conv)
  have a: "takeWhile (\<lambda>x. x \<noteq> slash) (c @ slash # s) = c"
      "dropWhile (\<lambda>x. x \<noteq> slash) (c @ slash # s) = slash # s" for s
    using c by (auto simp: takeWhile_append2 dropWhile_append2)
  show "takeWhile (\<lambda>x. x \<noteq> slash) (Join (c # cs) ''/'') = c"
    by (cases cs) (simp_all add: t a)
  show "dropWhile (\<lambda>x. x = slash) (dropWhile (\<lambda>x. x \<noteq> slash) (Join (c # cs) ''/'')) =
      dropWhile (\<lambda>x. x = slash) (Join cs ''/'')"
    by (cases cs) (simp_all add: t a)
  show "dropWhile (\<lambda>x. x \<noteq> slash) (Join (c # cs) ''/'') = [] \<longleftrightarrow> cs = []"
    by (cases cs) (simp_all add: t a)
  obtain x xs where "c = x # xs" "x \<noteq> slash" using assms by (cases c) (auto simp: plainComp_def)
  then show "dropWhile (\<lambda>x. x = slash) (Join (c # cs) ''/'') = Join (c # cs) ''/''"
    by (cases cs) simp_all
qed

lemma walkLoop_comp:
  assumes u: "dropWhile (\<lambda>x. x = slash) path = u" and c: "takeWhile (\<lambda>x. x \<noteq> slash) u = c"
    and r: "dropWhile (\<lambda>x. x \<noteq> slash) u = rest" and "plainComp c"
    and l: "vLstat root (appendComp dest c) = lst"
  shows "walkLoop g root vol n dest path =
    (case lst of
       Inl e \<Rightarrow> Inl e
     | Inr fi \<Rightarrow>
         if \<not> isSymlink fi then
           (if \<not> isDir fi \<and> rest \<noteq> [] then Inl ENOTDIR
            else walkLoop g root vol n (appendComp dest c) rest)
         else if n + 1 > maxLinks then Inl errTooManyLinks
         else (case vReadlink root (appendComp dest c) of
                 Inl e \<Rightarrow> Inl e
               | Inr link \<Rightarrow> walkLoop g root vol (n + 1)
                   (fst (followLink vol (appendComp dest c) link rest))
                   (snd (followLink vol (appendComp dest c) link rest))))"
proof -
  have "c \<noteq> []" "c \<noteq> ''.''" "c \<noteq> ''..''" using assms(4) by (auto simp: plainComp_def)
  then show ?thesis unfolding walkLoop.simps [of g root vol n dest path] Let_def u c r l by simp
qed

lemma walkLoop_plain:
  assumes "\<forall>n fi. vLstat root n = Inr fi \<longrightarrow> \<not> isSymlink fi"
    and "\<forall>c \<in> set (seen @ cs). plainComp c" and "seen @ cs \<noteq> []"
    and "dropWhile (\<lambda>x. x = slash) path = Join cs ''/''"
  shows "walkLoop g root [] k (Join seen ''/'') path = dirWalk root seen cs"
  using assms(2-)
proof (induction cs arbitrary: seen path)
  case Nil
  then show ?case
    using Clean_Join_plain [of seen]
    unfolding walkLoop.simps [of g root "[]" k "Join seen ''/''" path] Let_def Nil.prems(3) by simp
next
  case (Cons c cs)
  have c: "plainComp c" and ne: "c \<noteq> []" "c \<noteq> ''.''" "c \<noteq> ''..''" using Cons.prems by (auto simp: plainComp_def)
  note tw = takeWhile_Join [OF c, of cs]
  define r where r: "r = dropWhile (\<lambda>x. x \<noteq> slash) (Join (c # cs) ''/'')"
  have r0: "r = [] \<longleftrightarrow> cs = []" unfolding r by (rule tw(3))
  have j: "dropWhile (\<lambda>x. x = slash) (Join cs ''/'') = Join cs ''/''"
    using Cons.prems(1) takeWhile_Join(4) by (cases cs) auto
  have IH: "walkLoop g root [] k (Join (seen @ [c]) ''/'') r = dirWalk root (seen @ [c]) cs"
    using Cons.prems by (intro Cons.IH) (simp_all add: r tw(2) j)
  have d: "appendComp (Join seen ''/'') c = Join (seen @ [c]) ''/''"
    using Cons.prems by (intro appendComp_Join) auto
  note step = walkLoop_comp [OF Cons.prems(3) tw(1) r [symmetric] c, of root "Join seen ''/''" _ g "[]" k, unfolded d]
  show ?case
  proof (cases "vLstat root (Join (seen @ [c]) ''/'')")
    case (Inl e)
    then show ?thesis using step [OF Inl] by simp
  next
    case (Inr fi)
    then have "\<not> isSymlink fi" using assms(1) by blast
    then show ?thesis using Inr step [OF Inr] IH r0 by simp
  qed
qed

text \<open>
  In a tree without symbolic links, evaluating a relative path of ordinary components is a plain
  directory walk: the path itself when every component exists and all but the last are directories,
  otherwise the first lookup error, or \<open>ENOTDIR\<close> at the first component below a non-directory.
\<close>

theorem EvalSymlinks_plain:
  assumes "\<forall>n fi. vLstat root n = Inr fi \<longrightarrow> \<not> isSymlink fi"
    and "\<forall>c \<in> set cs. plainComp c" and "cs \<noteq> []"
  shows "EvalSymlinks root (Join cs ''/'') = dirWalk root [] cs"
proof -
  have j: "dropWhile (\<lambda>x. x = slash) (Join cs ''/'') = Join cs ''/''"
    using assms takeWhile_Join(4) by (cases cs) auto
  have "\<not> HasPrefix (Join cs ''/'') ''/''"
  proof
    assume "HasPrefix (Join cs ''/'') ''/''"
    then obtain t where t: "Join cs ''/'' = slash # t" by (auto elim: HasPrefixE)
    with j have "length (dropWhile (\<lambda>x. x = slash) t) = Suc (length t)" by simp
    then show False using length_dropWhile_le [of "\<lambda>x. x = slash" t] by simp
  qed
  with walkLoop_plain [OF assms(1), of "[]" cs "Join cs ''/''" True 0] assms j show ?thesis
    by (simp add: EvalSymlinks_def walkSymlinks_def)
qed

lemma walkLoop_self_link:
  assumes c: "plainComp c" and "vLstat root c = Inr fi" and "isSymlink fi" and "vReadlink root c = Inr c"
    and "n \<le> maxLinks"
  shows "walkLoop g root [] n [] c = Inl errTooManyLinks"
  using assms(5)
proof (induction "maxLinks - n" arbitrary: n)
  case 0
  note tw = takeWhile_Join [OF c, of "[]", unfolded Join.simps]
  have r: "dropWhile (\<lambda>x. x \<noteq> slash) c = []" using tw(3) by simp
  show ?case using 0 assms(2,3) walkLoop_comp [OF tw(4) tw(1) r c, of root "[]" "Inr fi" g "[]" n]
    by (simp add: appendComp_def)
next
  case (Suc m)
  note tw = takeWhile_Join [OF c, of "[]", unfolded Join.simps]
  have r: "dropWhile (\<lambda>x. x \<noteq> slash) c = []" using tw(3) by simp
  have ne: "c \<noteq> []" "hd c \<noteq> slash" "slash \<notin> set c"
    using c by (cases c; auto simp: plainComp_def)+
  have "walkLoop g root [] (n + 1) [] c = Inl errTooManyLinks" using Suc.hyps(2) by (intro Suc.hyps) auto
  then show ?case
    using Suc ne assms(2-4) walkLoop_comp [OF tw(4) tw(1) r c, of root "[]" "Inr fi" g "[]" n]
    by (simp add: appendComp_def followLink_def lastSlash_none)
qed


text \<open>A small tree, for examples: the directory \<open>public\<close> with a page, a link to it and a link to itself.\<close>

definition exampleInfo :: "file_type \<Rightarrow> file_info" where
  "exampleInfo t = \<lparr>fiType = t, fiSize = 5, fiModTime = 0\<rparr>"

definition exampleRoot :: vfs_root where
  "exampleRoot =
     \<lparr>vLstat = (\<lambda>n. if n = ''public'' then Inr (exampleInfo Directory)
                  else if n = ''public/index.html'' then Inr (exampleInfo RegularFile)
                  else if n = ''loop'' then Inr (exampleInfo Symlink)
                  else Inl ErrNotExist),
      vReadlink = (\<lambda>n. if n = ''loop'' then Inr ''loop'' else Inl errNotSymlink),
      vOpen = (\<lambda>n. if n = ''public/index.html'' then Inr \<lparr>fContent = ''hello'', fSeekable = True\<rparr>
                 else Inl ErrNotExist)\<rparr>"

theorem EvalSymlinks_plain_witness:
  "EvalSymlinks (exampleRoot\<lparr>vLstat := (vLstat exampleRoot)(''loop'' := Inl ErrNotExist)\<rparr>)
      ''public/index.html'' = Inr ''public/index.html''
    \<and> EvalSymlinks (exampleRoot\<lparr>vLstat := (vLstat exampleRoot)(''loop'' := Inl ErrNotExist)\<rparr>)
      ''public/index.html/x'' = Inl ENOTDIR"
proof -
  let ?r = "exampleRoot\<lparr>vLstat := (vLstat exampleRoot)(''loop'' := Inl ErrNotExist)\<rparr>"
  have h: "\<forall>n fi. vLstat ?r n = Inr fi \<longrightarrow> \<not> isSymlink fi"
    by (auto simp: exampleRoot_def exampleInfo_def isSymlink_def split: if_splits)
  have p: "\<forall>c \<in> set [''public'', ''index.html'']. plainComp c"
    "\<forall>c \<in> set [''public'', ''index.html'', ''x'']. plainComp c" by (simp_all add: plainComp_def)
  have "dirWalk ?r [] [''public'', ''index.html''] = Inr ''public/index.html''"
    "dirWalk ?r [] [''public'', ''index.html'', ''x''] = Inl ENOTDIR" by code_simp+
  then show ?thesis using EvalSymlinks_plain [OF h p(1)] EvalSymlinks_plain [OF h p(2)] by simp
qed


end
