(* ===== verification/Redirects.thy ===== *)
theory Redirects
  imports Http Vfs
begin

text \<open>
  Package \<open>internal/redirects\<close>: the rules of a site's \<open>_redirects\<close> file, their validation, the
  matching of a request path against them and the URL a matching rule leads to.

  The parser of the file (\<open>github.com/tj/go-redirects\<close>) is a parameter.  The regular expressions
  the code builds are sequences of literals and greedy repetitions of a character class, anchored
  at both ends; \<open>rxMatch\<close> is Go's leftmost-first matching on that fragment (the longest
  repetition is tried first), and \<open>rxRel\<close> is the relation it decides.  Patterns and paths are taken
  to be valid UTF-8, and case-insensitivity is that of ASCII letters.
\<close>

named_theorems redirect_simps \<open>unfolding rules for redirect validation and matching\<close>

definition maxConfigSize :: int where "maxConfigSize = 64 * 1024"

definition maxPathSegments :: nat where "maxPathSegments = 25"

definition maxRuleCount :: nat where "maxRuleCount = 1000"

definition ConfigFile :: string where "ConfigFile = ''_redirects''"

datatype redirect_error =
    ErrNoRedirect
  | errConfigNotFound
  | errNeedRegularFile
  | errFileTooLarge
  | errFailedToOpenConfig
  | errFailedToParseConfig
  | errFailedToParseURL
  | errNoDomainLevelRedirects
  | errNoStartingForwardSlashInURLPath
  | errNoSplats
  | errNoPlaceholders
  | errNoParams
  | errUnsupportedStatus
  | errNoForce
  | errTooManyPathSegments
  | errURL

text \<open>\<open>netlifyRedirects.Rule\<close>.\<close>

record rule =
  rlFrom :: string
  rlTo :: string
  rlStatus :: int
  rlForce :: bool
  rlParams :: "(string \<times> string) list option"

record redirects =
  rdRules :: "rule list"
  rdError :: "redirect_error option"

definition normalizePath :: "string \<Rightarrow> string" where
  "normalizePath path = TrimSuffix path ''/'' @ ''/''"

subsection \<open>The regular expressions of the package\<close>

text \<open>\<open>(?i)/:[a-z]+\<close>, \<open>(?i)\*|:[a-z]+\<close>, \<open>(?i)^:[a-z]+$\<close> and \<open>^\*$\<close>.\<close>

fun regexpPlaceholder :: "string \<Rightarrow> bool" where
  "regexpPlaceholder (a # b # c # s) =
     ((a = slash \<and> b = CHR '':'' \<and> isLetter c) \<or> regexpPlaceholder (b # c # s))"
| "regexpPlaceholder _ = False"

fun regexPlaceholderOrSplats :: "string \<Rightarrow> bool" where
  "regexPlaceholderOrSplats [] = False"
| "regexPlaceholderOrSplats [a] = (a = CHR ''*'')"
| "regexPlaceholderOrSplats (a # b # s) =
     (a = CHR ''*'' \<or> (a = CHR '':'' \<and> isLetter b) \<or> regexPlaceholderOrSplats (b # s))"

definition regexPlaceholder :: "string \<Rightarrow> bool" where
  "regexPlaceholder s \<longleftrightarrow>
     (case s of [] \<Rightarrow> False | c # n \<Rightarrow> c = CHR '':'' \<and> n \<noteq> [] \<and> list_all isLetter n)"

definition regexSplat :: "string \<Rightarrow> bool" where
  "regexSplat s \<longleftrightarrow> s = ''*''"

text \<open>\<open>regexPlaceholderReplacement.ReplaceAllString(to, "${$placeholder}")\<close>: every \<open>:name\<close> becomes
  \<open>${name}\<close>.\<close>

function replacePlaceholders :: "string \<Rightarrow> string" where
  "replacePlaceholders [] = []"
| "replacePlaceholders (c # s) =
     (if c = CHR '':'' \<and> takeWhile isLetter s \<noteq> []
      then ''${'' @ takeWhile isLetter s @ ''}'' @ replacePlaceholders (dropWhile isLetter s)
      else c # replacePlaceholders s)"
  by pat_completeness auto
termination
  by (relation "measure length") (auto simp: le_imp_less_Suc length_dropWhile_le)

text \<open>\<open>regexMultipleSlashes.ReplaceAll(path, "/")\<close>.\<close>

fun collapseSlashes :: "string \<Rightarrow> string" where
  "collapseSlashes (a # b # s) =
     (if a = slash \<and> b = slash then collapseSlashes (b # s) else a # collapseSlashes (b # s))"
| "collapseSlashes s = s"

datatype char_class = SlashClass | NonSlashClass | AnyButNewline

fun inClass :: "char_class \<Rightarrow> char \<Rightarrow> bool" where
  "inClass SlashClass c = (c = slash)"
| "inClass NonSlashClass c = (c \<noteq> slash)"
| "inClass AnyButNewline c = (c \<noteq> CHR 0x0A)"

text \<open>A literal, or a repetition of at least so many characters of a class, maybe captured under a
  name.\<close>

datatype atom = Lit string | Rep nat char_class "string option"

type_synonym captures = "(string \<times> string) list"

definition addCapture :: "string option \<Rightarrow> string \<Rightarrow> captures \<Rightarrow> captures" where
  "addCapture cap u cs = (case cap of None \<Rightarrow> cs | Some n \<Rightarrow> (n, u) # cs)"

text \<open>\<open>tryDown f k n\<close> is the first result of \<open>f n, f (n - 1), \<dots>, f k\<close>.\<close>

fun tryDown :: "(nat \<Rightarrow> 'a option) \<Rightarrow> nat \<Rightarrow> nat \<Rightarrow> 'a option" where
  "tryDown f k 0 = (if k = 0 then f 0 else None)"
| "tryDown f k (Suc n) =
     (if Suc n < k then None
      else case f (Suc n) of Some r \<Rightarrow> Some r | None \<Rightarrow> tryDown f k n)"

fun rxMatch :: "atom list \<Rightarrow> string \<Rightarrow> captures option" where
  "rxMatch [] s = (if s = [] then Some [] else None)"
| "rxMatch (Lit t # as) s =
     (if ToLower (take (length t) s) = ToLower t then rxMatch as (drop (length t) s) else None)"
| "rxMatch (Rep k c cap # as) s =
     tryDown (\<lambda>n. map_option (addCapture cap (take n s)) (rxMatch as (drop n s)))
       k (length (takeWhile (inClass c) s))"

subsection \<open>Expanding the "to" path\<close>

definition isWordByte :: "char \<Rightarrow> bool" where
  "isWordByte c \<longleftrightarrow> isLetter c \<or> isDigit c \<or> c = CHR ''_''"

text \<open>The number a reference name stands for, if it does: no leading zero, and at most nine
  digits, the limit of \<open>regexp\<close>.\<close>

fun nameNumber :: "nat \<Rightarrow> string \<Rightarrow> nat option" where
  "nameNumber n [] = Some n"
| "nameNumber n (c # s) =
     (if \<not> isDigit c \<or> n \<ge> 100000000 then None else nameNumber (10 * n + (of_char c - 48)) s)"

definition refNumber :: "string \<Rightarrow> nat option" where
  "refNumber name =
     (if HasPrefix name ''0'' \<and> length name > 1 then None else nameNumber 0 name)"

text \<open>\<open>extract\<close> of package \<open>regexp\<close>: the text after a dollar sign as a reference, with the rest;
  \<open>None\<close> when it is not one.\<close>

definition extractRef :: "string \<Rightarrow> (string \<times> string) option" where
  "extractRef s =
     (if s = [] then None
      else if HasPrefix s ''{'' then
        (let name = takeWhile isWordByte (drop 1 s);
             rest = dropWhile isWordByte (drop 1 s)
         in if name = [] \<or> \<not> HasPrefix rest ''}'' then None else Some (name, drop 1 rest))
      else
        (let name = takeWhile isWordByte s
         in if name = [] then None else Some (name, dropWhile isWordByte s)))"

definition captureValue :: "string \<Rightarrow> captures \<Rightarrow> string \<Rightarrow> string" where
  "captureValue whole cs name =
     (case refNumber name of
        Some n \<Rightarrow> (if n = 0 then whole else if n \<le> length cs then snd (cs ! (n - 1)) else [])
      | None \<Rightarrow> (case map_of cs name of None \<Rightarrow> [] | Some v \<Rightarrow> v))"

lemma length_extractRef: "extractRef s = Some (name, rest) \<Longrightarrow> length rest < Suc (length s)"
proof -
  have "length (dropWhile isWordByte (drop 1 s)) \<le> length (drop 1 s)"
    and "length (dropWhile isWordByte s) \<le> length s"
    by (rule length_dropWhile_le)+
  then show "extractRef s = Some (name, rest) \<Longrightarrow> length rest < Suc (length s)"
    by (auto simp: extractRef_def Let_def split: if_splits)
qed

text \<open>\<open>Regexp.ExpandString\<close>: \<open>$$\<close> is a dollar sign, \<open>$name\<close> and \<open>${name}\<close> are references, and a
  dollar sign that starts none of these is left as it is.\<close>

function expandTemplate :: "string \<Rightarrow> captures \<Rightarrow> string \<Rightarrow> string" where
  "expandTemplate whole cs [] = []"
| "expandTemplate whole cs (c # s) =
     (if c \<noteq> CHR ''$'' then c # expandTemplate whole cs s
      else if HasPrefix s ''$'' then CHR ''$'' # expandTemplate whole cs (drop 1 s)
      else (case extractRef s of
          None \<Rightarrow> CHR ''$'' # expandTemplate whole cs s
        | Some (name, rest) \<Rightarrow> captureValue whole cs name @ expandTemplate whole cs rest))"
  by pat_completeness auto
termination
  by (relation "measure (\<lambda>(_, _, s). length s)") (auto dest: length_extractRef)

subsection \<open>matchesRule\<close>

text \<open>The loop over \<open>strings.Split(rule.From, "/")\<close>, one regular expression piece per segment.\<close>

definition segmentAtoms :: "string \<Rightarrow> atom list" where
  "segmentAtoms segment =
     (if segment = [] then []
      else if regexSplat segment then
        [Rep 0 SlashClass None, Rep 0 AnyButNewline (Some ''splat''), Rep 0 SlashClass None]
      else if regexPlaceholder segment then
        [Rep 1 SlashClass None, Rep 1 NonSlashClass (Some (drop 1 segment))]
      else [Rep 1 SlashClass None, Lit segment])"

definition fromRegex :: "string \<Rightarrow> atom list" where
  "fromRegex from = concat (map segmentAtoms (Split slash from)) @ [Rep 0 SlashClass None]"

definition matchesRule :: "environ \<Rightarrow> rule \<Rightarrow> string \<Rightarrow> bool \<times> string" where
  "matchesRule getenv rule path =
     (if normalizePath (rlFrom rule) = normalizePath path \<and> \<not> regexPlaceholderOrSplats (rlTo rule)
      then (True, rlTo rule)
      else if \<not> Enabled getenv RedirectsPlaceholders then (False, [])
      else (case rxMatch (fromRegex (rlFrom rule)) path of
          None \<Rightarrow> (False, [])
        | Some cs \<Rightarrow>
            (True, collapseSlashes (expandTemplate path cs (replacePlaceholders (rlTo rule))))))"

subsection \<open>Validation\<close>

definition validateURL :: "environ \<Rightarrow> string \<Rightarrow> redirect_error option" where
  "validateURL getenv urlText =
     (case ParseURL urlText of
        None \<Rightarrow> Some errFailedToParseURL
      | Some u \<Rightarrow>
          (if uHost u \<noteq> [] \<or> uScheme u \<noteq> [] then Some errNoDomainLevelRedirects
           else if \<not> HasPrefix (uPath u) ''/'' then Some errNoStartingForwardSlashInURLPath
           else if Enabled getenv RedirectsPlaceholders then
             (if Count (uPath u) slash > maxPathSegments then Some errTooManyPathSegments else None)
           else if ContainsByte (uPath u) (CHR ''*'') then Some errNoSplats
           else if regexpPlaceholder (uPath u) then Some errNoPlaceholders
           else None))"

definition validateRule :: "environ \<Rightarrow> rule \<Rightarrow> redirect_error option" where
  "validateRule getenv r =
     (case validateURL getenv (rlFrom r) of
        Some e \<Rightarrow> Some e
      | None \<Rightarrow>
          (case validateURL getenv (rlTo r) of
             Some e \<Rightarrow> Some e
           | None \<Rightarrow>
               (if rlParams r \<noteq> None then Some errNoParams
                else if rlStatus r \<notin> {200, 301, 302} then Some errUnsupportedStatus
                else if rlForce r then Some errNoForce
                else None)))"

subsection \<open>match, Rewrite, Status, ParseRedirects\<close>

fun matchFrom :: "environ \<Rightarrow> nat \<Rightarrow> rule list \<Rightarrow> string \<Rightarrow> (rule \<times> string) option" where
  "matchFrom getenv i [] path = None"
| "matchFrom getenv i (rule # rules) path =
     (if i \<ge> maxRuleCount then None
      else if validateRule getenv rule \<noteq> None then matchFrom getenv (Suc i) rules path
      else (case matchesRule getenv rule path of
          (True, to) \<Rightarrow> Some (rule, to)
        | (False, _) \<Rightarrow> matchFrom getenv (Suc i) rules path))"

definition match :: "environ \<Rightarrow> redirects \<Rightarrow> string \<Rightarrow> (rule \<times> string) option" where
  "match getenv r path = matchFrom getenv 0 (rdRules r) path"

definition Rewrite :: "environ \<Rightarrow> redirects \<Rightarrow> url \<Rightarrow> redirect_error + (url \<times> int)" where
  "Rewrite getenv r originalURL =
     (case match getenv r (uPath originalURL) of
        None \<Rightarrow> Inl ErrNoRedirect
      | Some (rule, newPath) \<Rightarrow>
          (case ParseURL newPath of
             None \<Rightarrow> Inl errURL
           | Some newURL \<Rightarrow> Inr (newURL, rlStatus rule)))"

fun errorText :: "redirect_error \<Rightarrow> string" where
  "errorText ErrNoRedirect = ''no redirect found''"
| "errorText errConfigNotFound = ''_redirects file not found''"
| "errorText errNeedRegularFile = ''_redirects needs to be a regular file (not a directory)''"
| "errorText errFileTooLarge = ''_redirects file too large''"
| "errorText errFailedToOpenConfig = ''unable to open _redirects file''"
| "errorText errFailedToParseConfig = ''failed to parse _redirects file''"
| "errorText errFailedToParseURL = ''unable to parse URL''"
| "errorText errNoDomainLevelRedirects = ''no domain-level redirects to outside sites''"
| "errorText errNoStartingForwardSlashInURLPath = ''url path must start with forward slash /''"
| "errorText errNoSplats = ''splats are not supported''"
| "errorText errNoPlaceholders = ''placeholders are not supported''"
| "errorText errNoParams = ''params not supported''"
| "errorText errUnsupportedStatus = ''status not supported''"
| "errorText errNoForce = ''force! not supported''"
| "errorText errTooManyPathSegments =
     ''url path cannot contain more than '' @ decimal maxPathSegments @ '' forward slashes''"
| "errorText errURL = ''parse''"

fun statusMessages :: "environ \<Rightarrow> nat \<Rightarrow> nat \<Rightarrow> rule list \<Rightarrow> string list \<Rightarrow> string list" where
  "statusMessages getenv nrules i [] messages = messages"
| "statusMessages getenv nrules i (rule # rules) messages =
     (if i \<ge> maxRuleCount then
        (''The _redirects file contains ('' @ decimal nrules @ '') rules, more than the maximum of ''
          @ decimal maxRuleCount @ '' rules. Only the first '' @ decimal maxRuleCount
          @ '' rules will be processed.'') # messages
      else (case validateRule getenv rule of
          Some err \<Rightarrow>
            statusMessages getenv nrules (Suc i) rules
              (messages @ [''rule '' @ decimal (i + 1) @ '': error: '' @ errorText err])
        | None \<Rightarrow>
            statusMessages getenv nrules (Suc i) rules
              (messages @ [''rule '' @ decimal (i + 1) @ '': valid''])))"

definition Status :: "environ \<Rightarrow> redirects \<Rightarrow> string" where
  "Status getenv r =
     (case rdError r of
        Some e \<Rightarrow> ''parse error: '' @ errorText e
      | None \<Rightarrow>
          (let n = length (rdRules r)
           in Join (statusMessages getenv n 0 (rdRules r) [decimal n @ '' rules'']) ''\<newline>''))"

definition failedRedirects :: "redirect_error \<Rightarrow> redirects" where
  "failedRedirects e = \<lparr>rdRules = [], rdError = Some e\<rparr>"

definition ParseRedirects :: "(string \<Rightarrow> rule list option) \<Rightarrow> vfs_root \<Rightarrow> redirects" where
  "ParseRedirects parse root =
     (case vLstat root ConfigFile of
        Inl _ \<Rightarrow> failedRedirects errConfigNotFound
      | Inr fi \<Rightarrow>
          (if \<not> isRegular fi then failedRedirects errNeedRegularFile
           else if fiSize fi > maxConfigSize then failedRedirects errFileTooLarge
           else (case vOpen root ConfigFile of
               Inl _ \<Rightarrow> failedRedirects errFailedToOpenConfig
             | Inr reader \<Rightarrow>
                 (case parse (fContent reader) of
                    None \<Rightarrow> failedRedirects errFailedToParseConfig
                  | Some rules \<Rightarrow> \<lparr>rdRules = rules, rdError = None\<rparr>))))"

subsection \<open>The relation the matcher decides\<close>

fun rxRel :: "atom list \<Rightarrow> string \<Rightarrow> captures \<Rightarrow> bool" where
  "rxRel [] s cs = (s = [] \<and> cs = [])"
| "rxRel (Lit t # as) s cs = (\<exists>u v. s = u @ v \<and> ToLower u = ToLower t \<and> rxRel as v cs)"
| "rxRel (Rep k c cap # as) s cs =
     (\<exists>u v cs'. s = u @ v \<and> k \<le> length u \<and> list_all (inClass c) u \<and> rxRel as v cs'
        \<and> cs = addCapture cap u cs')"

lemma tryDown_Some:
  "tryDown f k n = Some r \<Longrightarrow> \<exists>m. k \<le> m \<and> m \<le> n \<and> f m = Some r"
proof (induction n)
  case 0
  then show ?case by (auto split: if_splits)
next
  case (Suc n)
  show ?case
  proof (cases "f (Suc n)")
    case None
    with Suc have "\<exists>m. k \<le> m \<and> m \<le> n \<and> f m = Some r" by (simp split: if_splits)
    then show ?thesis using le_SucI by blast
  next
    case (Some x)
    with Suc.prems have "k \<le> Suc n" and "x = r" by (simp_all split: if_splits)
    with Some show ?thesis by blast
  qed
qed

lemma tryDown_None: "tryDown f k n = None \<longleftrightarrow> (\<forall>m. k \<le> m \<and> m \<le> n \<longrightarrow> f m = None)"
proof (induction n)
  case 0
  then show ?case by auto
next
  case (Suc n)
  show ?case
  proof (cases "f (Suc n)")
    case None
    with Suc show ?thesis by (auto simp: le_Suc_eq)
  next
    case (Some x)
    then show ?thesis by (auto intro: exI [of _ "Suc n"] simp: not_less)
  qed
qed

lemma takeWhile_len: "m \<le> length (takeWhile P s) \<longleftrightarrow> m \<le> length s \<and> list_all P (take m s)"
proof (induction s arbitrary: m)
  case Nil
  then show ?case by simp
next
  case (Cons a s)
  then show ?case by (cases m) auto
qed

lemma rxMatch_sound: "rxMatch as s = Some cs \<Longrightarrow> rxRel as s cs"
proof (induction as s arbitrary: cs rule: rxMatch.induct)
  case (1 s)
  then show ?case by (simp split: if_splits)
next
  case (2 t as s)
  then have "rxRel as (drop (length t) s) cs" and "ToLower (take (length t) s) = ToLower t"
    by (auto split: if_splits)
  then show ?case
    unfolding rxRel.simps by (intro exI [of _ "take (length t) s"] exI [of _ "drop (length t) s"]) simp
next
  case (3 k c cap as s)
  from tryDown_Some [OF 3(2) [unfolded rxMatch.simps]]
  obtain m where m: "k \<le> m" "m \<le> length (takeWhile (inClass c) s)"
    and r: "map_option (addCapture cap (take m s)) (rxMatch as (drop m s)) = Some cs"
    by blast
  from r obtain cs' where "rxMatch as (drop m s) = Some cs'" and cs: "cs = addCapture cap (take m s) cs'"
    by auto
  with 3(1) have "rxRel as (drop m s) cs'" by blast
  moreover have "m \<le> length s" "list_all (inClass c) (take m s)"
    using m(2) by (auto simp: takeWhile_len)
  ultimately show ?case
    unfolding rxRel.simps using m(1) cs
    by (intro exI [of _ "take m s"] exI [of _ "drop m s"] exI [of _ cs']) simp
qed

lemma rxMatch_complete: "rxMatch as s = None \<Longrightarrow> \<not> rxRel as s cs"
proof (induction as s arbitrary: cs rule: rxMatch.induct)
  case (1 s)
  then show ?case by (simp split: if_splits)
next
  case (2 t as s)
  show ?case
  proof
    assume "rxRel (Lit t # as) s cs"
    then obtain u v where s: "s = u @ v" and u: "ToLower u = ToLower t" and v: "rxRel as v cs"
      by auto
    from u have "length u = length t" using length_ToLower by metis
    with s u have "ToLower (take (length t) s) = ToLower t" and "drop (length t) s = v" by auto
    with 2 v show False by auto
  qed
next
  case (3 k c cap as s)
  show ?case
  proof
    assume "rxRel (Rep k c cap # as) s cs"
    then obtain u v cs' where s: "s = u @ v" and k: "k \<le> length u" and c: "list_all (inClass c) u"
      and v: "rxRel as v cs'" by auto
    have "length u \<le> length (takeWhile (inClass c) s)" using s c by (simp add: takeWhile_len)
    with 3(2) k have "rxMatch as (drop (length u) s) = None" by (auto simp: tryDown_None)
    with s v 3(1) [of "length u"] show False by simp
  qed
qed

lemma rxMatch_None_iff: "rxMatch as s = None \<longleftrightarrow> (\<forall>cs. \<not> rxRel as s cs)"
  using rxMatch_complete rxMatch_sound by (metis not_None_eq)

subsection \<open>Rules without a splat match segment by segment\<close>

definition segments :: "string \<Rightarrow> string list" where
  "segments p = filter (\<lambda>x. x \<noteq> []) (Split slash p)"

lemma segments_Nil [simp]: "segments [] = []"
  by (simp add: segments_def)

lemma segments_slash [simp]: "segments (slash # s) = segments s"
  by (simp add: segments_def)

lemma segments_slashes: "list_all (inClass SlashClass) u \<Longrightarrow> segments (u @ s) = segments s"
  by (induction u) auto

lemma segments_one: "u \<noteq> [] \<Longrightarrow> slash \<notin> set u \<Longrightarrow> segments u = [u]"
  by (simp add: segments_def Split_id)

lemma segments_append: "u \<noteq> [] \<Longrightarrow> slash \<notin> set u \<Longrightarrow> x = [] \<or> HasPrefix x ''/'' \<Longrightarrow> segments (u @ x) = u # segments x"
  by (auto simp: segments_def Split_id Split_append_sep elim!: HasPrefixE)

lemma segments_head:
  assumes "segments v = y # ys" and "\<not> HasPrefix v ''/''"
  obtains x where "v = y @ x" "x = [] \<or> HasPrefix x ''/''" "segments x = ys" "y \<noteq> []" "slash \<notin> set y"
proof -
  let ?y = "takeWhile (\<lambda>c. c \<noteq> slash) v" and ?x = "dropWhile (\<lambda>c. c \<noteq> slash) v"
  have v: "v = ?y @ ?x" by simp
  have "v \<noteq> []" using assms(1) by auto
  with assms(2) have "?y \<noteq> []" by (cases v) (auto simp: HasPrefix_def)
  moreover have "slash \<notin> set ?y" by (auto dest: set_takeWhileD)
  moreover have x: "?x = [] \<or> HasPrefix ?x ''/''"
    using hd_dropWhile [of "\<lambda>c. c \<noteq> slash" v] by (cases ?x) (auto simp: HasPrefix_def)
  ultimately have "segments v = ?y # segments ?x"
    using segments_append [of ?y ?x] by simp
  with assms(1) show thesis
    using that [of ?x] v x \<open>?y \<noteq> []\<close> \<open>slash \<notin> set ?y\<close> by simp
qed

definition segmentMatches :: "string \<Rightarrow> string \<Rightarrow> bool" where
  "segmentMatches pat seg \<longleftrightarrow> regexPlaceholder pat \<or> ToLower pat = ToLower seg"

definition segmentCaptures :: "string list \<Rightarrow> string list \<Rightarrow> captures" where
  "segmentCaptures pats segs =
     map (\<lambda>(p, s). (drop 1 p, s)) (filter (\<lambda>(p, s). regexPlaceholder p) (zip pats segs))"

definition plainPattern :: "string \<Rightarrow> bool" where
  "plainPattern p \<longleftrightarrow> p \<noteq> [] \<and> slash \<notin> set p \<and> \<not> regexSplat p"

lemma toLowerByte_slash: "toLowerByte c = slash \<longleftrightarrow> c = slash"
proof
  assume "toLowerByte c = slash"
  then have "of_char (toLowerByte c) = (47::nat)" by simp
  then have "\<not> isUpper c"
    by (auto simp: toLowerByte_def isUpper_def)
  with \<open>toLowerByte c = slash\<close> show "c = slash" by (simp add: toLowerByte_def)
qed (simp add: toLowerByte_def isUpper_def)

lemma ToLower_no_slash: "ToLower u = ToLower t \<Longrightarrow> slash \<notin> set t \<Longrightarrow> slash \<notin> set u"
proof
  assume eq: "ToLower u = ToLower t" and t: "slash \<notin> set t" and u: "slash \<in> set u"
  then have "slash \<in> set (ToLower t)"
    using toLowerByte_slash by (metis ToLower_def image_eqI list.set_map)
  then obtain c where "c \<in> set t" and "toLowerByte c = slash" by (auto simp: ToLower_def)
  with t show False by (simp add: toLowerByte_slash)
qed

lemma ToLower_Nil_iff: "ToLower u = ToLower t \<Longrightarrow> t \<noteq> [] \<Longrightarrow> u \<noteq> []"
  by (auto simp: ToLower_def)

text \<open>The regular expression of segments \<open>pats\<close> and the final \<open>/*$\<close>.\<close>

definition segRegex :: "string list \<Rightarrow> atom list" where
  "segRegex pats = concat (map segmentAtoms pats) @ [Rep 0 SlashClass None]"

lemma concat_segmentAtoms_filter:
  "concat (map segmentAtoms ps) = concat (map segmentAtoms (filter (\<lambda>x. x \<noteq> []) ps))"
  by (induction ps) (auto simp: segmentAtoms_def)

lemma fromRegex_segRegex: "fromRegex from = segRegex (segments from)"
  unfolding fromRegex_def segRegex_def segments_def by (subst concat_segmentAtoms_filter) (rule refl)

definition rootedIf :: "string list \<Rightarrow> string \<Rightarrow> bool" where
  "rootedIf pats s \<longleftrightarrow> pats = [] \<or> HasPrefix s ''/''"

lemma segments_Nil_iff: "segments s = [] \<longleftrightarrow> list_all (inClass SlashClass) s"
proof (induction s)
  case Nil
  then show ?case by simp
next
  case (Cons a s)
  show ?case
  proof (cases "a = slash")
    case True
    with Cons show ?thesis by simp
  next
    case False
    then show ?thesis by (cases "Split slash s") (auto simp: segments_def)
  qed
qed

text \<open>What one segment consumes, after at least one slash.\<close>

definition consumes :: "string \<Rightarrow> string \<Rightarrow> bool" where
  "consumes p w \<longleftrightarrow> w \<noteq> [] \<and> slash \<notin> set w \<and> segmentMatches p w"

lemma inClass_NonSlash: "list_all (inClass NonSlashClass) w \<longleftrightarrow> slash \<notin> set w"
  by (induction w) auto

lemma Rep1_slash: "1 \<le> length u \<longleftrightarrow> u \<noteq> []" for u :: string
  by (cases u) auto

lemma rxRel_slashes:
  "rxRel (Rep 1 SlashClass None # as) s cs \<longleftrightarrow>
    (\<exists>u v. s = u @ v \<and> u \<noteq> [] \<and> list_all (inClass SlashClass) u \<and> rxRel as v cs)"
  by (simp only: rxRel.simps addCapture_def option.case Rep1_slash) blast

lemma rxRel_segmentBody:
  assumes "plainPattern p"
  shows "\<exists>b. segmentAtoms p = Rep 1 SlashClass None # b \<and>
    (\<forall>as s cs. rxRel (b @ as) s cs \<longleftrightarrow>
      (\<exists>w x cs'. s = w @ x \<and> consumes p w \<and> rxRel as x cs'
         \<and> cs = (if regexPlaceholder p then (drop 1 p, w) # cs' else cs')))"
proof (cases "regexPlaceholder p")
  case True
  with assms have "segmentAtoms p = [Rep 1 SlashClass None, Rep 1 NonSlashClass (Some (drop 1 p))]"
    by (simp add: segmentAtoms_def plainPattern_def)
  moreover have "1 \<le> length w \<and> list_all (inClass NonSlashClass) w \<longleftrightarrow> consumes p w" for w
    using True by (simp add: Rep1_slash consumes_def segmentMatches_def inClass_NonSlash del: One_nat_def)
  ultimately show ?thesis using True
    by (auto simp: addCapture_def simp del: One_nat_def)
next
  case False
  with assms have "segmentAtoms p = [Rep 1 SlashClass None, Lit p]"
    by (simp add: segmentAtoms_def plainPattern_def)
  moreover have "ToLower w = ToLower p \<longleftrightarrow> consumes p w" for w
    using False assms ToLower_no_slash [of w p] ToLower_Nil_iff [of w p]
    by (auto simp: consumes_def segmentMatches_def plainPattern_def)
  ultimately show ?thesis using False by simp
qed

lemma rxRel_segment:
  assumes "plainPattern p"
  shows "rxRel (segmentAtoms p @ as) s cs \<longleftrightarrow>
    (\<exists>u w x cs'. s = u @ w @ x \<and> u \<noteq> [] \<and> list_all (inClass SlashClass) u \<and> consumes p w
       \<and> rxRel as x cs' \<and> cs = (if regexPlaceholder p then (drop 1 p, w) # cs' else cs'))"
proof -
  obtain b where b: "segmentAtoms p = Rep 1 SlashClass None # b"
    and body: "\<And>as s cs. rxRel (b @ as) s cs \<longleftrightarrow>
      (\<exists>w x cs'. s = w @ x \<and> consumes p w \<and> rxRel as x cs'
         \<and> cs = (if regexPlaceholder p then (drop 1 p, w) # cs' else cs'))"
    using rxRel_segmentBody [OF assms] by blast
  show ?thesis
    unfolding b append_Cons rxRel_slashes body by blast
qed

lemma dropWhile_slash: "\<not> HasPrefix (dropWhile (\<lambda>c. c = slash) s) ''/''"
  by (induction s) (auto simp: HasPrefix_def)

lemma rxRel_segRegex:
  assumes "list_all plainPattern pats"
  shows "rxRel (segRegex pats) s cs \<longleftrightarrow>
    rootedIf pats s \<and> list_all2 segmentMatches pats (segments s)
      \<and> cs = segmentCaptures pats (segments s)"
  using assms
proof (induction pats arbitrary: s cs)
  case Nil
  then show ?case
    by (auto simp: segRegex_def rootedIf_def segmentCaptures_def addCapture_def segments_Nil_iff)
next
  case (Cons p pats)
  then have p: "plainPattern p" and IH: "\<And>s cs. rxRel (segRegex pats) s cs \<longleftrightarrow>
    rootedIf pats s \<and> list_all2 segmentMatches pats (segments s)
      \<and> cs = segmentCaptures pats (segments s)" by auto
  let ?cap = "\<lambda>w cs'. if regexPlaceholder p then (drop 1 p, w) # cs' else cs'"
  have step: "rxRel (segRegex (p # pats)) s cs \<longleftrightarrow>
    (\<exists>u w x. s = u @ w @ x \<and> u \<noteq> [] \<and> list_all (inClass SlashClass) u \<and> consumes p w
       \<and> rootedIf pats x \<and> list_all2 segmentMatches pats (segments x)
       \<and> cs = ?cap w (segmentCaptures pats (segments x)))"
    using rxRel_segment [OF p, of "segRegex pats" s cs] by (simp add: segRegex_def [symmetric] segRegex_def [of "p # pats"] IH del: rxRel.simps)
  show ?case
  proof
    assume "rxRel (segRegex (p # pats)) s cs"
    then obtain u w x where s: "s = u @ w @ x" and u: "u \<noteq> []" "list_all (inClass SlashClass) u"
      and w: "consumes p w" and x: "rootedIf pats x" "list_all2 segmentMatches pats (segments x)"
      and cs: "cs = ?cap w (segmentCaptures pats (segments x))"
      unfolding step by blast
    have "x = [] \<or> HasPrefix x ''/''"
    proof (cases pats)
      case Nil
      with x(2) have "list_all (inClass SlashClass) x" by (simp add: segments_Nil_iff)
      then show ?thesis by (cases x) (auto simp: HasPrefix_def)
    qed (use x(1) in \<open>auto simp: rootedIf_def\<close>)
    with w have "segments (w @ x) = w # segments x"
      by (intro segments_append) (auto simp: consumes_def)
    then have "segments s = w # segments x" using segments_slashes [OF u(2)] s by simp
    moreover have "HasPrefix s ''/''" using s u by (cases u) (auto simp: HasPrefix_def)
    ultimately show "rootedIf (p # pats) s \<and> list_all2 segmentMatches (p # pats) (segments s)
      \<and> cs = segmentCaptures (p # pats) (segments s)"
      using w x(2) cs by (auto simp: rootedIf_def consumes_def segmentCaptures_def)
  next
    assume h: "rootedIf (p # pats) s \<and> list_all2 segmentMatches (p # pats) (segments s)
      \<and> cs = segmentCaptures (p # pats) (segments s)"
    then obtain y ys where ys: "segments s = y # ys" and m: "segmentMatches p y"
      "list_all2 segmentMatches pats ys" by (auto simp: list_all2_Cons1)
    let ?u = "takeWhile (\<lambda>c. c = slash) s" and ?v = "dropWhile (\<lambda>c. c = slash) s"
    have u: "list_all (inClass SlashClass) ?u" by (auto simp: list_all_iff dest: set_takeWhileD)
    have u0: "?u \<noteq> []" using h by (cases s) (auto simp: rootedIf_def HasPrefix_def)
    have s: "s = ?u @ ?v" by simp
    have "segments ?v = y # ys" using ys segments_slashes [OF u, of ?v] s by simp
    moreover have "\<not> HasPrefix ?v ''/''" by (rule dropWhile_slash)
    ultimately obtain x where v: "?v = y @ x" and x: "x = [] \<or> HasPrefix x ''/''"
      and xs: "segments x = ys" and y: "y \<noteq> []" "slash \<notin> set y"
      by (rule segments_head)
    have "rootedIf pats x" using x xs m(2) by (auto simp: rootedIf_def)
    moreover have "cs = ?cap y (segmentCaptures pats (segments x))"
      using h ys xs by (simp add: segmentCaptures_def)
    moreover have "consumes p y" using y m(1) by (simp add: consumes_def)
    ultimately show "rxRel (segRegex (p # pats)) s cs"
      unfolding step using u u0 v xs m(2)
      by (intro exI [of _ ?u] exI [of _ y] exI [of _ x]) (simp flip: v)
  qed
qed

lemma rxMatch_segRegex:
  assumes "list_all plainPattern pats"
  shows "rxMatch (segRegex pats) s =
    (if rootedIf pats s \<and> list_all2 segmentMatches pats (segments s)
     then Some (segmentCaptures pats (segments s)) else None)"
proof (cases "rxMatch (segRegex pats) s")
  case None
  then show ?thesis using rxRel_segRegex [OF assms] by (auto simp: rxMatch_None_iff)
next
  case (Some cs)
  then show ?thesis using rxMatch_sound [OF Some] rxRel_segRegex [OF assms] by auto
qed

lemma segments_snoc: "segments (t @ ''/'') = segments t"
  by (simp add: segments_def Split_append)

lemma segments_TrimSuffix: "segments (TrimSuffix x ''/'') = segments x"
proof (cases "HasSuffix x ''/''")
  case True
  then obtain t where "x = t @ ''/''" by (auto simp: HasSuffix_iff_suffix suffix_def)
  then show ?thesis by (simp only: TrimSuffix_append segments_snoc)
next
  case False
  then show ?thesis by (simp add: TrimSuffix_def)
qed

lemma HasPrefix_TrimSuffix:
  assumes "HasPrefix x ''/''" and "segments x \<noteq> []"
  shows "HasPrefix (TrimSuffix x ''/'') ''/''"
proof (cases "HasSuffix x ''/''")
  case True
  then obtain t where x: "x = t @ ''/''" by (auto simp: HasSuffix_iff_suffix suffix_def)
  with assms(2) have "t \<noteq> []" by auto
  with x assms(1) have "HasPrefix t ''/''" by (cases t) (auto simp: HasPrefix_def)
  then show ?thesis using x by (simp only: TrimSuffix_append)
next
  case False
  with assms(1) show ?thesis by (simp add: TrimSuffix_def)
qed

lemma HasPrefix_TrimSuffix_rev: "HasPrefix (TrimSuffix x ''/'') p \<Longrightarrow> HasPrefix x p"
  by (auto simp: TrimSuffix_def HasPrefix_iff_prefix split: if_splits
      intro: prefix_order.trans [OF _ take_is_prefix])

lemma exact_match_segments:
  assumes "normalizePath from = normalizePath path" and "HasPrefix from ''/''"
  shows "rootedIf (segments from) path" and "segments path = segments from"
proof -
  have t: "TrimSuffix from ''/'' = TrimSuffix path ''/''"
    using assms(1) by (simp add: normalizePath_def)
  then show "segments path = segments from" by (metis segments_TrimSuffix)
  show "rootedIf (segments from) path"
    using t assms(2) HasPrefix_TrimSuffix [of "from"] HasPrefix_TrimSuffix_rev [of path "''/''"]
    by (auto simp: rootedIf_def)
qed

lemma segmentMatches_refl: "segmentMatches s s"
  by (simp add: segmentMatches_def)

lemma list_all2_segmentMatches_refl: "list_all2 segmentMatches ps ps"
  by (simp add: list_all2_refl segmentMatches_refl)

lemma segments_plain:
  "list_all (\<lambda>s. \<not> regexSplat s) (segments from) \<Longrightarrow> list_all plainPattern (segments from)"
  using Split_no_sep [of _ slash "from"] by (auto simp: list_all_iff plainPattern_def segments_def)

lemma rxMatch_fromRegex:
  assumes "list_all (\<lambda>s. \<not> regexSplat s) (segments from)"
  shows "rxMatch (fromRegex from) path =
    (if rootedIf (segments from) path \<and> list_all2 segmentMatches (segments from) (segments path)
     then Some (segmentCaptures (segments from) (segments path)) else None)"
  by (simp add: fromRegex_segRegex rxMatch_segRegex [OF segments_plain [OF assms]])

text \<open>
  C9: with placeholders enabled, a rule without a splat matches a request path exactly when the
  non-empty segments of its "from" path and of the request path correspond one to one, each equal up
  to letter case or the rule's one a placeholder; repeated, leading and trailing slashes do not
  matter.  So the generated regular expression, the early exact-match return and this reading of the
  rule agree, and a placeholder never spans two segments.
\<close>

theorem matchesRule_segments:
  assumes "Enabled getenv RedirectsPlaceholders" and "HasPrefix (rlFrom rule) ''/''"
    and "list_all (\<lambda>s. \<not> regexSplat s) (segments (rlFrom rule))"
  shows "fst (matchesRule getenv rule path) \<longleftrightarrow>
    (segments (rlFrom rule) = [] \<or> HasPrefix path ''/'')
      \<and> list_all2 segmentMatches (segments (rlFrom rule)) (segments path)"
  using assms exact_match_segments [of "rlFrom rule" path] list_all2_segmentMatches_refl
  by (auto simp: matchesRule_def rxMatch_fromRegex rootedIf_def)

definition allFlags :: environ where
  "allFlags = (\<lambda>_. ''true'')"

definition exampleRule :: rule where
  "exampleRule = \<lparr>rlFrom = ''/blog/:year/:title'', rlTo = ''/posts/:title/:year'', rlStatus = 302,
     rlForce = False, rlParams = None\<rparr>"

theorem matchesRule_segments_witness:
  "fst (matchesRule allFlags exampleRule ''//Blog/2021/hello/'')
    \<and> \<not> fst (matchesRule allFlags exampleRule ''/blog/2021/a/b'')"
proof -
  have h: "Enabled allFlags RedirectsPlaceholders" "HasPrefix (rlFrom exampleRule) ''/''"
    "list_all (\<lambda>s. \<not> regexSplat s) (segments (rlFrom exampleRule))"
    by code_simp+
  have "(segments (rlFrom exampleRule) = [] \<or> HasPrefix ''//Blog/2021/hello/'' ''/'')
      \<and> list_all2 segmentMatches (segments (rlFrom exampleRule)) (segments ''//Blog/2021/hello/'')"
    by code_simp
  moreover have
    "\<not> list_all2 segmentMatches (segments (rlFrom exampleRule)) (segments ''/blog/2021/a/b'')"
    by code_simp
  ultimately show ?thesis
    using matchesRule_segments [OF h, of "''//Blog/2021/hello/''"]
      matchesRule_segments [OF h, of "''/blog/2021/a/b''"] by blast
qed

text \<open>
  The path such a rule leads to is its "to" path with every reference \<open>:name\<close> replaced by the
  request segment that stands where the "from" path has its first \<open>:name\<close> (by nothing when it has
  none), and runs of slashes collapsed.
\<close>

theorem matchesRule_template:
  assumes "Enabled getenv RedirectsPlaceholders"
    and "list_all (\<lambda>s. \<not> regexSplat s) (segments (rlFrom rule))"
    and "regexPlaceholderOrSplats (rlTo rule)" and "fst (matchesRule getenv rule path)"
  shows "snd (matchesRule getenv rule path) =
    collapseSlashes (expandTemplate path (segmentCaptures (segments (rlFrom rule)) (segments path))
      (replacePlaceholders (rlTo rule)))"
  using assms by (auto simp: matchesRule_def rxMatch_fromRegex split: if_splits)

theorem matchesRule_template_witness:
  "snd (matchesRule allFlags exampleRule ''/blog/2021/hello'') = ''/posts/hello/2021''"
proof -
  have h: "Enabled allFlags RedirectsPlaceholders"
    "list_all (\<lambda>s. \<not> regexSplat s) (segments (rlFrom exampleRule))"
    "regexPlaceholderOrSplats (rlTo exampleRule)"
    "fst (matchesRule allFlags exampleRule ''/blog/2021/hello'')"
    by code_simp+
  have "collapseSlashes (expandTemplate ''/blog/2021/hello''
      (segmentCaptures (segments (rlFrom exampleRule)) (segments ''/blog/2021/hello''))
      (replacePlaceholders (rlTo exampleRule))) = ''/posts/hello/2021''"
    by code_simp
  then show ?thesis using matchesRule_template [OF h] by simp
qed

subsection \<open>match\<close>

definition applies :: "environ \<Rightarrow> rule \<Rightarrow> string \<Rightarrow> bool" where
  "applies getenv rule path \<longleftrightarrow> validateRule getenv rule = None \<and> fst (matchesRule getenv rule path)"

lemma ex_nat_split: "(\<exists>k. P k) \<longleftrightarrow> P 0 \<or> (\<exists>k. P (Suc k))" for P :: "nat \<Rightarrow> bool"
  by (metis not0_implies_Suc)

lemma matchFrom_Some:
  "matchFrom getenv i rules path = Some (rule, to) \<longleftrightarrow>
    (\<exists>k < length rules. i + k < maxRuleCount \<and> rules ! k = rule \<and> applies getenv rule path
       \<and> to = snd (matchesRule getenv rule path) \<and> (\<forall>j < k. \<not> applies getenv (rules ! j) path))"
proof (induction rules arbitrary: i)
  case Nil
  then show ?case by simp
next
  case (Cons r rules)
  let ?P = "\<lambda>k. k < length (r # rules) \<and> i + k < maxRuleCount \<and> (r # rules) ! k = rule
    \<and> applies getenv rule path \<and> to = snd (matchesRule getenv rule path)
    \<and> (\<forall>j < k. \<not> applies getenv ((r # rules) ! j) path)"
  have split: "(\<exists>k. ?P k) \<longleftrightarrow> ?P 0 \<or> (\<exists>k. ?P (Suc k))"
    by (rule ex_nat_split)
  show ?case
  proof (cases "i < maxRuleCount")
    case False
    then show ?thesis by auto
  next
    case True
    show ?thesis
    proof (cases "applies getenv r path")
      case a: True
      then have "matchFrom getenv i (r # rules) path = Some (r, snd (matchesRule getenv r path))"
        using True by (auto simp: applies_def split: prod.splits bool.splits)
      moreover have "(\<exists>k. ?P k) \<longleftrightarrow> ?P 0" unfolding split using a by auto
      ultimately show ?thesis using True a by auto
    next
      case False
      then have "matchFrom getenv i (r # rules) path = matchFrom getenv (Suc i) rules path"
        using True by (auto simp: applies_def split: prod.splits bool.splits)
      moreover have "(\<exists>k. ?P k) \<longleftrightarrow> (\<exists>k. ?P (Suc k))" unfolding split using False by auto
      moreover have "?P (Suc k) \<longleftrightarrow> k < length rules \<and> Suc i + k < maxRuleCount \<and> rules ! k = rule
          \<and> applies getenv rule path \<and> to = snd (matchesRule getenv rule path)
          \<and> (\<forall>j < k. \<not> applies getenv (rules ! j) path)" for k
        using False by (auto simp: less_Suc_eq_0_disj)
      ultimately show ?thesis using Cons.IH [of "Suc i"] by simp
    qed
  qed
qed

text \<open>
  C24: \<open>match\<close> returns a rule exactly when it is the first of the first 1000 rules that is valid and
  matches the path, together with the path that rule leads to; invalid rules and rules past the limit
  are never used.
\<close>

theorem match_first:
  "match getenv r path = Some (rule, to) \<longleftrightarrow>
    (\<exists>k < min (length (rdRules r)) maxRuleCount.
       rdRules r ! k = rule \<and> validateRule getenv rule = None
       \<and> matchesRule getenv rule path = (True, to)
       \<and> (\<forall>j < k. \<not> applies getenv (rdRules r ! j) path))"
  unfolding match_def matchFrom_Some
  by (auto simp: applies_def prod_eq_iff)

theorem match_first_witness:
  "match allFlags \<lparr>rdRules = [exampleRule\<lparr>rlForce := True\<rparr>, exampleRule, exampleRule\<lparr>rlTo := ''/''\<rparr>],
      rdError = None\<rparr> ''/blog/2021/hello'' = Some (exampleRule, ''/posts/hello/2021'')"
proof -
  let ?r = "\<lparr>rdRules = [exampleRule\<lparr>rlForce := True\<rparr>, exampleRule, exampleRule\<lparr>rlTo := ''/''\<rparr>],
    rdError = None\<rparr>"
  have v: "validateRule allFlags exampleRule = None" by code_simp
  have m: "matchesRule allFlags exampleRule ''/blog/2021/hello'' = (True, ''/posts/hello/2021'')"
    by code_simp
  have n: "\<not> applies allFlags (exampleRule\<lparr>rlForce := True\<rparr>) ''/blog/2021/hello''" by code_simp
  have "1 < min (length (rdRules ?r)) maxRuleCount" by (simp add: maxRuleCount_def)
  moreover have "rdRules ?r ! 1 = exampleRule" by simp
  moreover have "\<forall>j < (1::nat). \<not> applies allFlags (rdRules ?r ! j) ''/blog/2021/hello''"
    using n by simp
  ultimately show ?thesis
    unfolding match_first using v m by blast
qed

subsection \<open>Redirect targets stay on the site\<close>

lemma validateURL_first:
  assumes "validateURL getenv to = None"
  shows "\<exists>c t. to = c # t \<and> (c = slash \<or> c = CHR ''%'')"
proof -
  obtain u where u: "ParseURL to = Some u" "uHost u = []" "uScheme u = []" "HasPrefix (uPath u) ''/''"
    using assms by (auto simp: validateURL_def split: option.splits if_splits)
  obtain r v where "parseNoFragment r = Some v" "prefix r to" "uScheme v = []" "uHost v = []"
    "HasPrefix (uPath v) ''/''"
    using ParseURL_no_fragment [OF u(1)] u(2-4) by metis
  with parseNoFragment_path_first [of r v] show ?thesis
    by (metis append_Cons prefixE)
qed

lemma validateURL_local:
  "validateURL getenv to = None \<Longrightarrow> ParseURL to = Some u \<Longrightarrow> uHost u = [] \<and> uScheme u = []"
  by (auto simp: validateURL_def split: if_splits)

lemma collapseSlashes_hd: "\<exists>t. collapseSlashes (c # s) = c # t"
proof (induction s)
  case Nil
  then show ?case by simp
next
  case (Cons d s)
  then show ?case by (cases "c = slash \<and> d = slash") auto
qed

lemma collapseSlashes_no_double: "\<not> Contains (collapseSlashes s) ''//''"
proof (induction s rule: collapseSlashes.induct)
  case (1 a b s)
  obtain t where t: "collapseSlashes (b # s) = b # t" using collapseSlashes_hd by blast
  show ?case
  proof (cases "a = slash \<and> b = slash")
    case True
    with 1 show ?thesis by simp
  next
    case False
    with 1(2) show ?thesis by (auto simp: t HasPrefix_def)
  qed
qed (auto simp: HasPrefix_def)

lemma Contains_HasPrefix: "HasPrefix s p \<Longrightarrow> Contains s p"
  by (cases s) (auto simp: HasPrefix_def)

lemma templated_first:
  assumes "c = slash \<or> c = CHR ''%''"
  shows "\<exists>t. collapseSlashes (expandTemplate path cs (replacePlaceholders (c # s))) = c # t"
proof -
  have "replacePlaceholders (c # s) = c # replacePlaceholders s" using assms by auto
  moreover have "expandTemplate path cs (c # x) = c # expandTemplate path cs x" for x
    using assms by auto
  ultimately show ?thesis using collapseSlashes_hd by simp
qed

text \<open>
  C23: whatever a valid rule rewrites a request to, with the request's own text substituted for
  splats and placeholders, parses as a URL with neither a host nor a scheme: the rule cannot become a
  redirect to another site at the level of URLs.
\<close>

theorem matched_rule_stays_on_site:
  assumes "validateRule getenv rule = None" and "matchesRule getenv rule path = (True, to)"
    and "ParseURL to = Some u"
  shows "uHost u = [] \<and> uScheme u = []"
proof -
  have v: "validateURL getenv (rlTo rule) = None"
    using assms(1) by (auto simp: validateRule_def split: option.splits)
  show ?thesis
  proof (cases "to = rlTo rule")
    case True
    with v assms(3) validateURL_local show ?thesis by simp
  next
    case False
    then obtain cs where to: "to = collapseSlashes (expandTemplate path cs (replacePlaceholders (rlTo rule)))"
      using assms(2) by (auto simp: matchesRule_def split: if_splits option.splits)
    obtain c s where c: "rlTo rule = c # s" "c = slash \<or> c = CHR ''%''"
      using validateURL_first [OF v] by blast
    obtain t where t: "to = c # t" using templated_first [OF c(2)] to c(1) by metis
    have "\<not> HasPrefix (c # t) ''//''"
      using collapseSlashes_no_double Contains_HasPrefix t to by metis
    with ParseURL_local [of c t u] assms(3) t c(2) show ?thesis by simp
  qed
qed

theorem matched_rule_stays_on_site_witness:
  "\<exists>to u. matchesRule allFlags exampleRule ''/blog/2021/evil.example'' = (True, to)
    \<and> ParseURL to = Some u \<and> uHost u = [] \<and> uScheme u = [] \<and> uPath u = ''/posts/evil.example/2021''"
proof -
  have v: "validateRule allFlags exampleRule = None" by code_simp
  have m: "matchesRule allFlags exampleRule ''/blog/2021/evil.example''
      = (True, ''/posts/evil.example/2021'')"
    by code_simp
  have p: "ParseURL ''/posts/evil.example/2021'' = Some (emptyURL\<lparr>uPath := ''/posts/evil.example/2021''\<rparr>)"
    by code_simp
  show ?thesis using m p matched_rule_stays_on_site [OF v m p] by (simp add: emptyURL_def)
qed

subsection \<open>The configuration file\<close>

lemma matchFrom_status:
  "matchFrom getenv i rules path = Some (rule, to) \<Longrightarrow>
    rule \<in> set rules \<and> validateRule getenv rule = None"
  by (auto simp: matchFrom_Some applies_def)

lemma validateRule_status: "validateRule getenv rule = None \<Longrightarrow> rlStatus rule \<in> {200, 301, 302}"
  by (auto simp: validateRule_def split: option.splits if_splits)

text \<open>
  A redirect is only ever taken from a \<open>_redirects\<close> entry that is a regular file of at most
  64 KiB, could be opened and parsed; its status is one of 200, 301 and 302.  In every other case
  rewriting reports that no rule applies.
\<close>

theorem Rewrite_needs_config:
  "(\<exists>fi f rules rule. vLstat root ConfigFile = Inr fi \<and> isRegular fi \<and> fiSize fi \<le> maxConfigSize
      \<and> vOpen root ConfigFile = Inr f \<and> parse (fContent f) = Some rules \<and> rule \<in> set rules
      \<and> match getenv (ParseRedirects parse root) (uPath u)
          = Some (rule, snd (matchesRule getenv rule (uPath u)))
      \<and> rlStatus rule \<in> {200, 301, 302})
    \<or> Rewrite getenv (ParseRedirects parse root) u = Inl ErrNoRedirect"
proof (cases "match getenv (ParseRedirects parse root) (uPath u)")
  case None
  then show ?thesis by (simp add: Rewrite_def)
next
  case (Some rt)
  obtain rule to where rt: "rt = (rule, to)" by fastforce
  have m: "matchFrom getenv 0 (rdRules (ParseRedirects parse root)) (uPath u) = Some (rule, to)"
    using Some rt by (simp add: match_def)
  note r = matchFrom_status [OF m]
  then obtain fi f rules where "vLstat root ConfigFile = Inr fi" "isRegular fi"
    "fiSize fi \<le> maxConfigSize" "vOpen root ConfigFile = Inr f" "parse (fContent f) = Some rules"
    "rule \<in> set rules"
    by (auto simp: ParseRedirects_def failedRedirects_def split: sum.splits if_splits option.splits)
  moreover have "to = snd (matchesRule getenv rule (uPath u))" using m by (auto simp: matchFrom_Some)
  ultimately show ?thesis using validateRule_status r Some rt by blast
qed

definition statusLine :: "environ \<Rightarrow> nat \<Rightarrow> rule \<Rightarrow> string" where
  "statusLine getenv i rule =
     ''rule '' @ decimal (i + 1) @
     (case validateRule getenv rule of
        Some err \<Rightarrow> '': error: '' @ errorText err
      | None \<Rightarrow> '': valid'')"

lemma statusMessages_lines:
  "i + length rules \<le> maxRuleCount \<Longrightarrow>
    statusMessages getenv n i rules ms =
      ms @ map (\<lambda>k. statusLine getenv (i + k) (rules ! k)) [0..<length rules]"
proof (induction rules arbitrary: i ms)
  case Nil
  then show ?case by simp
next
  case (Cons r rules)
  have "[0..<length (r # rules)] = 0 # map Suc [0..<length rules]"
    by (simp add: upt_conv_Cons map_Suc_upt del: upt_Suc)
  with Cons show ?case by (auto simp: statusLine_def comp_def split: option.split)
qed

text \<open>
  The status page of a file with at most 1000 rules is the number of rules followed by one line
  per rule, in order, that says the rule is valid exactly when \<open>match\<close> may use it and otherwise
  gives the reason.
\<close>

theorem Status_lines:
  assumes "rdError r = None" and "length (rdRules r) \<le> maxRuleCount"
  shows "Status getenv r =
    Join ((decimal (length (rdRules r)) @ '' rules'')
      # map (\<lambda>k. statusLine getenv k (rdRules r ! k)) [0..<length (rdRules r)]) ''\<newline>''"
  using assms statusMessages_lines [of 0 "rdRules r"] by (simp add: Status_def Let_def)

theorem Status_lines_witness:
  "Status allFlags \<lparr>rdRules = [exampleRule, exampleRule\<lparr>rlForce := True\<rparr>], rdError = None\<rparr>
    = ''2 rules\<newline>rule 1: valid\<newline>rule 2: error: force! not supported''"
proof -
  let ?r = "\<lparr>rdRules = [exampleRule, exampleRule\<lparr>rlForce := True\<rparr>], rdError = None\<rparr>"
  have h: "rdError ?r = None" "length (rdRules ?r) \<le> maxRuleCount"
    by (simp_all add: maxRuleCount_def)
  have "Join ((decimal (length (rdRules ?r)) @ '' rules'')
      # map (\<lambda>k. statusLine allFlags k (rdRules ?r ! k)) [0..<length (rdRules ?r)]) ''\<newline>''
    = ''2 rules\<newline>rule 1: valid\<newline>rule 2: error: force! not supported''"
    by code_simp
  then show ?thesis using Status_lines [OF h] by simp
qed

end
