(* ===== verification/Negotiate.thy ===== *)
theory Negotiate
  imports Http Complex_Main
begin

text \<open>
  Header parsing and content negotiation, \<open>internal/httputil\<close> and \<open>internal/httputil/header\<close>.  A
  quality value is \<open>q + n/d\<close> with \<open>n\<close> and \<open>d\<close> accumulated in 64-bit integers, so it is modelled
  as an exact fraction of the wrapped integers, with the values a division by zero gives in floating
  point; comparing fractions exactly agrees with comparing the \<open>float64\<close> values as long as a quality
  has at most fifteen digits.
\<close>

subsection \<open>Lexing\<close>

definition isSeparatorByte :: "char \<Rightarrow> bool" where
  "isSeparatorByte c \<longleftrightarrow> c \<in> set ''(),/:;<=>?@[]{}'' \<or> of_char c \<in> {9, 32, 34, 92 :: nat}"

definition isSpaceOctet :: "char \<Rightarrow> bool" where
  "isSpaceOctet c \<longleftrightarrow> of_char c \<in> {9, 10, 13, 32 :: nat}"

definition isTokenOctet :: "char \<Rightarrow> bool" where
  "isTokenOctet c \<longleftrightarrow>
     (let n = of_char c :: nat in n \<le> 127 \<and> \<not> (n \<le> 31 \<or> n = 127) \<and> \<not> isSeparatorByte c)"

definition skipSpace :: "string \<Rightarrow> string" where
  "skipSpace s = dropWhile isSpaceOctet s"

definition expectToken :: "string \<Rightarrow> string \<times> string" where
  "expectToken s = (takeWhile isTokenOctet s, dropWhile isTokenOctet s)"

definition expectTokenSlash :: "string \<Rightarrow> string \<times> string" where
  "expectTokenSlash s =
     (takeWhile (\<lambda>b. isTokenOctet b \<or> b = slash) s, dropWhile (\<lambda>b. isTokenOctet b \<or> b = slash) s)"

text \<open>Values of \<open>float64\<close> that occur: fractions with a positive denominator and the results of
  dividing by zero.\<close>

datatype quality = Fraction int int | PlusInf | MinusInf | NaN

fun qualityLess :: "quality \<Rightarrow> quality \<Rightarrow> bool" where
  "qualityLess (Fraction a b) (Fraction c d) = (a * d < c * b)"
| "qualityLess (Fraction a b) PlusInf = True"
| "qualityLess MinusInf (Fraction a b) = True"
| "qualityLess MinusInf PlusInf = True"
| "qualityLess _ _ = False"

definition qualityEqZero :: "quality \<Rightarrow> bool" where
  "qualityEqZero q \<longleftrightarrow> (case q of Fraction a b \<Rightarrow> a = 0 | _ \<Rightarrow> False)"

definition wrap64 :: "int \<Rightarrow> int" where
  "wrap64 x = (x + 2 ^ 63) mod 2 ^ 64 - 2 ^ 63"

fun qualityDigits :: "int \<Rightarrow> int \<Rightarrow> string \<Rightarrow> int \<times> int \<times> string" where
  "qualityDigits n d [] = (n, d, [])"
| "qualityDigits n d (b # s) =
     (if \<not> isDigit b then (n, d, b # s)
      else qualityDigits (wrap64 (wrap64 (n * 10 + int (of_char b)) - 48)) (wrap64 (d * 10)) s)"

text \<open>\<open>q + float64(n)/float64(d)\<close>.\<close>

definition qualityValue :: "int \<Rightarrow> int \<Rightarrow> int \<Rightarrow> quality" where
  "qualityValue q n d =
     (if d = 0 then (if n > 0 then PlusInf else if n < 0 then MinusInf else NaN)
      else if d < 0 then Fraction (- (q * d + n)) (- d)
      else Fraction (q * d + n) d)"

definition expectQuality :: "string \<Rightarrow> quality \<times> string" where
  "expectQuality s =
     (case s of
        [] \<Rightarrow> (Fraction (-1) 1, [])
      | b # s' \<Rightarrow>
          if b \<noteq> CHR ''0'' \<and> b \<noteq> CHR ''1'' then (Fraction (-1) 1, [])
          else
            (let q = (if b = CHR ''0'' then 0 else 1)
             in if \<not> HasPrefix s' ''.'' then (Fraction q 1, s')
                else (case qualityDigits 0 1 (drop 1 s') of (n, d, rest) \<Rightarrow> (qualityValue q n d, rest))))"

text \<open>The value of a quoted string, with escapes removed; empty when the closing quote is missing.\<close>

fun unquoteFrom :: "string \<Rightarrow> bool \<Rightarrow> string \<Rightarrow> string \<times> string" where
  "unquoteFrom p esc [] = ([], [])"
| "unquoteFrom p esc (b # s) =
     (if esc then unquoteFrom (p @ [b]) False s
      else if of_char b = (92::nat) then unquoteFrom p True s
      else if of_char b = (34::nat) then (p, s)
      else unquoteFrom (p @ [b]) False s)"

definition expectTokenOrQuoted :: "string \<Rightarrow> string \<times> string" where
  "expectTokenOrQuoted s =
     (case s of
        b # s' \<Rightarrow> if of_char b = (34::nat) then unquoteFrom [] False s' else expectToken s
      | [] \<Rightarrow> expectToken s)"

subsection \<open>Parsing\<close>

record accept_spec =
  asValue :: string
  asQ :: quality

text \<open>The optional quality after a value: \<open>None\<close> ends the header line without the value.\<close>

definition acceptQuality :: "string \<Rightarrow> (quality \<times> string) option" where
  "acceptQuality s =
     (if HasPrefix s '';'' then
        (let s' = skipSpace (drop 1 s)
         in if \<not> HasPrefix s' ''q='' then None
            else (case expectQuality (drop 2 s') of (q, rest) \<Rightarrow>
                    if qualityLess q (Fraction 0 1) then None else Some (q, rest)))
      else Some (Fraction 1 1, s))"

lemma qualityDigits_length: "qualityDigits n d s = (n', d', rest) \<Longrightarrow> length rest \<le> length s"
  by (induction n d s rule: qualityDigits.induct) (auto split: if_splits)

lemma expectQuality_length: "expectQuality s = (q, rest) \<Longrightarrow> length rest \<le> length s"
proof (cases s)
  case (Cons b s')
  assume e: "expectQuality s = (q, rest)"
  obtain n d r where "qualityDigits 0 1 (drop 1 s') = (n, d, r)" by (metis prod_cases3)
  moreover from this have "length r \<le> length s' - 1" using qualityDigits_length by fastforce
  ultimately show ?thesis using e Cons by (auto simp: expectQuality_def Let_def split: if_splits)
qed (simp add: expectQuality_def)

lemma skipSpace_length: "length (skipSpace s) \<le> length s"
  by (simp add: skipSpace_def length_dropWhile_le)

lemma acceptQuality_length: "acceptQuality s = Some (q, rest) \<Longrightarrow> length rest \<le> length s"
proof -
  assume a: "acceptQuality s = Some (q, rest)"
  let ?t = "skipSpace (drop 1 s)"
  have "length ?t \<le> length s" using skipSpace_length [of "drop 1 s"] by simp
  then have "length (drop 2 ?t) \<le> length s" by simp
  show ?thesis
  proof (cases "HasPrefix s '';''")
    case False
    then show ?thesis using a by (simp add: acceptQuality_def)
  next
    case True
    obtain q' r where e: "expectQuality (drop 2 ?t) = (q', r)" by fastforce
    then have "rest = r" using a True by (simp add: acceptQuality_def Let_def split: if_splits)
    then show ?thesis using expectQuality_length [OF e] \<open>length (drop 2 ?t) \<le> length s\<close> by simp
  qed
qed

function acceptLine :: "string \<Rightarrow> accept_spec list" where
  "acceptLine s =
     (case expectTokenSlash s of (value, s1) \<Rightarrow>
        if value = [] then []
        else (case acceptQuality (skipSpace s1) of
                None \<Rightarrow> []
              | Some (q, s2) \<Rightarrow>
                  \<lparr>asValue = value, asQ = q\<rparr> #
                  (let s3 = skipSpace s2
                   in if HasPrefix s3 '','' then acceptLine (skipSpace (drop 1 s3)) else [])))"
  by pat_completeness auto

lemma acceptLine_shorter:
  assumes "expectTokenSlash s = (value, s1)" and "value \<noteq> []"
    and "acceptQuality (skipSpace s1) = Some (q, s2)"
  shows "length (skipSpace (drop (Suc 0) (skipSpace s2))) < length s"
proof -
  have "length s1 < length s"
    using assms(1,2) length_dropWhile_le [of "\<lambda>b. isTokenOctet b \<or> b = slash" "tl s"]
    by (cases s) (auto simp: expectTokenSlash_def split: if_splits)
  moreover have "length s2 \<le> length s1"
    using acceptQuality_length [OF assms(3)] skipSpace_length [of s1] by simp
  ultimately show ?thesis
    using skipSpace_length [of "drop (Suc 0) (skipSpace s2)"] skipSpace_length [of s2] by simp
qed

termination acceptLine
  by (relation "measure length") (auto intro: acceptLine_shorter [OF sym])

declare acceptLine.simps [simp del]

definition hdrValues :: "header \<Rightarrow> string \<Rightarrow> string list" where
  "hdrValues h key = (case h key of None \<Rightarrow> [] | Some vs \<Rightarrow> vs)"

definition ParseAccept :: "header \<Rightarrow> string \<Rightarrow> accept_spec list" where
  "ParseAccept h key = concat (map acceptLine (hdrValues h key))"

text \<open>\<open>ParseList\<close>: \<open>cur\<close> is \<open>s[begin:end]\<close> and \<open>pend\<close> the white space read since \<open>end\<close>, which is
  part of the value only if more of it follows.\<close>

fun listValues :: "bool \<Rightarrow> bool \<Rightarrow> string \<Rightarrow> string \<Rightarrow> string \<Rightarrow> string list" where
  "listValues esc quote cur pend [] = (if cur \<noteq> [] then [cur] else [])"
| "listValues esc quote cur pend (b # s) =
     (if esc then listValues False quote (cur @ pend @ [b]) [] s
      else if quote then
        listValues (of_char b = (92::nat)) (of_char b \<noteq> (34::nat)) (cur @ pend @ [b]) [] s
      else if of_char b = (34::nat) then listValues False True (cur @ pend @ [b]) [] s
      else if isSpaceOctet b then
        (if cur = [] then listValues False False [] [] s
         else listValues False False cur (pend @ [b]) s)
      else if b = CHR '','' then (if cur \<noteq> [] then [cur] else []) @ listValues False False [] [] s
      else listValues False False (cur @ pend @ [b]) [] s)"

definition ParseList :: "header \<Rightarrow> string \<Rightarrow> string list" where
  "ParseList h key = concat (map (listValues False False [] []) (hdrValues h (CanonicalHeaderKey key)))"

subsection \<open>Negotiation\<close>

definition encodingStep :: "string \<Rightarrow> string \<times> quality \<Rightarrow> accept_spec \<Rightarrow> string \<times> quality" where
  "encodingStep offer best spec =
     (case best of (bestOffer, bestQ) \<Rightarrow>
        if qualityLess bestQ (asQ spec) \<and> (asValue spec = ''*'' \<or> asValue spec = offer)
        then (offer, asQ spec) else (bestOffer, bestQ))"

definition NegotiateContentEncoding :: "request \<Rightarrow> string list \<Rightarrow> string" where
  "NegotiateContentEncoding r offers =
     (let specs = ParseAccept (rqHeader r) ''Accept-Encoding'';
          (bestOffer, bestQ) =
            foldl (\<lambda>best offer. foldl (encodingStep offer) best specs) (''identity'', Fraction (-1) 1) offers
      in if qualityEqZero bestQ then [] else bestOffer)"

definition typeStep :: "string \<Rightarrow> string \<times> quality \<times> nat \<Rightarrow> accept_spec \<Rightarrow> string \<times> quality \<times> nat" where
  "typeStep offer best spec =
     (case best of (bestOffer, bestQ, bestWild) \<Rightarrow>
        if qualityEqZero (asQ spec) then best
        else if qualityLess (asQ spec) bestQ then best
        else if asValue spec = ''*/*'' then
          (if qualityLess bestQ (asQ spec) \<or> bestWild > 2 then (offer, asQ spec, 2) else best)
        else if HasSuffix (asValue spec) ''/*'' then
          (if HasPrefix offer (take (length (asValue spec) - 1) (asValue spec))
              \<and> (qualityLess bestQ (asQ spec) \<or> bestWild > 1)
           then (offer, asQ spec, 1) else best)
        else
          (if asValue spec = offer \<and> (qualityLess bestQ (asQ spec) \<or> bestWild > 0)
           then (offer, asQ spec, 0) else best))"

definition NegotiateContentType :: "request \<Rightarrow> string list \<Rightarrow> string \<Rightarrow> string" where
  "NegotiateContentType r offers defaultOffer =
     fst (foldl (\<lambda>best offer. foldl (typeStep offer) best (ParseAccept (rqHeader r) ''Accept''))
           (defaultOffer, Fraction (-1) 1, 3) offers)"

subsection \<open>What negotiation chooses\<close>

lemma qualityLess_irrefl: "\<not> qualityLess q q"
  by (cases q) auto

text \<open>A choice over a list of weighted candidates: the first of those with the greatest weight.\<close>

definition chooseStep :: "'a \<times> quality \<Rightarrow> 'a \<times> quality \<Rightarrow> 'a \<times> quality" where
  "chooseStep best cand = (if qualityLess (snd best) (snd cand) then cand else best)"

definition candidates :: "accept_spec list \<Rightarrow> string list \<Rightarrow> (string \<times> quality) list" where
  "candidates specs offers =
     concat (map (\<lambda>offer. map (\<lambda>spec. (offer, asQ spec))
       (filter (\<lambda>spec. asValue spec = ''*'' \<or> asValue spec = offer) specs)) offers)"

lemma foldl_encodingStep:
  "foldl (encodingStep offer) best specs =
    foldl chooseStep best (map (\<lambda>spec. (offer, asQ spec))
      (filter (\<lambda>spec. asValue spec = ''*'' \<or> asValue spec = offer) specs))"
proof (induction specs arbitrary: best)
  case (Cons spec specs)
  have "encodingStep offer best spec =
      (if asValue spec = ''*'' \<or> asValue spec = offer then chooseStep best (offer, asQ spec) else best)"
    by (cases best) (simp add: encodingStep_def chooseStep_def)
  then show ?case unfolding foldl.simps Cons.IH by simp
qed simp

lemma foldl_offers:
  "foldl (\<lambda>best offer. foldl (encodingStep offer) best specs) best offers =
    foldl chooseStep best (candidates specs offers)"
  by (induction offers arbitrary: best) (simp_all add: foldl_encodingStep candidates_def)

text \<open>The fractions with a positive denominator are ordered as real numbers.\<close>

definition finite_quality :: "quality \<Rightarrow> bool" where
  "finite_quality q \<longleftrightarrow> (case q of Fraction a b \<Rightarrow> b > 0 | _ \<Rightarrow> False)"

definition weight :: "quality \<Rightarrow> real" where
  "weight q = (case q of Fraction a b \<Rightarrow> of_int a / of_int b | _ \<Rightarrow> 0)"

lemma fraction_less:
  assumes "(b::int) > 0" and "d > 0"
  shows "real_of_int a / real_of_int b < real_of_int c / real_of_int d \<longleftrightarrow> a * d < c * b"
proof -
  have "real_of_int a / real_of_int b < real_of_int c / real_of_int d \<longleftrightarrow>
      real_of_int a * real_of_int d < real_of_int c * real_of_int b"
    using assms by (simp add: pos_divide_less_eq pos_less_divide_eq mult.commute)
  also have "\<dots> \<longleftrightarrow> a * d < c * b" by (simp flip: of_int_mult)
  finally show ?thesis .
qed

lemma qualityLess_weight:
  "finite_quality p \<Longrightarrow> finite_quality q \<Longrightarrow> qualityLess p q \<longleftrightarrow> weight p < weight q"
  by (cases p; cases q) (simp_all add: finite_quality_def weight_def fraction_less)

lemma foldl_chooseStep:
  assumes "finite_quality (snd best)" and "\<forall>c \<in> set cs. finite_quality (snd c)"
  shows "(foldl chooseStep best cs = best \<and> (\<forall>c \<in> set cs. weight (snd c) \<le> weight (snd best)))
    \<or> (\<exists>i < length cs. foldl chooseStep best cs = cs ! i \<and> weight (snd best) < weight (snd (cs ! i))
        \<and> (\<forall>c \<in> set cs. weight (snd c) \<le> weight (snd (cs ! i)))
        \<and> (\<forall>j < i. weight (snd (cs ! j)) < weight (snd (cs ! i))))"
  using assms(2)
proof (induction cs rule: rev_induct)
  case Nil
  then show ?case by simp
next
  case (snoc c cs)
  consider (keep) "foldl chooseStep best cs = best" "\<forall>c \<in> set cs. weight (snd c) \<le> weight (snd best)"
    | (idx) i where "i < length cs" "foldl chooseStep best cs = cs ! i" "weight (snd best) < weight (snd (cs ! i))"
      "\<forall>c \<in> set cs. weight (snd c) \<le> weight (snd (cs ! i))" "\<forall>j < i. weight (snd (cs ! j)) < weight (snd (cs ! i))"
    using snoc by auto
  then show ?case
  proof cases
    case keep
    have step: "foldl chooseStep best (cs @ [c]) = (if weight (snd best) < weight (snd c) then c else best)"
      using keep(1) assms(1) snoc.prems by (simp add: chooseStep_def qualityLess_weight)
    show ?thesis
    proof (cases "weight (snd best) < weight (snd c)")
      case False
      then show ?thesis using keep step by auto
    next
      case True
      then have "\<forall>j < length cs. weight (snd (cs ! j)) < weight (snd c)"
        using keep(2) by (meson le_less_trans nth_mem)
      then show ?thesis using True keep step
        by (intro disjI2 exI [of _ "length cs"]) (auto simp: nth_append)
    qed
  next
    case idx
    have "finite_quality (snd (cs ! i))" using idx(1) snoc.prems by simp
    then have step: "foldl chooseStep best (cs @ [c]) = (if weight (snd (cs ! i)) < weight (snd c) then c else cs ! i)"
      using idx(2) snoc.prems by (simp add: chooseStep_def qualityLess_weight)
    show ?thesis
    proof (cases "weight (snd (cs ! i)) < weight (snd c)")
      case False
      then show ?thesis using idx step
        by (intro disjI2 exI [of _ i]) (auto simp: nth_append)
    next
      case True
      then have "\<forall>j < length cs. weight (snd (cs ! j)) < weight (snd c)"
        using idx(4) by (meson le_less_trans nth_mem)
      moreover have "\<forall>d \<in> set cs. weight (snd d) \<le> weight (snd c)"
        using idx(4) True by (meson le_less_trans less_imp_le)
      ultimately show ?thesis using True idx step
        by (intro disjI2 exI [of _ "length cs"]) (auto simp: nth_append)
    qed
  qed
qed

lemma acceptQuality_nonneg: "acceptQuality s = Some (q, rest) \<Longrightarrow> \<not> qualityLess q (Fraction 0 1)"
  by (auto simp: acceptQuality_def Let_def split: if_splits prod.splits)

lemma acceptLine_nonneg: "spec \<in> set (acceptLine s) \<Longrightarrow> \<not> qualityLess (asQ spec) (Fraction 0 1)"
proof (induction s rule: acceptLine.induct)
  case (1 s)
  obtain v s1 where e: "expectTokenSlash s = (v, s1)" by fastforce
  show ?case
  proof (cases "v = [] \<or> acceptQuality (skipSpace s1) = None")
    case True
    then show ?thesis using "1.prems" e by (auto simp: acceptLine.simps [of s] split: if_splits)
  next
    case False
    then obtain q s2 where q: "acceptQuality (skipSpace s1) = Some (q, s2)" by auto
    show ?thesis
    proof (cases "spec = \<lparr>asValue = v, asQ = q\<rparr>")
      case True
      then show ?thesis using acceptQuality_nonneg [OF q] by simp
    next
      case new: False
      then have "HasPrefix (skipSpace s2) '',''" "spec \<in> set (acceptLine (skipSpace (drop 1 (skipSpace s2))))"
        using "1.prems" e q False unfolding acceptLine.simps [of s] by (auto simp: Let_def split: if_splits)
      then show ?thesis using "1.IH" e q False by (metis (no_types, lifting))
    qed
  qed
qed



text \<open>
  An encoding the client refuses by name is still chosen when the client also accepts \<open>*\<close>: the
  wildcard is matched against every offer, not only against those the header does not name.
\<close>

theorem NegotiateContentEncoding_wildcard_overrides_refusal:
  "rqHeader r ''Accept-Encoding'' = Some [''gzip;q=0, *'']
    \<Longrightarrow> NegotiateContentEncoding r [''gzip'', ''identity''] = ''gzip''"
proof -
  assume h: "rqHeader r ''Accept-Encoding'' = Some [''gzip;q=0, *'']"
  have a: "acceptLine ''gzip;q=0, *'' =
      [\<lparr>asValue = ''gzip'', asQ = Fraction 0 1\<rparr>, \<lparr>asValue = ''*'', asQ = Fraction 1 1\<rparr>]"
    by code_simp
  show ?thesis
    by (simp add: NegotiateContentEncoding_def ParseAccept_def hdrValues_def h a encodingStep_def qualityEqZero_def)
qed

end
