(* ===== verification/Disk_Reader.thy ===== *)
theory Disk_Reader
  imports Symlink Redirects Negotiate Content
begin

text \<open>
  Serving a site from a root, \<open>internal/serving\<close> and \<open>internal/serving/disk\<close>: resolving the request
  to a file, redirects, custom 404 pages, compressed variants, cache headers.  Handlers take the
  request, the lookup path and the sub-path and thread the response writer; the boolean result says
  whether the request was handled.  What the reader gets from outside is the record \<open>serving_env\<close>:
  the process environment, the parser of \<open>_redirects\<close> files, HTTP dates, the MIME tables and content
  sniffing of Go's library, a multipart boundary, and the formatted expiry time.  Metrics, logging and
  error tracking are not modelled.
\<close>

subsection \<open>Data\<close>

record lookup_path =
  lpServingType :: string
  lpPrefix :: string
  lpPath :: string
  lpSHA256 :: string
  lpIsNamespaceProject :: bool
  lpIsHTTPSOnly :: bool
  lpHasAccessControl :: bool
  lpProjectID :: nat

record serving_env =
  seGetenv :: environ
  seParse :: "string \<Rightarrow> rule list option"
  seDates :: http_dates
  seBoundary :: string
  seExpires :: string
  seTypeByExtension :: "string \<Rightarrow> string"
  seDetectContentType :: "string \<Rightarrow> string"

record handler =
  hRequest :: request
  hLookupPath :: lookup_path
  hSubPath :: string

text \<open>\<open>vfs.VFS.Root\<close>: the root at a path, with a cache key.\<close>

type_synonym vfs = "string \<Rightarrow> string \<Rightarrow> vfs_root res"

subsection \<open>helpers.go\<close>

definition compressedEncodings :: "(string \<times> string) list" where
  "compressedEncodings = [(''br'', ''.br''), (''gzip'', ''.gz'')]"

definition compressedEncodingsPriority :: "string list" where
  "compressedEncodingsPriority = [''br'', ''gzip'']"

definition endsWithSlash :: "string \<Rightarrow> bool" where
  "endsWithSlash path \<longleftrightarrow> HasSuffix path ''/''"

definition endsWithoutHTMLExtension :: "string \<Rightarrow> bool" where
  "endsWithoutHTMLExtension path \<longleftrightarrow> \<not> HasSuffix path ''.html''"

definition detectContentType :: "serving_env \<Rightarrow> vfs_root \<Rightarrow> string \<Rightarrow> string res" where
  "detectContentType env rt path =
     (let contentType = seTypeByExtension env (ExtPath path)
      in if contentType = [] then
           (case vOpen rt path of
              Inl err \<Rightarrow> Inl err
            | Inr f \<Rightarrow> Inr (seDetectContentType env (take 512 (fContent f))))
         else Inr contentType)"

text \<open>The compressed variants of a file that are regular files.\<close>

definition compressedFiles :: "vfs_root \<Rightarrow> string \<Rightarrow> string \<Rightarrow> file_info option" where
  "compressedFiles rt fullPath encoding =
     (case map_of compressedEncodings encoding of
        None \<Rightarrow> None
      | Some extension \<Rightarrow>
          (case vLstat rt (fullPath @ extension) of
             Inr fi \<Rightarrow> if isRegular fi then Some fi else None
           | Inl _ \<Rightarrow> None))"

definition handleContentEncoding ::
  "request \<Rightarrow> vfs_root \<Rightarrow> string \<Rightarrow> response \<Rightarrow> string \<times> response"
where
  "handleContentEncoding r rt fullPath w =
     (if hdrGet (rqHeader r) ''Range'' \<noteq> [] then (fullPath, w)
      else
        (let files = compressedFiles rt fullPath;
             offers = filter (\<lambda>e. files e \<noteq> None) compressedEncodingsPriority @ [''identity''];
             acceptedEncoding = NegotiateContentEncoding r offers
         in case files acceptedEncoding of
              None \<Rightarrow> (fullPath, w)
            | Some fi \<Rightarrow>
                (fullPath @ the (map_of compressedEncodings acceptedEncoding),
                 setHeader ''Content-Length'' (decimalInt (fiSize fi))
                   (setHeader ''Content-Encoding'' acceptedEncoding w))))"

subsection \<open>reader.go\<close>

definition etag :: "string \<Rightarrow> string \<Rightarrow> string" where
  "etag contentEncoding sha = (if contentEncoding = [] then sha else sha @ ''-'' @ contentEncoding)"

text \<open>\<open>fmt.Sprintf("%q", s)\<close> on printable ASCII: quotes around, backslash and quote escaped.\<close>

definition quoted :: "string \<Rightarrow> string" where
  "quoted s =
     [char_of (34::nat)]
     @ concat (map (\<lambda>c. if of_char c \<in> {34, 92 :: nat} then [char_of (92::nat), c] else [c]) s)
     @ [char_of (34::nat)]"

definition redirectPath :: "request \<Rightarrow> string" where
  "redirectPath r =
     (let url = (rqURL r)\<lparr>uScheme := [], uHost := rqHost r, uPath := TrimPrefix (uPath (rqURL r)) ''/'' @ ''/''\<rparr>
      in TrimSuffix (URLString url) ''?'')"

definition resolvePath :: "vfs_root \<Rightarrow> string list \<Rightarrow> string res" where
  "resolvePath rt subPath =
     (let testPath = Join subPath ''/''
      in case EvalSymlinks rt testPath of
           Inl err \<Rightarrow>
             if endsWithoutHTMLExtension testPath then Inl (locationFileNoExtensionError [])
             else Inl err
         | Inr fullPath \<Rightarrow>
             (case vLstat rt fullPath of
                Inl err \<Rightarrow> Inl err
              | Inr fi \<Rightarrow>
                  if isDir fi then Inl (locationDirectoryError fullPath testPath)
                  else if \<not> isRegular fi then Inl (errNotRegular fullPath)
                  else Inr fullPath))"

definition serveFile ::
  "serving_env \<Rightarrow> request \<Rightarrow> vfs_root \<Rightarrow> string \<Rightarrow> string \<Rightarrow> bool \<Rightarrow> response \<Rightarrow> response"
where
  "serveFile env r rt origPath sha accessControl w =
     (case handleContentEncoding r rt origPath w of (fullPath, w1) \<Rightarrow>
        case vOpen rt fullPath of
          Inl err \<Rightarrow> Serve500WithRequest w1
        | Inr f \<Rightarrow>
            (case vLstat rt fullPath of
               Inl err \<Rightarrow> Serve500WithRequest w1
             | Inr fi \<Rightarrow>
                 (let ce = hdrGet (rHeader w1) ''Content-Encoding'';
                      w2 = setHeader ''ETag'' (quoted (etag ce sha)) w1;
                      w3 = (if accessControl then w2
                            else setHeader ''Expires'' (seExpires env)
                                   (setHeader ''Cache-Control'' ''max-age=600'' w2))
                  in case detectContentType env rt origPath of
                       Inl err \<Rightarrow> Serve500WithRequest w3
                     | Inr contentType \<Rightarrow>
                         (let w4 = setHeader ''Content-Type'' contentType w3
                          in if fSeekable f
                             then ServeContent (seDates env) (seBoundary env) r (fiModTime fi) (fContent f) w4
                             else ServeCompressedFile (seDates env) r (fiModTime fi) (fContent f)
                                    (setHeader ''Content-Length'' (decimalInt (fiSize fi)) w4)))))"

text \<open>\<open>serveCustomFile\<close> returns the error and the writer; \<open>io.CopyN\<close> writes the bytes there are and
  fails when there are fewer than the size.\<close>

definition serveCustomFile ::
  "serving_env \<Rightarrow> request \<Rightarrow> nat \<Rightarrow> vfs_root \<Rightarrow> string \<Rightarrow> response \<Rightarrow> goerr option \<times> response"
where
  "serveCustomFile env r code rt origPath w =
     (case handleContentEncoding r rt origPath w of (fullPath, w1) \<Rightarrow>
        case vOpen rt fullPath of
          Inl err \<Rightarrow> (Some err, w1)
        | Inr f \<Rightarrow>
            (case vLstat rt fullPath of
               Inl err \<Rightarrow> (Some err, w1)
             | Inr fi \<Rightarrow>
                 (case detectContentType env rt origPath of
                    Inl err \<Rightarrow> (Some err, w1)
                  | Inr contentType \<Rightarrow>
                      (let w2 = WriteHeader code
                             (setHeader ''Content-Length'' (decimalInt (fiSize fi))
                               (setHeader ''Content-Type'' contentType w1))
                       in if rqMethod r \<noteq> ''HEAD''
                          then (if int (length (fContent f)) < fiSize fi then Some errEOF else None,
                                WriteChunk (Bytes (take (nat (fiSize fi)) (fContent f))) w2)
                          else (None, w2)))))"

text \<open>\<open>Reader.root\<close>: the root, or whether the request was answered without one.\<close>

definition readerRoot :: "vfs \<Rightarrow> handler \<Rightarrow> response \<Rightarrow> (vfs_root + bool) \<times> response" where
  "readerRoot fs h w =
     (case fs (lpPath (hLookupPath h)) (lpSHA256 (hLookupPath h)) of
        Inr rt \<Rightarrow> (Inl rt, w)
      | Inl err \<Rightarrow>
          if errIs err ErrNotExist then (Inr False, w)
          else if errIs err Canceled then (Inr True, Serve404 w)
          else (Inr True, Serve500WithRequest w))"

definition serveRedirectsStatus :: "serving_env \<Rightarrow> redirects \<Rightarrow> response \<Rightarrow> response" where
  "serveRedirectsStatus env rs w =
     WriteChunk (Bytes (Status (seGetenv env) rs @ ''\<newline>''))
       (WriteHeader 200
         (setHeader ''X-Content-Type-Options'' ''nosniff''
           (setHeader ''Content-Type'' ''text/plain; charset=utf-8'' w)))"

text \<open>\<open>tryFile\<close> once the root is known: the path is resolved, then with \<open>index.html\<close> for a directory,
  then with \<open>.html\<close>.\<close>

definition isLocationDirectoryError :: "'a res \<Rightarrow> bool" where
  "isLocationDirectoryError x \<longleftrightarrow> (case x of Inl (locationDirectoryError _ _) \<Rightarrow> True | _ \<Rightarrow> False)"

definition isLocationFileNoExtensionError :: "'a res \<Rightarrow> bool" where
  "isLocationFileNoExtensionError x \<longleftrightarrow> (case x of Inl (locationFileNoExtensionError _) \<Rightarrow> True | _ \<Rightarrow> False)"

definition tryResolved :: "vfs_root \<Rightarrow> string \<Rightarrow> string res \<Rightarrow> string res" where
  "tryResolved rt subPath res =
     (if isLocationFileNoExtensionError res then resolvePath rt [TrimSuffix subPath ''/'' @ ''.html'']
      else res)"

definition serveResolved ::
  "serving_env \<Rightarrow> handler \<Rightarrow> vfs_root \<Rightarrow> string res \<Rightarrow> response \<Rightarrow> bool \<times> response"
where
  "serveResolved env h rt res w =
     (case res of
        Inl err \<Rightarrow> (False, w)
      | Inr fullPath \<Rightarrow>
          if fullPath = ConfigFile
          then (True, serveRedirectsStatus env (ParseRedirects (seParse env) rt) w)
          else (True, serveFile env (hRequest h) rt fullPath (lpSHA256 (hLookupPath h))
                  (lpHasAccessControl (hLookupPath h)) w))"

definition tryFile :: "serving_env \<Rightarrow> vfs \<Rightarrow> handler \<Rightarrow> response \<Rightarrow> bool \<times> response" where
  "tryFile env fs h w =
     (case readerRoot fs h w of
        (Inr served, w') \<Rightarrow> (served, w')
      | (Inl rt, w') \<Rightarrow>
          (let r = hRequest h;
               res = resolvePath rt [hSubPath h]
           in if isLocationDirectoryError res \<and> \<not> endsWithSlash (uPath (rqURL r))
              then (True, Redirect r (redirectPath r) 302 w')
              else
                (let res' = (if isLocationDirectoryError res
                             then resolvePath rt [hSubPath h, ''index.html''] else res)
                 in serveResolved env h rt (tryResolved rt (hSubPath h) res') w')))"

definition tryRedirects :: "serving_env \<Rightarrow> vfs \<Rightarrow> handler \<Rightarrow> response \<Rightarrow> bool \<times> response" where
  "tryRedirects env fs h w =
     (case readerRoot fs h w of
        (Inr served, w') \<Rightarrow> (served, w')
      | (Inl rt, w') \<Rightarrow>
          (case Rewrite (seGetenv env) (ParseRedirects (seParse env) rt) (rqURL (hRequest h)) of
             Inl err \<Rightarrow> (False, w')
           | Inr (rewrittenURL, status) \<Rightarrow>
               if status = 200 then
                 tryFile env fs (h\<lparr>hSubPath := TrimPrefix (uPath rewrittenURL) (lpPrefix (hLookupPath h))\<rparr>) w'
               else (True, Redirect (hRequest h) (uPath rewrittenURL) (nat status) w')))"

definition tryNotFound :: "serving_env \<Rightarrow> vfs \<Rightarrow> handler \<Rightarrow> response \<Rightarrow> bool \<times> response" where
  "tryNotFound env fs h w =
     (case readerRoot fs h w of
        (Inr served, w') \<Rightarrow> (served, w')
      | (Inl rt, w') \<Rightarrow>
          (case resolvePath rt [''404.html''] of
             Inl err \<Rightarrow> (False, w')
           | Inr page404 \<Rightarrow>
               (case serveCustomFile env (hRequest h) 404 rt page404 w' of
                  (None, w'') \<Rightarrow> (True, w'')
                | (Some err, w'') \<Rightarrow>
                    if errIs err Canceled then (False, w'') else (True, Serve500WithRequest w''))))"

subsection \<open>serving.go\<close>

definition diskServeFileHTTP :: "serving_env \<Rightarrow> vfs \<Rightarrow> handler \<Rightarrow> response \<Rightarrow> bool \<times> response" where
  "diskServeFileHTTP env fs h w =
     (case tryFile env fs h w of
        (True, w') \<Rightarrow> (True, w')
      | (False, w') \<Rightarrow>
          (case tryRedirects env fs h w' of
             (True, w'') \<Rightarrow> (True, w'')
           | (False, w'') \<Rightarrow> (False, w'')))"

definition diskServeNotFoundHTTP :: "serving_env \<Rightarrow> vfs \<Rightarrow> handler \<Rightarrow> response \<Rightarrow> response" where
  "diskServeNotFoundHTTP env fs h w =
     (case tryNotFound env fs h w of
        (True, w') \<Rightarrow> w'
      | (False, w') \<Rightarrow> Serve404 w')"

text \<open>\<open>serving.Request\<close>: the serving, a lookup path and the sub-path of the request.  The servings the
  program has are the two instances of \<open>disk.Disk\<close>, \<open>local.Instance\<close> and \<open>zip.Instance\<close>; they differ
  in their \<open>vfs.VFS\<close>.\<close>

datatype serving_kind = localInstance | zipInstance

record serving_request =
  srServing :: serving_kind
  srLookupPath :: lookup_path
  srSubPath :: string

definition requestHandler :: "serving_request \<Rightarrow> request \<Rightarrow> handler" where
  "requestHandler s r = \<lparr>hRequest = r, hLookupPath = srLookupPath s, hSubPath = srSubPath s\<rparr>"

definition requestServeFileHTTP ::
  "serving_env \<Rightarrow> (serving_kind \<Rightarrow> vfs) \<Rightarrow> serving_request \<Rightarrow> request \<Rightarrow> response \<Rightarrow> bool \<times> response"
where
  "requestServeFileHTTP env fs s r w = diskServeFileHTTP env (fs (srServing s)) (requestHandler s r) w"

definition requestServeNotFoundHTTP ::
  "serving_env \<Rightarrow> (serving_kind \<Rightarrow> vfs) \<Rightarrow> serving_request \<Rightarrow> request \<Rightarrow> response \<Rightarrow> response"
where
  "requestServeNotFoundHTTP env fs s r w = diskServeNotFoundHTTP env (fs (srServing s)) (requestHandler s r) w"

subsection \<open>Answered or untouched\<close>

text \<open>A response that has not been answered is left as it was, so that the next handler can answer; one
  that has been answered has been sent.\<close>

definition answered :: "response \<Rightarrow> bool \<times> response \<Rightarrow> bool" where
  "answered w res \<longleftrightarrow> (if fst res then wasSent (snd res) else snd res = w)"

lemma handleContentEncoding_frame:
  assumes "handleContentEncoding r rt p w = (p', w1)"
  shows "rSent w1 = rSent w" "rBody w1 = rBody w"
    "k \<noteq> ''Content-Encoding'' \<Longrightarrow> k \<noteq> ''Content-Length'' \<Longrightarrow> rHeader w1 k = rHeader w k"
  using assms by (auto simp: handleContentEncoding_def Let_def split: if_splits option.splits)

lemma ServeContent_sent: "fresh w \<Longrightarrow> wasSent (ServeContent dates b r t c w)"
  using ServeContent_response [OF _ refl, of w dates b r t c] by (auto simp: wasSent_status)

lemma ServeCompressedFile_sent:
  assumes "fresh w" and "rHeader w ''Content-Type'' \<noteq> None"
  shows "wasSent (ServeCompressedFile dates r t c w)"
  using ServeCompressedFile_answer [OF assms, of dates r t c] by (auto simp: wasSent_status)

lemma serveFile_sent:
  assumes "fresh w"
  shows "wasSent (serveFile env r rt p sha ac w)"
proof -
  obtain p' w1 where h: "handleContentEncoding r rt p w = (p', w1)" by fastforce
  have f: "fresh w1" using handleContentEncoding_frame(1) [OF h] assms by simp
  show ?thesis
    using f by (simp add: serveFile_def h Let_def Serve500WithRequest_def ServeContent_sent
        ServeCompressedFile_sent split: sum.split)
qed

lemma readerRoot_answered:
  "readerRoot fs h w = (Inr served, w') \<Longrightarrow> answered w (served, w')"
  "readerRoot fs h w = (Inl rt, w') \<Longrightarrow> w' = w \<and> fs (lpPath (hLookupPath h)) (lpSHA256 (hLookupPath h)) = Inr rt"
  by (auto simp: readerRoot_def answered_def Serve_defs split: sum.splits if_splits)

lemma readerRoot_error:
  assumes "readerRoot fs h w = (Inr served, w')" and served and "fresh w"
  shows "sentStatus w' = Some 404 \<or> sentStatus w' = Some 500"
proof -
  have "w' = Serve404 w \<or> w' = Serve500WithRequest w"
    using assms(1,2) by (auto simp: readerRoot_def split: sum.splits if_splits)
  then show ?thesis
    using serveErrorPage_fresh(1) [OF assms(3), of content404] serveErrorPage_fresh(1) [OF assms(3), of content500]
    by (auto simp: Serve_defs content404_def content500_def)
qed

lemma serveResolved_answered: "fresh w \<Longrightarrow> answered w (serveResolved env h rt res w)"
  by (auto simp: serveResolved_def answered_def serveFile_sent serveRedirectsStatus_def split: sum.split)

lemma tryFile_answered:
  assumes "fresh w"
  shows "answered w (tryFile env fs h w)"
proof (cases "readerRoot fs h w")
  case (Pair x w')
  then show ?thesis
    using readerRoot_answered [of fs h w] assms serveResolved_answered
    by (cases x) (auto simp: tryFile_def Let_def answered_def split: if_splits)
qed

lemma tryRedirects_answered:
  assumes "fresh w"
  shows "answered w (tryRedirects env fs h w)"
proof (cases "readerRoot fs h w")
  case (Pair x w')
  show ?thesis
  proof (cases x)
    case (Inr served)
    then show ?thesis using Pair readerRoot_answered(1) [of fs h w] by (simp add: tryRedirects_def)
  next
    case (Inl rt)
    then have w': "w' = w" using Pair readerRoot_answered(2) [of fs h w] by simp
    show ?thesis
      using Pair Inl w' assms tryFile_answered [OF assms]
      by (auto simp: tryRedirects_def answered_def split: sum.split)
  qed
qed

lemma diskServeFileHTTP_sent_or_same:
  assumes "fresh w"
  shows "if fst (diskServeFileHTTP env fs h w) then wasSent (snd (diskServeFileHTTP env fs h w))
    else snd (diskServeFileHTTP env fs h w) = w"
proof -
  obtain b w' where t: "tryFile env fs h w = (b, w')" by fastforce
  obtain b' w'' where t': "tryRedirects env fs h w' = (b', w'')" by fastforce
  have a: "answered w (b, w')" using tryFile_answered [OF assms, of env fs h] t by simp
  show ?thesis
  proof (cases b)
    case True
    then show ?thesis using a t by (simp add: diskServeFileHTTP_def answered_def)
  next
    case False
    then have "w' = w" using a by (simp add: answered_def)
    then have "answered w (b', w'')" using tryRedirects_answered [OF assms, of env fs h] t' by simp
    then show ?thesis using False t t' by (cases b') (simp_all add: diskServeFileHTTP_def answered_def)
  qed
qed

text \<open>
  A site's disk serving either answers a request, so that a status has been sent, or leaves the
  response exactly as it was, with no header set, for the next handler.
\<close>

theorem diskServeFileHTTP_answered:
  assumes "fresh w"
  shows "if fst (diskServeFileHTTP env fs h w) then wasSent (snd (diskServeFileHTTP env fs h w))
    else snd (diskServeFileHTTP env fs h w) = w"
  by (rule diskServeFileHTTP_sent_or_same [OF assms])

text \<open>An environment and a handler, for examples.\<close>

definition exampleEnv :: serving_env where
  "exampleEnv =
     \<lparr>seGetenv = allFlags, seParse = (\<lambda>_. None), seDates = \<lparr>dParse = \<lambda>_. None, dFormat = \<lambda>_. []\<rparr>,
      seBoundary = ''b'', seExpires = ''later'', seTypeByExtension = (\<lambda>_. ''text/html''),
      seDetectContentType = (\<lambda>_. ''text/plain'')\<rparr>"

definition exampleLookup :: lookup_path where
  "exampleLookup =
     \<lparr>lpServingType = ''file'', lpPrefix = ''/'', lpPath = ''site'', lpSHA256 = ''abc'',
      lpIsNamespaceProject = False, lpIsHTTPSOnly = False, lpHasAccessControl = False, lpProjectID = 1\<rparr>"

definition exampleHandler :: "string \<Rightarrow> handler" where
  "exampleHandler p =
     \<lparr>hRequest = exampleGet ''h'' (''/'' @ p), hLookupPath = exampleLookup, hSubPath = p\<rparr>"

theorem diskServeFileHTTP_answered_witness:
  "fst (diskServeFileHTTP exampleEnv (\<lambda>_ _. Inl ErrNotExist) (exampleHandler ''a'') newResponse) = False
    \<and> snd (diskServeFileHTTP exampleEnv (\<lambda>_ _. Inl ErrNotExist) (exampleHandler ''a'') newResponse) = newResponse"
proof -
  let ?run = "diskServeFileHTTP exampleEnv (\<lambda>_ _. Inl ErrNotExist) (exampleHandler ''a'') newResponse"
  have f: "fresh newResponse" by (simp add: newResponse_def)
  have "\<not> fst ?run" by (simp add: diskServeFileHTTP_def tryFile_def tryRedirects_def readerRoot_def)
  then show ?thesis
    using diskServeFileHTTP_answered [OF f, of exampleEnv "\<lambda>_ _. Inl ErrNotExist" "exampleHandler ''a''"] by simp
qed

subsection \<open>What a successful answer contains\<close>

lemma resolvePath_regular:
  "resolvePath rt ps = Inr q \<Longrightarrow> \<exists>fi. vLstat rt q = Inr fi \<and> isRegular fi"
  by (auto simp: resolvePath_def Let_def split: sum.splits if_splits)

text \<open>The file sent for a resolved path: itself, or a compressed variant of it.\<close>

definition variantOf :: "vfs_root \<Rightarrow> string \<Rightarrow> string \<Rightarrow> bool" where
  "variantOf rt q p \<longleftrightarrow> p = q
     \<or> (\<exists>ext fi. ext \<in> {''.br'', ''.gz''} \<and> p = q @ ext \<and> vLstat rt p = Inr fi \<and> isRegular fi)"

lemma compressedFiles_Some:
  assumes "compressedFiles rt p e = Some fi"
  shows "\<exists>ext \<in> {''.br'', ''.gz''}. map_of compressedEncodings e = Some ext \<and> vLstat rt (p @ ext) = Inr fi \<and> isRegular fi"
proof -
  obtain ext where e: "map_of compressedEncodings e = Some ext"
    using assms by (auto simp: compressedFiles_def split: option.splits)
  then have "ext \<in> {''.br'', ''.gz''}" by (auto simp: compressedEncodings_def split: if_splits)
  then show ?thesis using assms e by (auto simp: compressedFiles_def split: sum.splits if_splits)
qed

lemma handleContentEncoding_variant:
  assumes "handleContentEncoding r rt p w = (p', w1)"
  shows "variantOf rt p p'"
proof (cases "hdrGet (rqHeader r) ''Range'' \<noteq> []")
  case True
  then show ?thesis using assms by (simp add: handleContentEncoding_def variantOf_def)
next
  case False
  define e where "e = NegotiateContentEncoding r
    (filter (\<lambda>e. compressedFiles rt p e \<noteq> None) compressedEncodingsPriority @ [''identity''])"
  note run = assms [unfolded handleContentEncoding_def Let_def, folded e_def]
  show ?thesis
  proof (cases "compressedFiles rt p e")
    case None
    then show ?thesis using run False by (simp add: variantOf_def)
  next
    case (Some fi)
    then have "p' = p @ the (map_of compressedEncodings e)" using run False by simp
    then show ?thesis using compressedFiles_Some [OF Some] unfolding variantOf_def by fastforce
  qed
qed

lemma serveFile_200:
  assumes "fresh w" and "rBody w = []" and "sentStatus (serveFile env r rt q sha ac w) = Some 200"
  shows "\<exists>p f. variantOf rt q p \<and> vOpen rt p = Inr f
    \<and> rBody (serveFile env r rt q sha ac w) = (if rqMethod r = ''HEAD'' then [] else [Bytes (fContent f)])"
proof -
  obtain p w1 where h: "handleContentEncoding r rt q w = (p, w1)" by fastforce
  note fr = handleContentEncoding_frame(1,2) [OF h]
  have e: "sentStatus (serveErrorPage content500 v) = Some 500" if "fresh v" for v
    using serveErrorPage_fresh(1) [OF that, of content500] by (simp add: content500_def)
  obtain f where f: "vOpen rt p = Inr f"
    using assms e [of w1] fr by (cases "vOpen rt p") (auto simp: serveFile_def h Serve500WithRequest_def)
  obtain fi where fi: "vLstat rt p = Inr fi"
    using assms e [of w1] fr f by (cases "vLstat rt p") (auto simp: serveFile_def h Serve500WithRequest_def)
  obtain ct where ct: "detectContentType env rt q = Inr ct"
    using assms e fr f fi
    by (cases "detectContentType env rt q") (auto simp: serveFile_def h Serve500WithRequest_def Let_def)
  define w3 where "w3 = (if ac then setHeader ''ETag'' (quoted (etag (hdrGet (rHeader w1) ''Content-Encoding'') sha)) w1
    else setHeader ''Expires'' (seExpires env) (setHeader ''Cache-Control'' ''max-age=600''
      (setHeader ''ETag'' (quoted (etag (hdrGet (rHeader w1) ''Content-Encoding'') sha)) w1)))"
  have w3: "fresh w3" "rBody w3 = []" using assms fr by (simp_all add: w3_def)
  have run: "serveFile env r rt q sha ac w =
      (if fSeekable f
       then ServeContent (seDates env) (seBoundary env) r (fiModTime fi) (fContent f) (setHeader ''Content-Type'' ct w3)
       else ServeCompressedFile (seDates env) r (fiModTime fi) (fContent f)
         (setHeader ''Content-Length'' (decimalInt (fiSize fi)) (setHeader ''Content-Type'' ct w3)))"
    using f fi ct unfolding serveFile_def h w3_def by (simp add: Let_def)
  have "rBody (serveFile env r rt q sha ac w) = (if rqMethod r = ''HEAD'' then [] else [Bytes (fContent f)])"
  proof (cases "fSeekable f")
    case True
    then show ?thesis
      using ServeContent_response [OF _ refl, of "setHeader ''Content-Type'' ct w3" "seDates env" "seBoundary env" r
          "fiModTime fi" "fContent f"] w3 run assms(3) by auto
  next
    case False
    then show ?thesis
      using ServeCompressedFile_answer [of "setHeader ''Content-Length'' (decimalInt (fiSize fi)) (setHeader ''Content-Type'' ct w3)"
          "seDates env" r "fiModTime fi" "fContent f"] w3 run assms(3) by auto
  qed
  then show ?thesis using f handleContentEncoding_variant [OF h] by blast
qed

text \<open>The ways a sub-path is turned into a path of the root.\<close>

definition resolvesTo :: "vfs_root \<Rightarrow> string \<Rightarrow> string \<Rightarrow> bool" where
  "resolvesTo rt subPath q \<longleftrightarrow>
     (\<exists>ps \<in> {[subPath], [subPath, ''index.html''], [TrimSuffix subPath ''/'' @ ''.html'']}. resolvePath rt ps = Inr q)"

lemma tryResolved_resolvesTo:
  assumes "tryResolved rt s (if b then resolvePath rt [s, ''index.html''] else resolvePath rt [s]) = Inr q"
  shows "resolvesTo rt s q"
proof -
  have "resolvePath rt [TrimSuffix s ''/'' @ ''.html''] = Inr q \<or> resolvePath rt [s, ''index.html''] = Inr q
    \<or> resolvePath rt [s] = Inr q"
    using assms by (simp add: tryResolved_def split: if_splits)
  then show ?thesis unfolding resolvesTo_def by blast
qed

lemma resolvesTo_regular: "resolvesTo rt s q \<Longrightarrow> \<exists>fi. vLstat rt q = Inr fi \<and> isRegular fi"
  using resolvePath_regular unfolding resolvesTo_def by blast

lemma tryFile_resolved:
  assumes "fresh w" and "tryFile env fs h w = (True, w')" and "sentStatus w' = Some 200"
  shows "\<exists>rt q. fs (lpPath (hLookupPath h)) (lpSHA256 (hLookupPath h)) = Inr rt \<and> resolvesTo rt (hSubPath h) q
    \<and> serveResolved env h rt (Inr q) w = (True, w')"
proof -
  obtain x v where rr: "readerRoot fs h w = (x, v)" by fastforce
  obtain rt where x: "x = Inl rt"
  proof (cases x)
    case (Inr served)
    then have "served" "v = w'" using assms(2) rr by (simp_all add: tryFile_def)
    then show ?thesis using readerRoot_error [OF rr [unfolded Inr] _ assms(1)] assms(3) by simp
  qed
  then have v: "v = w" and rt: "fs (lpPath (hLookupPath h)) (lpSHA256 (hLookupPath h)) = Inr rt"
    using readerRoot_answered(2) rr by blast+
  let ?res = "resolvePath rt [hSubPath h]"
  note run = assms(2) [unfolded tryFile_def Let_def rr x v, simplified prod.case sum.case]
  have nr: "\<not> (isLocationDirectoryError ?res \<and> \<not> endsWithSlash (uPath (rqURL (hRequest h))))"
  proof
    assume "isLocationDirectoryError ?res \<and> \<not> endsWithSlash (uPath (rqURL (hRequest h)))"
    then have "w' = Redirect (hRequest h) (redirectPath (hRequest h)) 302 w" using run by simp
    then show False using sentStatus_Redirect [OF assms(1)] assms(3) by simp
  qed
  define res where "res = tryResolved rt (hSubPath h)
    (if isLocationDirectoryError ?res then resolvePath rt [hSubPath h, ''index.html''] else ?res)"
  have s: "serveResolved env h rt res w = (True, w')" using run nr unfolding res_def by simp
  then obtain q where q: "res = Inr q" by (cases res) (simp_all add: serveResolved_def)
  then show ?thesis using s rt tryResolved_resolvesTo q [unfolded res_def] by blast
qed

lemma tryFile_200:
  assumes "fresh w" and "rBody w = []" and "tryFile env fs h w = (True, w')" and "sentStatus w' = Some 200"
  shows "\<exists>rt q. fs (lpPath (hLookupPath h)) (lpSHA256 (hLookupPath h)) = Inr rt \<and> resolvesTo rt (hSubPath h) q
    \<and> (\<exists>fi. vLstat rt q = Inr fi \<and> isRegular fi)
    \<and> (q = ConfigFile \<and> rBody w' = [Bytes (Status (seGetenv env) (ParseRedirects (seParse env) rt) @ ''\<newline>'')]
       \<or> (\<exists>p f. variantOf rt q p \<and> vOpen rt p = Inr f
            \<and> rBody w' = (if rqMethod (hRequest h) = ''HEAD'' then [] else [Bytes (fContent f)])))"
proof -
  obtain rt q where rt: "fs (lpPath (hLookupPath h)) (lpSHA256 (hLookupPath h)) = Inr rt"
    and rq: "resolvesTo rt (hSubPath h) q" and run: "serveResolved env h rt (Inr q) w = (True, w')"
    using tryFile_resolved [OF assms(1,3,4)] by blast
  note reg = resolvesTo_regular [OF rq]
  show ?thesis
  proof (cases "q = ConfigFile")
    case True
    then have "rBody w' = [Bytes (Status (seGetenv env) (ParseRedirects (seParse env) rt) @ ''\<newline>'')]"
      using run assms(2) by (auto simp: serveResolved_def serveRedirectsStatus_def)
    then show ?thesis using True rt rq reg by blast
  next
    case False
    then have w': "w' = serveFile env (hRequest h) rt q (lpSHA256 (hLookupPath h)) (lpHasAccessControl (hLookupPath h)) w"
      using run by (simp add: serveResolved_def)
    then show ?thesis using serveFile_200 [OF assms(1,2) assms(4) [unfolded w']] rt rq reg by blast
  qed
qed

text \<open>
  C3: when a file request is answered with 200, the sub-path, with \<open>index.html\<close> or \<open>.html\<close> added where
  the code tries that, resolves to a regular file of the site's own root, and the body is the whole
  content of that file or of a regular compressed variant beside it (nothing for \<open>HEAD\<close>), or the
  status page when the file is \<open>_redirects\<close>.
\<close>

theorem tryFile_serves_site_file:
  assumes "fresh w" and "rBody w = []" and "tryFile env fs h w = (True, w')" and "sentStatus w' = Some 200"
  shows "\<exists>rt q. fs (lpPath (hLookupPath h)) (lpSHA256 (hLookupPath h)) = Inr rt \<and> resolvesTo rt (hSubPath h) q
    \<and> (\<exists>fi. vLstat rt q = Inr fi \<and> isRegular fi)
    \<and> (q = ConfigFile \<and> rBody w' = [Bytes (Status (seGetenv env) (ParseRedirects (seParse env) rt) @ ''\<newline>'')]
       \<or> (\<exists>p f. variantOf rt q p \<and> vOpen rt p = Inr f
            \<and> rBody w' = (if rqMethod (hRequest h) = ''HEAD'' then [] else [Bytes (fContent f)])))"
  by (rule tryFile_200 [OF assms])

lemma exampleRoot_encoding:
  "handleContentEncoding (exampleGet host path) exampleRoot ''public/index.html'' w = (''public/index.html'', w)"
  by (simp add: handleContentEncoding_def exampleGet_def hdrGet_def compressedFiles_def exampleRoot_def
      compressedEncodings_def compressedEncodingsPriority_def NegotiateContentEncoding_def ParseAccept_def
      hdrValues_def qualityEqZero_def)

lemma exampleRoot_index:
  "vOpen exampleRoot ''public/index.html'' = Inr \<lparr>fContent = ''hello'', fSeekable = True\<rparr>"
  "vLstat exampleRoot ''public/index.html'' = Inr (exampleInfo RegularFile)"
  by (simp_all add: exampleRoot_def)

lemma exampleRoot_serves:
  "sentStatus (serveFile exampleEnv (exampleGet host path) exampleRoot ''public/index.html'' sha ac newResponse) = Some 200"
  unfolding serveFile_def exampleRoot_encoding prod.case exampleRoot_index sum.case Let_def
  by (simp add: detectContentType_def exampleEnv_def exampleInfo_def
      ServeContent_def checkPreconditions_def checkIfMatch_def checkIfNoneMatch_def checkIfModifiedSince_def
      checkIfUnmodifiedSince_def exampleGet_def hdrGet_def Let_def parseRange_def sentStatus_def newResponse_def)

theorem tryFile_serves_site_file_witness:
  "\<exists>w' q p f. tryFile exampleEnv (\<lambda>_ _. Inr exampleRoot) (exampleHandler ''public/index'') newResponse = (True, w')
    \<and> resolvesTo exampleRoot ''public/index'' q \<and> variantOf exampleRoot q p \<and> vOpen exampleRoot p = Inr f
    \<and> rBody w' = [Bytes (fContent f)]"
proof -
  let ?run = "tryFile exampleEnv (\<lambda>_ _. Inr exampleRoot) (exampleHandler ''public/index'') newResponse"
  let ?r = "exampleGet ''h'' ''/public/index''"
  have f: "fresh newResponse" "rBody newResponse = []" by (simp_all add: newResponse_def)
  have r1: "resolvePath exampleRoot [''public/index''] = Inl (locationFileNoExtensionError [])" by code_simp
  have r2: "resolvePath exampleRoot [TrimSuffix ''public/index'' ''/'' @ ''.html''] = Inr ''public/index.html''" by code_simp
  have run: "?run = (True, serveFile exampleEnv ?r exampleRoot ''public/index.html'' ''abc'' False newResponse)"
    unfolding tryFile_def readerRoot_def exampleHandler_def exampleLookup_def tryResolved_def serveResolved_def
      isLocationDirectoryError_def isLocationFileNoExtensionError_def Let_def ConfigFile_def
    by (simp add: r1 r2)
  have ne: "\<not> resolvesTo exampleRoot ''public/index'' ConfigFile"
    using resolvesTo_regular [of exampleRoot "''public/index''" ConfigFile]
    by (auto simp: ConfigFile_def exampleRoot_def)
  show ?thesis
    using tryFile_serves_site_file [OF f run exampleRoot_serves] run ne
    by (auto simp: exampleHandler_def exampleGet_def)
qed

subsection \<open>Cache headers\<close>

text \<open>Whether a response, if it is sent, carries the header field as it is in the writer before.\<close>

definition keepsField :: "string \<Rightarrow> response \<Rightarrow> response \<Rightarrow> bool" where
  "keepsField k w w' \<longleftrightarrow> (\<forall>code h. rSent w' = Some (code, h) \<longrightarrow> h k = rHeader w k)"

definition stableField :: "string \<Rightarrow> bool" where
  "stableField k \<longleftrightarrow> k \<in> {''Cache-Control'', ''Expires'', ''Content-Encoding''}"

lemma canonical_ranges [simp]:
  "CanonicalHeaderKey ''Accept-Ranges'' = ''Accept-Ranges''" "CanonicalHeaderKey ''Content-Range'' = ''Content-Range''"
  by code_simp+

lemma keeps_serveErrorPage: "fresh w \<Longrightarrow> stableField k \<Longrightarrow> keepsField k w (serveErrorPage c w)"
  by (auto simp: keepsField_def stableField_def serveErrorPage_def)

lemma setLastModified_stable:
  "stableField k \<Longrightarrow> rHeader (setLastModified dates t w) k = rHeader w k"
  by (auto simp: stableField_def setLastModified_def)

lemma keeps_checkPreconditions:
  assumes "checkPreconditions dates r t w = (d, w')" and "fresh w" and "stableField k"
  shows "keepsField k w w'"
proof -
  have "keepsField k w (writeNotModified w)" "keepsField k w (WriteHeader 412 w)" "keepsField k w w"
    using assms(2,3) by (auto simp: keepsField_def stableField_def writeNotModified_def Let_def)
  then show ?thesis using assms(1)
    by (auto simp: checkPreconditions_def Let_def split: cond_result.splits if_splits)
qed

lemma keeps_ServeCompressedFile:
  assumes "fresh w" and "stableField k"
  shows "keepsField k w (ServeCompressedFile dates r t c w)"
proof -
  obtain d w1 where p: "checkPreconditions dates r t (setLastModified dates t w) = (d, w1)" by fastforce
  have k: "keepsField k (setLastModified dates t w) w1" using keeps_checkPreconditions [OF p] assms by simp
  show ?thesis
  proof (cases d)
    case True
    then show ?thesis using k assms(2)
      by (simp add: ServeCompressedFile_def serveContent_def p keepsField_def setLastModified_stable)
  next
    case False
    then have w1: "w1 = setLastModified dates t w" using checkPreconditions_done [OF p] assms(1) by simp
    have "rHeader w1 k = rHeader w k" using w1 setLastModified_stable [OF assms(2)] by simp
    moreover have "keepsField k w1 (serveErrorPage content500 w1)"
      using keeps_serveErrorPage assms w1 by simp
    ultimately show ?thesis using False w1 assms(1)
      by (auto simp: ServeCompressedFile_def serveContent_def p Let_def keepsField_def Serve500_def)
  qed
qed

lemma keeps_ServeContent:
  assumes "fresh w" and "stableField k"
  shows "keepsField k w (ServeContent dates b r t c w)"
proof -
  obtain d w1 where p: "checkPreconditions dates r t (setLastModified dates t w) = (d, w1)" by fastforce
  have k: "keepsField k (setLastModified dates t w) w1" using keeps_checkPreconditions [OF p] assms by simp
  show ?thesis
  proof (cases d)
    case True
    then show ?thesis using k assms(2)
      by (simp add: ServeContent_def p keepsField_def setLastModified_stable)
  next
    case False
    then have w1: "w1 = setLastModified dates t w" using checkPreconditions_done [OF p] assms(1) by simp
    have f: "fresh w1" and h: "rHeader w1 k = rHeader w k" using w1 assms setLastModified_stable by simp_all
    have k: "k \<noteq> ''Content-Range''" "k \<noteq> ''Content-Type''" "k \<noteq> ''Content-Length''" "k \<noteq> ''Accept-Ranges''"
      "k \<noteq> ''X-Content-Type-Options''" using assms(2) by (auto simp: stableField_def)
    define req where "req = (if hdrGet (rqHeader r) ''Range'' \<noteq> [] \<and> checkIfRange dates r t w1 = condFalse then []
      else hdrGet (rqHeader r) ''Range'')"
    show ?thesis
    proof (cases "parseRange req (int (length c))")
      case (Inl e)
      then show ?thesis unfolding ServeContent_def p using False f h k
        by (cases e) (simp_all add: keepsField_def Let_def HttpError_def flip: req_def)
    next
      case (Inr rs0)
      define rs where "rs = (if sum_list (map snd rs0) > int (length c) then [] else rs0)"
      define tup where "tup = (case rs of [] \<Rightarrow> (200::nat, c, w1)
          | [ra] \<Rightarrow> (206, slice c ra, setHeader ''Content-Range'' (contentRange (int (length c)) ra) w1)
          | _ \<Rightarrow> (206, multipartBody b (hdrGet (rHeader w1) ''Content-Type'') c rs,
                 setHeader ''Content-Type'' (''multipart/byteranges; boundary='' @ b) w1))"
      obtain code body w2 where tp: "tup = (code, body, w2)" by (metis prod_cases3)
      have w2: "fresh w2" "rHeader w2 k = rHeader w1 k"
        using tp f k unfolding tup_def by (auto split: list.splits)
      have "ServeContent dates b r t c w =
          (let w3 = setHeader ''Accept-Ranges'' ''bytes'' w2;
               w4 = (if hdrGet (rHeader w3) ''Content-Encoding'' = []
                     then setHeader ''Content-Length'' (decimalInt (int (length body))) w3 else w3);
               w5 = WriteHeader code w4
           in if rqMethod r \<noteq> ''HEAD'' then WriteChunk (Bytes body) w5 else w5)"
        using False Inr tp unfolding ServeContent_def p tup_def rs_def req_def by (simp add: Let_def)
      then show ?thesis using w2 h k by (simp add: keepsField_def Let_def)
    qed
  qed
qed

lemma keepsField_via:
  assumes "keepsField k v w'" and "rHeader v k = rHeader w k"
  shows "keepsField k w w'"
  using assms by (simp add: keepsField_def)

lemma keeps_serveFile:
  assumes "fresh w" and "k \<in> {''Cache-Control'', ''Expires''}"
  shows "keepsField k w (serveFile env r rt q sha True w)"
proof -
  obtain p w1 where h: "handleContentEncoding r rt q w = (p, w1)" by fastforce
  have f: "fresh w1" and k1: "rHeader w1 k = rHeader w k"
    using handleContentEncoding_frame(1) [OF h] handleContentEncoding_frame(3) [OF h, of k] assms by auto
  have st: "stableField k" using assms(2) by (auto simp: stableField_def)
  have k: "k \<noteq> ''Etag''" "k \<noteq> ''Content-Type''" "k \<noteq> ''Content-Length''" using assms(2) by auto
  have e: "keepsField k w (serveErrorPage c v)" if "fresh v" "rHeader v k = rHeader w k" for c v
    using keeps_serveErrorPage [OF that(1) st] that(2) keepsField_via by blast
  have s: "keepsField k w (ServeContent d b r t c v)" if "fresh v" "rHeader v k = rHeader w k" for d b t c v
    using keeps_ServeContent [OF that(1) st] that(2) keepsField_via by blast
  have z: "keepsField k w (ServeCompressedFile d r t c v)" if "fresh v" "rHeader v k = rHeader w k" for d t c v
    using keeps_ServeCompressedFile [OF that(1) st] that(2) keepsField_via by blast
  show ?thesis
    using f k1 k by (simp add: serveFile_def h Let_def Serve500WithRequest_def e s z split: sum.split)
qed

text \<open>
  C11: for a project with access control no cache header is added: whatever is answered, \<open>Cache-Control\<close>
  and \<open>Expires\<close> are sent as the writer had them before.
\<close>

theorem serveFile_private_not_cached:
  assumes "fresh w" and "k \<in> {''Cache-Control'', ''Expires''}"
    and "rSent (serveFile env r rt q sha True w) = Some (code, h)"
  shows "h k = rHeader w k"
  using keeps_serveFile [OF assms(1,2)] assms(3) by (simp add: keepsField_def)

theorem serveFile_private_not_cached_witness:
  "\<exists>code h. rSent (serveFile exampleEnv (exampleGet ''h'' ''/public/index.html'') exampleRoot ''public/index.html'' ''abc'' True newResponse)
      = Some (code, h) \<and> h ''Cache-Control'' = None"
proof -
  let ?w = "serveFile exampleEnv (exampleGet ''h'' ''/public/index.html'') exampleRoot ''public/index.html'' ''abc'' True newResponse"
  have f: "fresh newResponse" by (simp add: newResponse_def)
  obtain code h where "rSent ?w = Some (code, h)"
    using exampleRoot_serves [of "''h''" "''/public/index.html''" "''abc''" True] by (auto simp: sentStatus_def)
  then show ?thesis
    using serveFile_private_not_cached [OF f, of "''Cache-Control''"] by (simp add: newResponse_def)
qed

subsection \<open>Errors after an encoding was chosen\<close>

text \<open>
  When the chosen compressed variant cannot be opened, the 500 page is sent with the
  \<open>Content-Encoding\<close> of that variant although the page is not compressed: the header set during
  negotiation is not taken back.
\<close>

theorem serveFile_error_keeps_encoding:
  assumes "fresh w" and "handleContentEncoding r rt q w = (p, w1)" and "vOpen rt p = Inl err"
  shows "sentStatus (serveFile env r rt q sha ac w) = Some 500
    \<and> sentHeader (serveFile env r rt q sha ac w) ''Content-Encoding'' = hdrGet (rHeader w1) ''Content-Encoding''"
proof -
  have f: "fresh w1" using handleContentEncoding_frame(1) [OF assms(2)] assms(1) by simp
  have run: "serveFile env r rt q sha ac w = serveErrorPage content500 w1"
    using assms(2,3) by (simp add: serveFile_def Serve500WithRequest_def)
  have "keepsField ''Content-Encoding'' w1 (serveErrorPage content500 w1)"
    using keeps_serveErrorPage [OF f] by (simp add: stableField_def)
  moreover have "sentStatus (serveErrorPage content500 w1) = Some 500"
    using serveErrorPage_fresh(1) [OF f, of content500] by (simp add: content500_def)
  ultimately show ?thesis unfolding run
    by (auto simp: keepsField_def sentStatus_def sentHeader_def hdrGet_def)
qed

definition brokenRoot :: vfs_root where
  "brokenRoot =
     \<lparr>vLstat = (\<lambda>n. Inr (exampleInfo RegularFile)), vReadlink = (\<lambda>n. Inl errNotSymlink),
      vOpen = (\<lambda>n. Inl ErrPermission)\<rparr>"

theorem serveFile_error_keeps_encoding_witness:
  "sentStatus (serveFile exampleEnv (exampleGet ''h'' ''/a''\<lparr>rqHeader := [''Accept-Encoding'' \<mapsto> [''gzip'']]\<rparr>)
      brokenRoot ''a'' ''abc'' False newResponse) = Some 500
    \<and> sentHeader (serveFile exampleEnv (exampleGet ''h'' ''/a''\<lparr>rqHeader := [''Accept-Encoding'' \<mapsto> [''gzip'']]\<rparr>)
      brokenRoot ''a'' ''abc'' False newResponse) ''Content-Encoding'' = ''gzip''"
proof -
  let ?r = "exampleGet ''h'' ''/a''\<lparr>rqHeader := [''Accept-Encoding'' \<mapsto> [''gzip'']]\<rparr>"
  have f: "fresh newResponse" by (simp add: newResponse_def)
  have a: "acceptLine ''gzip'' = [\<lparr>asValue = ''gzip'', asQ = Fraction 1 1\<rparr>]" by code_simp
  have h: "handleContentEncoding ?r brokenRoot ''a'' newResponse = (''a.gz'',
      setHeader ''Content-Length'' (decimalInt 5) (setHeader ''Content-Encoding'' ''gzip'' newResponse))"
    by (simp add: handleContentEncoding_def hdrGet_def compressedFiles_def brokenRoot_def exampleInfo_def isRegular_def
        compressedEncodings_def compressedEncodingsPriority_def NegotiateContentEncoding_def ParseAccept_def
        hdrValues_def a encodingStep_def qualityEqZero_def)
  have o: "vOpen brokenRoot ''a.gz'' = Inl ErrPermission" by (simp add: brokenRoot_def)
  show ?thesis using serveFile_error_keeps_encoding [OF f h o, of exampleEnv "''abc''" False] by (simp add: hdrGet_def)
qed

subsection \<open>Redirect targets\<close>

lemma TrimSuffix_prefix:
  assumes "HasPrefix s (p @ [c])" and "c \<noteq> x"
  shows "HasPrefix (TrimSuffix s [x]) (p @ [c])"
proof -
  obtain t where s: "s = p @ c # t" using assms(1) by (auto elim: HasPrefixE)
  show ?thesis
  proof (cases t rule: rev_cases)
    case Nil
    then have "\<not> HasSuffix s [x]" using s assms(2) by (simp add: HasSuffix_def)
    then show ?thesis using assms(1) by (simp add: TrimSuffix_def)
  next
    case (snoc ys y)
    then have "TrimSuffix s [x] = (if y = x then p @ c # ys else s)"
      using s by (auto simp: TrimSuffix_def HasSuffix_def)
    then show ?thesis using assms(1) s by (auto simp: HasPrefix_def)
  qed
qed

text \<open>
  The redirect that adds a trailing slash stays on the requested host: the address handed to
  \<open>http.Redirect\<close> starts with two slashes, the request's host and a slash, also when the path itself
  starts with several slashes.
\<close>

theorem redirectPath_same_host:
  assumes "rqHost r \<noteq> []" and "uUser (rqURL r) = None" and "uOpaque (rqURL r) = []"
  shows "HasPrefix (redirectPath r) (''//'' @ escape (rqHost r) encodeHost @ ''/'')"
proof -
  let ?p = "TrimPrefix (uPath (rqURL r)) ''/'' @ ''/''"
  let ?u = "(rqURL r)\<lparr>uScheme := [], uHost := rqHost r, uPath := ?p\<rparr>"
  have ne: "EscapedPath ?u \<noteq> []"
  proof -
    have "escapeByte encodePath c \<noteq> []" for c by (simp add: escapeByte_def)
    then have "escape s encodePath \<noteq> []" if "s \<noteq> []" for s
      using that by (cases s) (simp_all add: escape_def)
    then show ?thesis by (simp add: EscapedPath_def)
  qed
  have "\<exists>rest. URLString ?u = ''//'' @ escape (rqHost r) encodeHost @ ''/'' @ rest"
  proof (cases "HasPrefix (EscapedPath ?u) ''/''")
    case True
    then obtain t where "EscapedPath ?u = ''/'' @ t" by (auto elim: HasPrefixE)
    then show ?thesis using assms by (simp add: URLString_def Let_def)
  next
    case False
    then show ?thesis using assms ne by (simp add: URLString_def Let_def)
  qed
  then obtain rest where "URLString ?u = (''//'' @ escape (rqHost r) encodeHost @ ''/'') @ rest" by auto
  then have "HasPrefix (URLString ?u) ((''//'' @ escape (rqHost r) encodeHost) @ [slash])"
    by (simp add: HasPrefix_def)
  then have "HasPrefix (TrimSuffix (URLString ?u) ''?'') ((''//'' @ escape (rqHost r) encodeHost) @ [slash])"
    by (rule TrimSuffix_prefix) simp
  then show ?thesis by (simp add: redirectPath_def Let_def)
qed

theorem redirectPath_same_host_witness:
  "HasPrefix (redirectPath (exampleGet ''site.example'' ''//evil.example/dir'')) ''//site.example/''"
proof -
  have "escape ''site.example'' encodeHost = ''site.example''" by code_simp
  then show ?thesis
    using redirectPath_same_host [of "exampleGet ''site.example'' ''//evil.example/dir''"]
    by (simp add: exampleGet_def emptyURL_def)
qed

text \<open>A site whose \<open>_redirects\<close> file has the single rule \<open>/go/* /:splat 302\<close>.\<close>

definition splatRule :: rule where
  "splatRule = \<lparr>rlFrom = ''/go/*'', rlTo = ''/:splat'', rlStatus = 302, rlForce = False, rlParams = None\<rparr>"

definition splatEnv :: serving_env where
  "splatEnv = exampleEnv\<lparr>seParse := (\<lambda>_. Some [splatRule])\<rparr>"

definition splatRoot :: vfs_root where
  "splatRoot =
     \<lparr>vLstat = (\<lambda>n. if n = ''_redirects'' then Inr (exampleInfo RegularFile) else Inl ErrNotExist),
      vReadlink = (\<lambda>n. Inl errNotSymlink),
      vOpen = (\<lambda>n. if n = ''_redirects'' then Inr \<lparr>fContent = ''/go/* /:splat 302'', fSeekable = True\<rparr>
                 else Inl ErrNotExist)\<rparr>"


end
