(* ===== verification/Domain.thy ===== *)
theory Domain
  imports Disk_Reader
begin

text \<open>
  Domains, \<open>internal/domain\<close>.  A domain is nil (\<open>None\<close>) or a name, a certificate and a resolver.  The
  resolver asks the domain cache, whose content changes from call to call, so it takes and returns a
  state, and every operation of this theory passes that state on; this keeps the calls of \<open>Resolve\<close> that
  one page request makes apart.  \<open>tls.X509KeyPair\<close> is a parameter.  Error tracking and log fields are
  not modelled.
\<close>

subsection \<open>Domains and their resolvers\<close>

type_synonym 's resolver = "request \<Rightarrow> 's \<Rightarrow> serving_request res \<times> 's"

record 's domain =
  dmName :: string
  dmCertificateCert :: string
  dmCertificateKey :: string
  dmResolver :: "'s resolver"
  dmCertificateOnce :: bool
  dmCertificate :: "string option"
  dmCertificateError :: "goerr option"

definition newDomain :: "string \<Rightarrow> string \<Rightarrow> string \<Rightarrow> 's resolver \<Rightarrow> 's domain" where
  "newDomain name cert key res =
     \<lparr>dmName = name, dmCertificateCert = cert, dmCertificateKey = key, dmResolver = res,
      dmCertificateOnce = False, dmCertificate = None, dmCertificateError = None\<rparr>"

definition domainResolve :: "'s domain option \<Rightarrow> request \<Rightarrow> 's \<Rightarrow> serving_request res \<times> 's" where
  "domainResolve d r s =
     (case d of None \<Rightarrow> (Inl ErrDomainDoesNotExist, s) | Some dm \<Rightarrow> dmResolver dm r s)"

definition GetLookupPath :: "'s domain option \<Rightarrow> request \<Rightarrow> 's \<Rightarrow> lookup_path res \<times> 's" where
  "GetLookupPath d r s =
     (case domainResolve d r s of
        (Inl err, s') \<Rightarrow> (Inl err, s')
      | (Inr servingReq, s') \<Rightarrow> (Inr (srLookupPath servingReq), s'))"

definition IsHTTPSOnly :: "'s domain option \<Rightarrow> request \<Rightarrow> 's \<Rightarrow> bool \<times> 's" where
  "IsHTTPSOnly d r s =
     (case GetLookupPath d r s of (Inr lp, s') \<Rightarrow> (lpIsHTTPSOnly lp, s') | (Inl _, s') \<Rightarrow> (False, s'))"

definition IsAccessControlEnabled :: "'s domain option \<Rightarrow> request \<Rightarrow> 's \<Rightarrow> bool \<times> 's" where
  "IsAccessControlEnabled d r s =
     (case GetLookupPath d r s of (Inr lp, s') \<Rightarrow> (lpHasAccessControl lp, s') | (Inl _, s') \<Rightarrow> (False, s'))"

definition IsNamespaceProject :: "'s domain option \<Rightarrow> request \<Rightarrow> 's \<Rightarrow> bool \<times> 's" where
  "IsNamespaceProject d r s =
     (case GetLookupPath d r s of (Inr lp, s') \<Rightarrow> (lpIsNamespaceProject lp, s') | (Inl _, s') \<Rightarrow> (False, s'))"

definition GetProjectID :: "'s domain option \<Rightarrow> request \<Rightarrow> 's \<Rightarrow> nat \<times> 's" where
  "GetProjectID d r s =
     (case GetLookupPath d r s of (Inr lp, s') \<Rightarrow> (lpProjectID lp, s') | (Inl _, s') \<Rightarrow> (0, s'))"

text \<open>\<open>EnsureCertificate\<close> parses the pair once and keeps the outcome.\<close>

definition EnsureCertificate ::
  "(string \<Rightarrow> string \<Rightarrow> string res) \<Rightarrow> 's domain option \<Rightarrow> (string option \<times> goerr option) \<times> 's domain option"
where
  "EnsureCertificate x509 d =
     (case d of
        None \<Rightarrow> ((None, Some (otherErr ''tls certificates can be loaded only for pages with configuration'')), d)
      | Some dm \<Rightarrow>
          if dmCertificateKey dm = [] \<or> dmCertificateCert dm = []
          then ((None, Some (otherErr ''tls certificates can be loaded only for pages with configuration'')), d)
          else
            (let dm' = (if dmCertificateOnce dm then dm
                        else case x509 (dmCertificateCert dm) (dmCertificateKey dm) of
                            Inl err \<Rightarrow> dm\<lparr>dmCertificateOnce := True, dmCertificateError := Some err\<rparr>
                          | Inr cert \<Rightarrow> dm\<lparr>dmCertificateOnce := True, dmCertificate := Some cert\<rparr>)
             in ((dmCertificate dm', dmCertificateError dm'), Some dm')))"

subsection \<open>Serving\<close>

definition serveResolveError :: "goerr \<Rightarrow> response \<Rightarrow> response" where
  "serveResolveError err w = (if errIs err ErrDomainDoesNotExist then Serve404 w else Serve503 w)"

definition ServeFileHTTP ::
  "serving_env \<Rightarrow> (serving_kind \<Rightarrow> vfs) \<Rightarrow> 's domain option \<Rightarrow> request \<Rightarrow> response \<Rightarrow> 's \<Rightarrow> bool \<times> response \<times> 's"
where
  "ServeFileHTTP env fs d r w s =
     (case domainResolve d r s of
        (Inl err, s') \<Rightarrow> (True, serveResolveError err w, s')
      | (Inr req, s') \<Rightarrow>
          (case requestServeFileHTTP env fs req r w of (served, w') \<Rightarrow> (served, w', s')))"

definition ServeNotFoundHTTP ::
  "serving_env \<Rightarrow> (serving_kind \<Rightarrow> vfs) \<Rightarrow> 's domain option \<Rightarrow> request \<Rightarrow> response \<Rightarrow> 's \<Rightarrow> response \<times> 's"
where
  "ServeNotFoundHTTP env fs d r w s =
     (case domainResolve d r s of
        (Inl err, s') \<Rightarrow> (serveResolveError err w, s')
      | (Inr req, s') \<Rightarrow> (requestServeNotFoundHTTP env fs req r w, s'))"

text \<open>\<open>serveNamespaceNotFound\<close> dereferences the domain, so it takes one that is not nil.\<close>

definition serveNamespaceNotFound ::
  "serving_env \<Rightarrow> (serving_kind \<Rightarrow> vfs) \<Rightarrow> 's domain \<Rightarrow> request \<Rightarrow> response \<Rightarrow> 's \<Rightarrow> response \<times> 's"
where
  "serveNamespaceNotFound env fs dm r w s =
     (let clonedReq = r\<lparr>rqURL := (rqURL r)\<lparr>uPath := ''/''\<rparr>\<rparr>
      in case dmResolver dm clonedReq s of
           (Inl err, s') \<Rightarrow> (serveResolveError err w, s')
         | (Inr namespaceDomain, s') \<Rightarrow>
             if \<not> lpHasAccessControl (srLookupPath namespaceDomain)
             then (requestServeNotFoundHTTP env fs namespaceDomain r w, s')
             else (Serve404 w, s'))"

definition ServeNotFoundAuthFailed ::
  "serving_env \<Rightarrow> (serving_kind \<Rightarrow> vfs) \<Rightarrow> 's domain option \<Rightarrow> request \<Rightarrow> response \<Rightarrow> 's \<Rightarrow> response \<times> 's"
where
  "ServeNotFoundAuthFailed env fs d r w s =
     (case (d, GetLookupPath d r s) of
        (Some dm, (Inr lookupPath, s1)) \<Rightarrow>
          (case IsNamespaceProject d r s1 of
             (isNamespace, s2) \<Rightarrow>
               if isNamespace \<and> \<not> lpHasAccessControl lookupPath then ServeNotFoundHTTP env fs d r w s2
               else serveNamespaceNotFound env fs dm r w s2)
      | (_, (_, s1)) \<Rightarrow> (Serve404 w, s1))"

subsection \<open>Resolvers whose answers do not change\<close>

text \<open>The contract under which what one call of \<open>Resolve\<close> says still holds at the next: two states give
  the same answers, and a call leads to a state with the same answers.\<close>

definition sameAnswers :: "'s resolver \<Rightarrow> 's \<Rightarrow> 's \<Rightarrow> bool" where
  "sameAnswers res s s' \<longleftrightarrow> (\<forall>r. fst (res r s') = fst (res r s))"

lemma sameAnswers_refl [simp]: "sameAnswers res s s"
  by (simp add: sameAnswers_def)

lemma sameAnswers_trans: "sameAnswers res s s' \<Longrightarrow> sameAnswers res s' s'' \<Longrightarrow> sameAnswers res s s''"
  by (simp add: sameAnswers_def)

locale stable_resolver =
  fixes res :: "'s resolver"
  assumes stable: "sameAnswers res s (snd (res r s))"
begin

lemma resolve_same: "sameAnswers res s (snd (domainResolve (Some dm) r s))" if "dmResolver dm = res"
  using stable that by (simp add: domainResolve_def)

lemma lookup_same: "sameAnswers res s (snd (GetLookupPath (Some dm) r s))" if "dmResolver dm = res"
  using resolve_same [OF that, of s r] by (auto simp: GetLookupPath_def split: prod.split sum.split)

lemma flags_same:
  assumes "dmResolver dm = res"
  shows "sameAnswers res s (snd (IsHTTPSOnly (Some dm) r s))"
    and "sameAnswers res s (snd (IsAccessControlEnabled (Some dm) r s))"
    and "sameAnswers res s (snd (IsNamespaceProject (Some dm) r s))"
    and "sameAnswers res s (snd (GetProjectID (Some dm) r s))"
  using lookup_same [OF assms, of s r]
  by (auto simp: IsHTTPSOnly_def IsAccessControlEnabled_def IsNamespaceProject_def GetProjectID_def
      split: prod.split sum.split)

text \<open>What \<open>ServeNotFoundAuthFailed\<close> answers with.\<close>

lemma auth_failed_page:
  assumes "dmResolver dm = res"
  shows "fst (ServeNotFoundAuthFailed env fs (Some dm) r w s) \<in> {Serve404 w, Serve503 w}
    \<or> (\<exists>r' req. fst (res r' s) = Inr req \<and> \<not> lpHasAccessControl (srLookupPath req)
         \<and> fst (ServeNotFoundAuthFailed env fs (Some dm) r w s) = requestServeNotFoundHTTP env fs req r w)"
proof -
  obtain x s1 where g: "GetLookupPath (Some dm) r s = (x, s1)" by fastforce
  have s1: "sameAnswers res s s1" using lookup_same [OF assms, of s r] g by simp
  show ?thesis
  proof (cases x)
    case (Inl err)
    then show ?thesis using g by (simp add: ServeNotFoundAuthFailed_def)
  next
    case (Inr lp)
    obtain ns s2 where n: "IsNamespaceProject (Some dm) r s1 = (ns, s2)" by fastforce
    have s2: "sameAnswers res s s2"
      using sameAnswers_trans [OF s1] flags_same(3) [OF assms, of s1 r] n by simp
    have lp: "\<exists>req. fst (res r s) = Inr req \<and> srLookupPath req = lp"
      using g Inr assms by (auto simp: GetLookupPath_def domainResolve_def split: prod.splits sum.splits)
    show ?thesis
    proof (cases "ns \<and> \<not> lpHasAccessControl lp")
      case True
      obtain req where req: "fst (res r s) = Inr req" "srLookupPath req = lp" using lp by blast
      have "fst (res r s2) = Inr req" using s2 req(1) by (simp add: sameAnswers_def)
      then have "fst (ServeNotFoundAuthFailed env fs (Some dm) r w s) = requestServeNotFoundHTTP env fs req r w"
        using g Inr n True assms
        by (auto simp: ServeNotFoundAuthFailed_def ServeNotFoundHTTP_def domainResolve_def split: prod.split)
      then show ?thesis using req True by blast
    next
      case False
      let ?r = "r\<lparr>rqURL := (rqURL r)\<lparr>uPath := ''/''\<rparr>\<rparr>"
      obtain y s3 where y: "res ?r s2 = (y, s3)" by fastforce
      have run: "fst (ServeNotFoundAuthFailed env fs (Some dm) r w s) = fst (serveNamespaceNotFound env fs dm r w s2)"
        using g Inr n False by (auto simp: ServeNotFoundAuthFailed_def)
      have "fst (res ?r s) = y" using s2 y by (metis fst_conv sameAnswers_def)
      then show ?thesis unfolding run using assms y
        by (cases y) (auto simp: serveNamespaceNotFound_def Let_def serveResolveError_def)
    qed
  qed
qed

end

subsection \<open>Status of a page that is not found\<close>

lemma serveCustomFile_status:
  assumes "fresh w" and "serveCustomFile env r code rt p w = (err, w')"
  shows "sentStatus w' = Some code \<or> (err \<noteq> None \<and> fresh w')"
proof -
  obtain fp w1 where h: "handleContentEncoding r rt p w = (fp, w1)" by fastforce
  have "fresh w1" using h assms(1) by (auto simp: handleContentEncoding_def Let_def split: if_splits option.splits)
  then show ?thesis
    using assms(2) h
    by (auto simp: serveCustomFile_def Let_def sentStatus_def split: sum.splits if_splits)
qed

lemma Serve_status:
  assumes "fresh w"
  shows "sentStatus (Serve404 w) = Some 404" "sentStatus (Serve500 w) = Some 500"
    "sentStatus (Serve500WithRequest w) = Some 500" "sentStatus (Serve503 w) = Some 503"
    "sentStatus (Serve401 w) = Some 401" "sentStatus (Serve502 w) = Some 502"
  using serveErrorPage_fresh(1) [OF assms]
  by (simp_all add: Serve404_def Serve500_def Serve500WithRequest_def Serve503_def Serve401_def Serve502_def
      content404_def content500_def content503_def content401_def content502_def)

lemma serveErrorPage_keeps: "sentStatus w = Some code \<Longrightarrow> sentStatus (serveErrorPage c w) = Some code"
  by (auto simp: sentStatus_def serveErrorPage_def)

lemma diskServeNotFoundHTTP_status:
  assumes "fresh w"
  shows "sentStatus (diskServeNotFoundHTTP env fs h w) \<in> {Some 404, Some 500}"
proof -
  obtain x w1 where rt: "readerRoot fs h w = (x, w1)" by fastforce
  have x: "(x = Inr True \<and> sentStatus w1 \<in> {Some 404, Some 500}) \<or> (x \<noteq> Inr True \<and> w1 = w)"
    using rt Serve_status [OF assms] by (auto simp: readerRoot_def split: sum.splits if_splits)
  show ?thesis
  proof (cases x)
    case (Inr b)
    then show ?thesis using rt x Serve_status [OF assms]
      by (cases b) (auto simp: diskServeNotFoundHTTP_def tryNotFound_def)
  next
    case (Inl root)
    then have w1: "w1 = w" using x by simp
    show ?thesis
    proof (cases "resolvePath root [''404.html'']")
      case (Inl err)
      then show ?thesis using rt \<open>x = Inl root\<close> w1 Serve_status [OF assms]
        by (simp add: diskServeNotFoundHTTP_def tryNotFound_def)
    next
      case (Inr page)
      obtain err w2 where sc: "serveCustomFile env (hRequest h) 404 root page w = (err, w2)" by fastforce
      note st = serveCustomFile_status [OF assms sc]
      have "sentStatus (Serve404 w2) = Some 404"
        using st Serve_status(1) [of w2] serveErrorPage_keeps [of w2 404] by (auto simp: Serve404_def)
      moreover have "sentStatus (Serve500WithRequest w2) \<in> {Some 404, Some 500}"
        using st Serve_status(3) [of w2] serveErrorPage_keeps [of w2 404] by (auto simp: Serve500WithRequest_def)
      ultimately show ?thesis using rt \<open>x = Inl root\<close> Inr w1 sc st
        by (auto simp: diskServeNotFoundHTTP_def tryNotFound_def split: option.splits if_splits)
    qed
  qed
qed

end
