(* ===== verification/Gitlab_Client.thy ===== *)
theory Gitlab_Client
  imports Http_Client
begin

text \<open>
  The client of the internal GitLab API, \<open>internal/source/gitlab/client\<close>, and the data the API
  returns, \<open>internal/source/gitlab/api\<close>.  Signing of tokens (\<open>golang-jwt\<close>) is the parameter \<open>glSign\<close>,
  reading of JSON into a \<open>VirtualDomain\<close> the parameter \<open>glDecode\<close>: a body that is the JSON value
  \<open>null\<close> decodes without an error to no domain, and what a failed reading leaves behind is never looked
  at.  The clock is an argument.
\<close>

subsection \<open>api\<close>

record api_source =
  asType :: string
  asPath :: string
  asSHA256 :: string
  asCount :: int
  asSize :: int

record api_lookup_path =
  alProjectID :: int
  alAccessControl :: bool
  alHTTPSOnly :: bool
  alPrefix :: string
  alSource :: api_source

record virtual_domain =
  vdCertificate :: string
  vdKey :: string
  vdLookupPaths :: "api_lookup_path list"

record lookup =
  lkName :: string
  lkError :: "goerr option"
  lkDomain :: "virtual_domain option"

subsection \<open>client.go\<close>

record jwt_claims =
  jcIssuer :: string
  jcExpiresAt :: gotime

record gitlab_client =
  glSecretKey :: string
  glBaseURL :: url
  glTokenExpiry :: int
  glSign :: "string \<Rightarrow> jwt_claims \<Rightarrow> string res"
  glDecode :: "string \<Rightarrow> virtual_domain option res"
  glDo :: http_do

definition NewClient ::
  "string \<Rightarrow> string \<Rightarrow> int \<Rightarrow> int \<Rightarrow> (string \<Rightarrow> jwt_claims \<Rightarrow> string res)
    \<Rightarrow> (string \<Rightarrow> virtual_domain option res) \<Rightarrow> http_do \<Rightarrow> gitlab_client res"
where
  "NewClient baseURL secretKey connectionTimeout jwtTokenExpiry jwtSign decode http =
     (if baseURL = [] \<or> secretKey = [] then Inl (otherErr ''GitLab API URL or API secret has not been provided'')
      else case ParseURL baseURL of
          None \<Rightarrow> Inl (errURL baseURL)
        | Some parsedURL \<Rightarrow>
            if connectionTimeout = 0 then Inl (otherErr ''GitLab HTTP client connection timeout has not been provided'')
            else if jwtTokenExpiry = 0 then Inl (otherErr ''GitLab JWT token expiry has not been provided'')
            else Inr \<lparr>glSecretKey = secretKey, glBaseURL = parsedURL, glTokenExpiry = jwtTokenExpiry,
                      glSign = jwtSign, glDecode = decode, glDo = http\<rparr>)"

definition clientToken :: "gitlab_client \<Rightarrow> gotime \<Rightarrow> string res" where
  "clientToken gc now =
     glSign gc (glSecretKey gc) \<lparr>jcIssuer = ''gitlab-pages'', jcExpiresAt = now + glTokenExpiry gc\<rparr>"

definition clientEndpoint :: "gitlab_client \<Rightarrow> string \<Rightarrow> (string \<times> string) list \<Rightarrow> url res" where
  "clientEndpoint gc urlPath params =
     (case ParseURL urlPath of
        None \<Rightarrow> Inl (errURL urlPath)
      | Some parsedPath \<Rightarrow>
          (let ref = JoinPath (uPath (glBaseURL gc)) (uPath parsedPath)
           in case ParseURL ref of
                None \<Rightarrow> Inl (errURL ref)
              | Some refURL \<Rightarrow>
                  Inr ((ResolveReference (glBaseURL gc) refURL)\<lparr>uRawQuery := encodeQuery params\<rparr>)))"

definition clientRequest :: "gitlab_client \<Rightarrow> gotime \<Rightarrow> string \<Rightarrow> url \<Rightarrow> out_request res" where
  "clientRequest gc now method endpoint =
     (case NewRequest method (URLString endpoint) [] of
        Inl err \<Rightarrow> Inl err
      | Inr req \<Rightarrow>
          (case clientToken gc now of
             Inl err \<Rightarrow> Inl err
           | Inr token \<Rightarrow> Inr (setRequestHeader ''Gitlab-Pages-Api-Request'' token req)))"

text \<open>\<open>Client.get\<close>: \<open>None\<close> is the nil response without an error.\<close>

definition clientGet ::
  "gitlab_client \<Rightarrow> gotime \<Rightarrow> string \<Rightarrow> (string \<times> string) list \<Rightarrow> in_response option res"
where
  "clientGet gc now path params =
     (case clientEndpoint gc path params of
        Inl err \<Rightarrow> Inl err
      | Inr endpoint \<Rightarrow>
          (case clientRequest gc now ''GET'' endpoint of
             Inl err \<Rightarrow> Inl err
           | Inr req \<Rightarrow>
               (case glDo gc req of
                  Inl err \<Rightarrow> Inl err
                | Inr resp \<Rightarrow>
                    if irStatus resp = 200 then Inr (Some resp)
                    else if irStatus resp = 204 then Inr None
                    else if irStatus resp = 401 then Inl ErrUnauthorizedAPI
                    else Inl (errHTTPStatus (irStatus resp)))))"

definition GetLookup :: "gitlab_client \<Rightarrow> gotime \<Rightarrow> string \<Rightarrow> lookup" where
  "GetLookup gc now host =
     (case clientGet gc now ''/api/v4/internal/pages'' [(''host'', host)] of
        Inl err \<Rightarrow> \<lparr>lkName = host, lkError = Some err, lkDomain = None\<rparr>
      | Inr None \<Rightarrow> \<lparr>lkName = host, lkError = Some ErrDomainDoesNotExist, lkDomain = None\<rparr>
      | Inr (Some resp) \<Rightarrow>
          (case glDecode gc (irBody resp) of
             Inl err \<Rightarrow> \<lparr>lkName = host, lkError = Some err, lkDomain = None\<rparr>
           | Inr d \<Rightarrow> \<lparr>lkName = host, lkError = None, lkDomain = d\<rparr>))"

definition clientResolve :: "gitlab_client \<Rightarrow> gotime \<Rightarrow> string \<Rightarrow> lookup" where
  "clientResolve gc now host = GetLookup gc now host"

subsection \<open>Where the client asks, and what a missing domain means\<close>

lemma Clean_rooted_local: "isRooted p \<Longrightarrow> \<exists>t. Clean p = slash # t \<and> \<not> HasPrefix (slash # t) ''//''"
proof -
  assume r: "isRooted p"
  have "\<not> HasPrefix (Join (cleanRoot p) ''/'') ''/''"
  proof (cases "cleanRoot p")
    case Nil
    then show ?thesis by (simp add: HasPrefix_def)
  next
    case (Cons c cs)
    then have "plainComp c" using cleanRoot_plain [of p] by simp
    then obtain x xs where "c = x # xs" "x \<noteq> slash" by (cases c) (auto simp: plainComp_def)
    then show ?thesis using Cons by (cases cs) (simp_all add: HasPrefix_def)
  qed
  then show ?thesis using Clean_rooted [OF r] by (simp add: HasPrefix_def)
qed

lemma apiPath: "ParseURL ''/api/v4/internal/pages'' = Some (emptyURL\<lparr>uPath := ''/api/v4/internal/pages''\<rparr>)"
  by code_simp

text \<open>
  The request for a domain goes to the configured GitLab server: the endpoint has the scheme, the
  user and the host of the base URL, whatever its path and the requested host name are, and its query
  reads back as that host name and nothing else.
\<close>

theorem clientEndpoint_server:
  assumes "uPath (glBaseURL gc) = [] \<or> isRooted (uPath (glBaseURL gc))"
    and "clientEndpoint gc ''/api/v4/internal/pages'' [(''host'', host)] = Inr u"
  shows "uScheme u = uScheme (glBaseURL gc) \<and> uHost u = uHost (glBaseURL gc) \<and> uUser u = uUser (glBaseURL gc)
    \<and> ParseQuery (uRawQuery u) = [(''host'', host)]"
proof -
  let ?ref = "JoinPath (uPath (glBaseURL gc)) ''/api/v4/internal/pages''"
  have "\<exists>p. isRooted p \<and> ?ref = Clean p"
    using assms(1) by (auto simp: JoinPath_def isRooted_def HasPrefix_iff_prefix prefix_def)
  then obtain t where t: "?ref = slash # t" "\<not> HasPrefix (slash # t) ''//''"
    using Clean_rooted_local by metis
  have "(case ParseURL ?ref of None \<Rightarrow> Inl (errURL ?ref)
      | Some refURL \<Rightarrow> Inr ((ResolveReference (glBaseURL gc) refURL)\<lparr>uRawQuery := encodeQuery [(''host'', host)]\<rparr>))
    = Inr u"
    using assms(2) by (simp add: clientEndpoint_def apiPath Let_def)
  then obtain refURL where ref: "ParseURL (slash # t) = Some refURL"
    "u = (ResolveReference (glBaseURL gc) refURL)\<lparr>uRawQuery := encodeQuery [(''host'', host)]\<rparr>"
    using t(1) by (cases "ParseURL ?ref") auto
  show ?thesis using ResolveReference_path [OF ref(1) t(2), of "glBaseURL gc"] ref(2)
    by (simp add: ParseQuery_encodeQuery)
qed

definition exampleBase :: url where
  "exampleBase = emptyURL\<lparr>uScheme := ''https'', uHost := ''gitlab.example'', uPath := ''//sub/''\<rparr>"

definition exampleClient :: gitlab_client where
  "exampleClient = \<lparr>glSecretKey = ''k'', glBaseURL = exampleBase, glTokenExpiry = 30,
     glSign = (\<lambda>_ _. Inr ''token''), glDecode = (\<lambda>_. Inl errUnexpectedEOF),
     glDo = (\<lambda>_. Inr \<lparr>irStatus = 204, irHeader = Map.empty, irContentLength = 0, irBody = []\<rparr>)\<rparr>"

theorem clientEndpoint_server_witness:
  "\<exists>u. clientEndpoint exampleClient ''/api/v4/internal/pages'' [(''host'', ''a&b=c'')] = Inr u
    \<and> URLString u = ''https://gitlab.example/sub/api/v4/internal/pages?host=a%26b%3Dc''
    \<and> uHost u = ''gitlab.example'' \<and> ParseQuery (uRawQuery u) = [(''host'', ''a&b=c'')]"
proof -
  let ?u = "exampleBase\<lparr>uPath := ''/sub/api/v4/internal/pages'', uRawQuery := ''host=a%26b%3Dc''\<rparr>"
  have u: "clientEndpoint exampleClient ''/api/v4/internal/pages'' [(''host'', ''a&b=c'')] = Inr ?u"
    and s: "URLString ?u = ''https://gitlab.example/sub/api/v4/internal/pages?host=a%26b%3Dc''"
    by code_simp+
  have "isRooted (uPath (glBaseURL exampleClient))" by code_simp
  with clientEndpoint_server [OF _ u] u s show ?thesis
    by (auto simp: exampleClient_def exampleBase_def)
qed

text \<open>
  A lookup says that the domain does not exist exactly when GitLab answered the request for it
  with 204; no failure on the way (network, signing, decoding, another status) is reported as a
  missing domain.
\<close>

theorem GetLookup_missing_domain:
  assumes "\<forall>k c. glSign gc k c \<noteq> Inl ErrDomainDoesNotExist" and "\<forall>q. glDo gc q \<noteq> Inl ErrDomainDoesNotExist"
    and "\<forall>b. glDecode gc b \<noteq> Inl ErrDomainDoesNotExist"
  shows "lkError (GetLookup gc now host) = Some ErrDomainDoesNotExist \<longleftrightarrow>
    (\<exists>u q resp. clientEndpoint gc ''/api/v4/internal/pages'' [(''host'', host)] = Inr u
      \<and> clientRequest gc now ''GET'' u = Inr q \<and> glDo gc q = Inr resp \<and> irStatus resp = 204)"
proof -
  have ep: "clientEndpoint gc p ps \<noteq> Inl ErrDomainDoesNotExist" for p ps
    by (auto simp: clientEndpoint_def Let_def split: option.split)
  have rq: "clientRequest gc now m u \<noteq> Inl ErrDomainDoesNotExist" for m u
    using assms(1) by (auto simp: clientRequest_def clientToken_def NewRequest_def split: option.split sum.split)
  show ?thesis
    using ep rq assms(2,3)
    unfolding GetLookup_def clientGet_def
    by (auto split: sum.split option.split)
qed

theorem GetLookup_missing_domain_witness:
  "lkError (GetLookup exampleClient 100 ''site.example'') = Some ErrDomainDoesNotExist"
proof -
  let ?u = "exampleBase\<lparr>uPath := ''/sub/api/v4/internal/pages'', uRawQuery := ''host=site.example''\<rparr>"
  have u: "clientEndpoint exampleClient ''/api/v4/internal/pages'' [(''host'', ''site.example'')] = Inr ?u"
    by code_simp
  have "ParseURL (URLString ?u) \<noteq> None" by code_simp
  then have q: "\<exists>q. clientRequest exampleClient 100 ''GET'' ?u = Inr q"
    by (auto simp: clientRequest_def NewRequest_def clientToken_def exampleClient_def)
  have "\<forall>k c. glSign exampleClient k c \<noteq> Inl ErrDomainDoesNotExist"
    "\<forall>q. glDo exampleClient q \<noteq> Inl ErrDomainDoesNotExist"
    "\<forall>b. glDecode exampleClient b \<noteq> Inl ErrDomainDoesNotExist"
    by (simp_all add: exampleClient_def)
  from GetLookup_missing_domain [OF this, of 100 "''site.example''"] u q show ?thesis
    by (auto simp: exampleClient_def)
qed

end
