(* ===== verification/Caches.thy ===== *)
theory Caches
  imports Vfs
begin

text \<open>
  The two cache libraries the program uses, as parameters, and the program's own wrapper around one
  of them.  \<open>ccache\<close> is the LRU cache behind \<open>internal/lru\<close>: it may forget any item at any time, but
  what it returns was stored under that key.  \<open>gocache\<close> is \<open>patrickmn/go-cache\<close>: a map whose items
  expire.  Their documented behaviour is stated by the predicates \<open>ccache_ok\<close> and \<open>gocache_ok\<close>, which
  are hypotheses of the theorems that rely on it.  \<open>FindOrFetch\<close> models \<open>internal/lru/lru.go\<close>; the
  metrics it counts are left out.
\<close>

subsection \<open>The LRU cache of internal/lru\<close>

text \<open>\<open>ccGet\<close> returns the item stored under a key with its expiry, and the cache with its usage
  counters updated; \<open>ccSet\<close> stores a value with an expiry, possibly pruning other items.\<close>

record ('s, 'v) ccache =
  ccGet :: "string \<Rightarrow> 's \<Rightarrow> ('v \<times> gotime) option \<times> 's"
  ccSet :: "string \<Rightarrow> 'v \<Rightarrow> gotime \<Rightarrow> 's \<Rightarrow> 's"

definition ccache_ok :: "('s, 'v) ccache \<Rightarrow> bool" where
  "ccache_ok cc \<longleftrightarrow>
     (\<forall>k k' s i. fst (ccGet cc k' (snd (ccGet cc k s))) = Some i \<longrightarrow> fst (ccGet cc k' s) = Some i)
     \<and> (\<forall>k k' v e s i. fst (ccGet cc k' (ccSet cc k v e s)) = Some i \<longrightarrow>
          (if k' = k then i = (v, e) else fst (ccGet cc k' s) = Some i))"

text \<open>\<open>Cache.FindOrFetch\<close>; \<open>now\<close> is the time of the call and \<open>duration\<close> the cache's expiration
  interval.\<close>

definition FindOrFetch ::
  "('s, 'v) ccache \<Rightarrow> gotime \<Rightarrow> int \<Rightarrow> string \<Rightarrow> string \<Rightarrow> 'v res \<Rightarrow> 's \<Rightarrow> 'v res \<times> 's"
where
  "FindOrFetch cc now duration cacheNamespace key fetchFn s =
     (let (item, s') = ccGet cc (cacheNamespace @ key) s;
          miss = (case fetchFn of
                    Inl err \<Rightarrow> (Inl err, s')
                  | Inr value \<Rightarrow>
                      (Inr value, ccSet cc (cacheNamespace @ key) value (now + duration) s'))
      in case item of
           Some (value, expires) \<Rightarrow> if expires < now then miss else (Inr value, s')
         | None \<Rightarrow> miss)"

text \<open>\<open>New\<close> with its options: what the third-party cache is configured with.  The number of items to prune is computed
  in 32 bits.\<close>

record lru_cache =
  luOp :: string
  luDuration :: int
  luMaxSize :: int

definition itemsToPrune :: "int \<Rightarrow> int" where
  "itemsToPrune maxSize = (maxSize mod 2 ^ 32) div 16"

definition lruWithExpirationInterval :: "int \<Rightarrow> lru_cache \<Rightarrow> lru_cache" where
  "lruWithExpirationInterval t c = c\<lparr>luDuration := t\<rparr>"

definition lruWithMaxSize :: "int \<Rightarrow> lru_cache \<Rightarrow> lru_cache" where
  "lruWithMaxSize i c = c\<lparr>luMaxSize := i\<rparr>"

record ccache_config =
  cgMaxSize :: int
  cgItemsToPrune :: int
  cgGetsPerPromote :: int

definition newLru :: "string \<Rightarrow> (lru_cache \<Rightarrow> lru_cache) list \<Rightarrow> lru_cache \<times> ccache_config" where
  "newLru op opts =
     (let c = fold (\<lambda>opt c. opt c) opts \<lparr>luOp = op, luDuration = 60 * 1000000000, luMaxSize = 1000\<rparr>
      in (c, \<lparr>cgMaxSize = luMaxSize c, cgItemsToPrune = itemsToPrune (luMaxSize c), cgGetsPerPromote = 64\<rparr>))"

text \<open>At most a sixteenth of a full cache is pruned at once, and nothing of a cache for less than 16 items or
  for a multiple of \<open>2 ^ 32\<close>.\<close>

lemma itemsToPrune_bounds:
  "0 \<le> n \<Longrightarrow> 16 * itemsToPrune n \<le> n" "0 \<le> n \<Longrightarrow> n < 16 \<Longrightarrow> itemsToPrune n = 0" "itemsToPrune (2 ^ 32 * n) = 0"
proof -
  assume "0 \<le> n"
  then have "n mod 2 ^ 32 \<le> n" by (simp add: zmod_le_nonneg_dividend)
  then show "16 * itemsToPrune n \<le> n" unfolding itemsToPrune_def by linarith
next
  assume "0 \<le> n" "n < 16"
  then show "itemsToPrune n = 0" by (simp add: itemsToPrune_def)
qed (simp add: itemsToPrune_def)

text \<open>A cache is coherent with a source of values when it holds nothing else.\<close>

definition coherent :: "('s, 'v) ccache \<Rightarrow> (string \<Rightarrow> 'v res) \<Rightarrow> 's \<Rightarrow> bool" where
  "coherent cc source s \<longleftrightarrow>
     (\<forall>k v e. fst (ccGet cc k s) = Some (v, e) \<longrightarrow> source k = Inr v)"

lemma coherent_get: "ccache_ok cc \<Longrightarrow> coherent cc source s \<Longrightarrow> coherent cc source (snd (ccGet cc k s))"
  unfolding ccache_ok_def coherent_def by blast

lemma coherent_set:
  assumes "ccache_ok cc" and "coherent cc source s" and "source k = Inr v"
  shows "coherent cc source (ccSet cc k v e s)"
  unfolding coherent_def
proof (intro allI impI)
  fix k' v' e'
  assume "fst (ccGet cc k' (ccSet cc k v e s)) = Some (v', e')"
  then have "if k' = k then (v', e') = (v, e) else fst (ccGet cc k' s) = Some (v', e')"
    using assms(1) unfolding ccache_ok_def by blast
  then show "source k' = Inr v'" using assms(2,3) unfolding coherent_def by (auto split: if_splits)
qed

lemma FindOrFetch_transparent_lru:
  assumes "ccache_ok cc" and "coherent cc source s"
  shows "fst (FindOrFetch cc now duration ns key (source (ns @ key)) s) = source (ns @ key)
    \<and> coherent cc source (snd (FindOrFetch cc now duration ns key (source (ns @ key)) s))"
proof -
  obtain item s' where g: "ccGet cc (ns @ key) s = (item, s')" by fastforce
  have s': "coherent cc source s'" using coherent_get [OF assms, of "ns @ key"] g by simp
  have hit: "item = Some (v, e) \<Longrightarrow> source (ns @ key) = Inr v" for v e
    using assms(2) g unfolding coherent_def by (metis fst_conv)
  show ?thesis
    using s' hit coherent_set [OF assms(1) s']
    by (cases "source (ns @ key)") (auto simp: FindOrFetch_def g Let_def split: option.split)
qed

text \<open>
  The LRU cache is transparent: if it is coherent with a source of values and the fetch function
  asks that source, a lookup returns what the source returns, hit or miss, and leaves the cache
  coherent; errors are passed on and never stored.
\<close>

theorem FindOrFetch_transparent:
  assumes "ccache_ok cc" and "coherent cc source s"
  shows "fst (FindOrFetch cc now duration ns key (source (ns @ key)) s) = source (ns @ key)
    \<and> coherent cc source (snd (FindOrFetch cc now duration ns key (source (ns @ key)) s))"
  by (rule FindOrFetch_transparent_lru [OF assms])

text \<open>A cache without eviction is a \<open>ccache\<close>.\<close>

definition mapCache :: "(string \<Rightarrow> (nat \<times> gotime) option, nat) ccache" where
  "mapCache = \<lparr>ccGet = (\<lambda>k s. (s k, s)), ccSet = (\<lambda>k v e s. s(k \<mapsto> (v, e)))\<rparr>"

theorem FindOrFetch_transparent_witness:
  "fst (FindOrFetch mapCache 100 60 ''1:'' ''a'' (Inr 7) [''1:b'' \<mapsto> (8, 50)]) = Inr 7"
proof -
  let ?src = "\<lambda>k. if k = ''1:a'' then Inr 7 else Inr 8"
  have "ccache_ok mapCache" by (simp add: ccache_ok_def mapCache_def)
  moreover have "coherent mapCache ?src [''1:b'' \<mapsto> (8, 50)]"
    by (simp add: coherent_def mapCache_def)
  ultimately show ?thesis
    using FindOrFetch_transparent [of mapCache ?src "[''1:b'' \<mapsto> (8, 50)]" 100 60 "''1:''" "''a''"] by simp
qed

subsection \<open>go-cache\<close>

text \<open>\<open>gcGet\<close> is \<open>GetWithExpiration\<close> (\<open>Get\<close> without the time), \<open>gcSet\<close> \<open>SetDefault\<close> with the default
  expiration interval as an argument, \<open>gcAdd\<close> \<open>Add\<close>, which fails on an item that is there.\<close>

record ('s, 'v) gocache =
  gcGet :: "gotime \<Rightarrow> string \<Rightarrow> 's \<Rightarrow> ('v \<times> gotime) option"
  gcSet :: "gotime \<Rightarrow> int \<Rightarrow> string \<Rightarrow> 'v \<Rightarrow> 's \<Rightarrow> 's"
  gcAdd :: "gotime \<Rightarrow> int \<Rightarrow> string \<Rightarrow> 'v \<Rightarrow> 's \<Rightarrow> 's option"
  gcDelete :: "string \<Rightarrow> 's \<Rightarrow> 's"

definition gocache_ok :: "('s, 'v) gocache \<Rightarrow> bool" where
  "gocache_ok gc \<longleftrightarrow>
     (\<forall>now d k v s k'. d > 0 \<longrightarrow>
        gcGet gc now k' (gcSet gc now d k v s) = (if k' = k then Some (v, now + d) else gcGet gc now k' s))
     \<and> (\<forall>now k s k'. gcGet gc now k' (gcDelete gc k s) = (if k' = k then None else gcGet gc now k' s))
     \<and> (\<forall>now d k v s. gcAdd gc now d k v s =
          (case gcGet gc now k s of Some _ \<Rightarrow> None | None \<Rightarrow> Some (gcSet gc now d k v s)))
     \<and> (\<forall>now d k v s now' k' i. gcGet gc now' k' (gcSet gc now d k v s) = Some i \<longrightarrow>
          (if k' = k then fst i = v else gcGet gc now' k' s = Some i))
     \<and> (\<forall>now d k v s now'. now \<le> now' \<and> now' \<le> now + d \<longrightarrow>
          gcGet gc now' k (gcSet gc now d k v s) = Some (v, now + d))"

lemma gocache_laws:
  assumes "gocache_ok gc"
  shows "d > 0 \<Longrightarrow> gcGet gc now k' (gcSet gc now d k v s) = (if k' = k then Some (v, now + d) else gcGet gc now k' s)"
    and "gcGet gc now k' (gcDelete gc k s) = (if k' = k then None else gcGet gc now k' s)"
    and "gcAdd gc now d k v s =
      (case gcGet gc now k s of Some _ \<Rightarrow> None | None \<Rightarrow> Some (gcSet gc now d k v s))"
    and "gcGet gc now' k' (gcSet gc now d k v s) = Some i \<Longrightarrow>
      (if k' = k then fst i = v else gcGet gc now' k' s = Some i)"
    and "now \<le> now' \<and> now' \<le> now + d \<Longrightarrow> gcGet gc now' k (gcSet gc now d k v s) = Some (v, now + d)"
proof -
  note laws = assms [unfolded gocache_ok_def]
  show "d > 0 \<Longrightarrow> gcGet gc now k' (gcSet gc now d k v s) = (if k' = k then Some (v, now + d) else gcGet gc now k' s)"
    by (rule laws [THEN conjunct1, rule_format])
  show "gcGet gc now k' (gcDelete gc k s) = (if k' = k then None else gcGet gc now k' s)"
    by (rule laws [THEN conjunct2, THEN conjunct1, rule_format])
  show "gcAdd gc now d k v s = (case gcGet gc now k s of Some _ \<Rightarrow> None | None \<Rightarrow> Some (gcSet gc now d k v s))"
    by (rule laws [THEN conjunct2, THEN conjunct2, THEN conjunct1, rule_format])
  show "gcGet gc now' k' (gcSet gc now d k v s) = Some i \<Longrightarrow>
      (if k' = k then fst i = v else gcGet gc now' k' s = Some i)"
    by (rule laws [THEN conjunct2, THEN conjunct2, THEN conjunct2, THEN conjunct1, rule_format])
  show "now \<le> now' \<and> now' \<le> now + d \<Longrightarrow> gcGet gc now' k (gcSet gc now d k v s) = Some (v, now + d)"
    by (rule laws [THEN conjunct2, THEN conjunct2, THEN conjunct2, THEN conjunct2, rule_format])
qed

text \<open>A map with expiry times, for examples.\<close>

definition mapGocache :: "(string \<Rightarrow> ('v \<times> gotime) option, 'v) gocache" where
  "mapGocache =
     \<lparr>gcGet = (\<lambda>now k s. case s k of Some (v, e) \<Rightarrow> if now > e then None else Some (v, e) | None \<Rightarrow> None),
      gcSet = (\<lambda>now d k v s. s(k \<mapsto> (v, now + d))),
      gcAdd = (\<lambda>now d k v s.
         case (case s k of Some (v, e) \<Rightarrow> if now > e then None else Some (v, e) | None \<Rightarrow> None) of
           Some _ \<Rightarrow> None | None \<Rightarrow> Some (s(k \<mapsto> (v, now + d)))),
      gcDelete = (\<lambda>k s. s(k := None))\<rparr>"

lemma mapGocache_ok: "gocache_ok mapGocache"
  unfolding gocache_ok_def mapGocache_def gocache.simps by (simp split: option.split)

end
