(* ===== verification/Domain_Cache.thy ===== *)
theory Domain_Cache
  imports Gitlab_Client Caches
begin

text \<open>
  The cache of domain lookups, \<open>internal/source/gitlab/cache\<close>: entries, the store, the retriever and
  \<open>Cache.Resolve\<close>.  Entries are shared by pointer, so they live in a heap and the store (the library
  \<open>go-cache\<close>, a parameter) maps domain names to addresses; \<open>sync.Once\<close> is a flag, the channel
  \<open>retrieved\<close> the flag whether it is closed, and the zero time \<open>None\<close>.  The goroutines that retrieve
  and refresh are lists of what is running.  Each critical section of the code is one function; the
  step relation at the end interleaves them for any number of clients.  Times are in nanoseconds and
  \<open>time.Since\<close> is the difference from the clock of the state.
\<close>

subsection \<open>retriever.go\<close>

definition finalLookup :: "lookup \<Rightarrow> bool" where
  "finalLookup l \<longleftrightarrow>
     (case lkError l of
        None \<Rightarrow> True
      | Some err \<Rightarrow> errIs err ErrDomainDoesNotExist \<or> errIs err ErrUnauthorizedAPI)"

text \<open>The loop of \<open>resolveWithBackoff\<close>: \<open>getLookup i\<close> is the answer of the client to attempt \<open>i\<close>; the
  recursion is over the attempts left.\<close>

definition zeroLookup :: lookup where
  "zeroLookup = \<lparr>lkName = [], lkError = None, lkDomain = None\<rparr>"

fun backoffLoop :: "(nat \<Rightarrow> string \<Rightarrow> lookup) \<Rightarrow> string \<Rightarrow> nat \<Rightarrow> nat \<Rightarrow> lookup \<Rightarrow> lookup" where
  "backoffLoop getLookup d i 0 l = l"
| "backoffLoop getLookup d i (Suc n) l =
     (let l' = getLookup i d in if finalLookup l' then l' else backoffLoop getLookup d (Suc i) n l')"

definition resolveWithBackoff :: "(nat \<Rightarrow> string \<Rightarrow> lookup) \<Rightarrow> nat \<Rightarrow> string \<Rightarrow> lookup" where
  "resolveWithBackoff getLookup maxRetrievalRetries d =
     backoffLoop getLookup d 1 maxRetrievalRetries zeroLookup"

text \<open>\<open>Retrieve\<close>: \<open>timedOut\<close> tells which branch of the \<open>select\<close> is taken.\<close>

definition Retrieve :: "(nat \<Rightarrow> string \<Rightarrow> lookup) \<Rightarrow> nat \<Rightarrow> bool \<Rightarrow> string \<Rightarrow> lookup" where
  "Retrieve getLookup maxRetrievalRetries timedOut d =
     (if timedOut
      then \<lparr>lkName = [], lkError = Some (errWrapped ''retrieval context done'' DeadlineExceeded), lkDomain = None\<rparr>
      else resolveWithBackoff getLookup maxRetrievalRetries d)"

subsection \<open>entry.go\<close>

record entry =
  enDomain :: string
  enCreated :: gotime
  enRefreshedOriginal :: "gotime option"
  enRetrieve :: bool
  enRefresh :: bool
  enRetrieved :: bool
  enResponse :: "lookup option"
  enRefreshTimeout :: int
  enExpirationTimeout :: int

definition newCacheEntry :: "gotime \<Rightarrow> string \<Rightarrow> int \<Rightarrow> int \<Rightarrow> entry" where
  "newCacheEntry now d refreshTimeout entryExpirationTimeout =
     \<lparr>enDomain = d, enCreated = now, enRefreshedOriginal = None, enRetrieve = False, enRefresh = False,
      enRetrieved = False, enResponse = None, enRefreshTimeout = refreshTimeout,
      enExpirationTimeout = entryExpirationTimeout\<rparr>"

definition isOutdated :: "gotime \<Rightarrow> entry \<Rightarrow> bool" where
  "isOutdated now e \<longleftrightarrow>
     (case enRefreshedOriginal e of
        Some t \<Rightarrow> now - t > enRefreshTimeout e
      | None \<Rightarrow> now - enCreated e > enRefreshTimeout e)"

definition isResolved :: "entry \<Rightarrow> bool" where
  "isResolved e \<longleftrightarrow> enResponse e \<noteq> None"

definition isExpired :: "gotime \<Rightarrow> entry \<Rightarrow> bool" where
  "isExpired now e \<longleftrightarrow>
     (case enRefreshedOriginal e of
        Some t \<Rightarrow> now - t > enExpirationTimeout e
      | None \<Rightarrow> now - enCreated e > enExpirationTimeout e)"

definition IsUpToDate :: "gotime \<Rightarrow> entry \<Rightarrow> bool" where
  "IsUpToDate now e \<longleftrightarrow> isResolved e \<and> \<not> isOutdated now e"

definition NeedsRefresh :: "gotime \<Rightarrow> entry \<Rightarrow> bool" where
  "NeedsRefresh now e \<longleftrightarrow> isResolved e \<and> isOutdated now e"

definition setResponse :: "lookup \<Rightarrow> entry \<Rightarrow> entry" where
  "setResponse l e = e\<lparr>enResponse := Some l, enRetrieved := True\<rparr>"

definition domainExists :: "goerr option \<Rightarrow> bool" where
  "domainExists err \<longleftrightarrow> (case err of None \<Rightarrow> True | Some e \<Rightarrow> \<not> errIs e ErrDomainDoesNotExist)"

definition hasTemporaryError :: "environ \<Rightarrow> entry \<Rightarrow> bool" where
  "hasTemporaryError getenv e \<longleftrightarrow>
     getenv ''FF_DISABLE_REFRESH_TEMPORARY_ERROR'' \<noteq> ''true''
     \<and> (case enResponse e of None \<Rightarrow> False | Some l \<Rightarrow> lkError l \<noteq> None \<and> domainExists (lkError l))"

subsection \<open>memstore.go\<close>

record 's cache_env =
  ceStore :: "('s, nat) gocache"
  ceEntryRefreshTimeout :: int
  ceCacheExpiry :: int
  ceGetenv :: environ

record 's cache_state =
  csNow :: gotime
  csStore :: 's
  csHeap :: "nat \<Rightarrow> entry"
  csNext :: nat
  csRetrieving :: "nat list"
  csScheduled :: "nat list"
  csRefreshing :: "(nat \<times> nat) list"

text \<open>\<open>storeGet\<close> is the section under the read lock, \<open>createLocked\<close> the one under the write lock, which
  looks again before it creates.\<close>

definition storeGet :: "'s cache_env \<Rightarrow> string \<Rightarrow> 's cache_state \<Rightarrow> nat option" where
  "storeGet env d c = map_option fst (gcGet (ceStore env) (csNow c) d (csStore c))"

definition allocEntry :: "entry \<Rightarrow> 's cache_state \<Rightarrow> nat \<times> 's cache_state" where
  "allocEntry e c = (csNext c, c\<lparr>csHeap := (csHeap c)(csNext c := e), csNext := Suc (csNext c)\<rparr>)"

definition createLocked :: "'s cache_env \<Rightarrow> string \<Rightarrow> 's cache_state \<Rightarrow> nat \<times> 's cache_state" where
  "createLocked env d c =
     (case storeGet env d c of
        Some i \<Rightarrow> (i, c)
      | None \<Rightarrow>
          (case allocEntry (newCacheEntry (csNow c) d (ceEntryRefreshTimeout env) (ceCacheExpiry env)) c of
             (i, c') \<Rightarrow>
               (i, c'\<lparr>csStore := gcSet (ceStore env) (csNow c) (ceCacheExpiry env) d i (csStore c')\<rparr>)))"

definition LoadOrCreate :: "'s cache_env \<Rightarrow> string \<Rightarrow> 's cache_state \<Rightarrow> nat \<times> 's cache_state" where
  "LoadOrCreate env d c =
     (case storeGet env d c of Some i \<Rightarrow> (i, c) | None \<Rightarrow> createLocked env d c)"

definition ReplaceOrCreate :: "'s cache_env \<Rightarrow> string \<Rightarrow> nat \<Rightarrow> 's cache_state \<Rightarrow> 's cache_state" where
  "ReplaceOrCreate env d i c =
     c\<lparr>csStore := gcSet (ceStore env) (csNow c) (ceCacheExpiry env) d i (gcDelete (ceStore env) d (csStore c))\<rparr>"

subsection \<open>cache.go\<close>

text \<open>\<open>startRetrieve\<close> is \<open>entry.retrieve.Do\<close>, which starts the goroutine that ends with \<open>finishRetrieve\<close>.\<close>

definition startRetrieve :: "nat \<Rightarrow> 's cache_state \<Rightarrow> 's cache_state" where
  "startRetrieve i c =
     (if enRetrieve (csHeap c i) then c
      else c\<lparr>csHeap := (csHeap c)(i := (csHeap c i)\<lparr>enRetrieve := True\<rparr>),
             csRetrieving := i # csRetrieving c\<rparr>)"

definition finishRetrieve :: "nat \<Rightarrow> lookup \<Rightarrow> 's cache_state \<Rightarrow> 's cache_state" where
  "finishRetrieve i l c =
     c\<lparr>csHeap := (csHeap c)(i := setResponse l (csHeap c i)), csRetrieving := removeAll i (csRetrieving c)\<rparr>"

text \<open>\<open>Refresh\<close> starts at most one goroutine \<open>refreshFunc\<close> for an entry: \<open>refreshStart\<close> up to the wait for
  the new entry, \<open>refreshEnd\<close> after it.\<close>

definition Refresh :: "nat \<Rightarrow> 's cache_state \<Rightarrow> 's cache_state" where
  "Refresh i c =
     (if enRefresh (csHeap c i) then c
      else c\<lparr>csHeap := (csHeap c)(i := (csHeap c i)\<lparr>enRefresh := True\<rparr>), csScheduled := i # csScheduled c\<rparr>)"

definition refreshStart :: "nat \<Rightarrow> 's cache_state \<Rightarrow> 's cache_state" where
  "refreshStart i c =
     (let e = csHeap c i
      in case allocEntry (newCacheEntry (csNow c) (enDomain e) (enRefreshTimeout e) (enExpirationTimeout e)) c of
           (j, c') \<Rightarrow>
             startRetrieve j
               (c'\<lparr>csScheduled := removeAll i (csScheduled c'), csRefreshing := (i, j) # csRefreshing c'\<rparr>))"

definition refreshEnd :: "'s cache_env \<Rightarrow> nat \<Rightarrow> nat \<Rightarrow> 's cache_state \<Rightarrow> 's cache_state" where
  "refreshEnd env i j c =
     (let e = csHeap c i;
          c1 = (if \<not> isExpired (csNow c) e \<and> hasTemporaryError (ceGetenv env) (csHeap c j)
                then c\<lparr>csHeap := (csHeap c)(j := (csHeap c j)\<lparr>enResponse := enResponse e,
                                                          enRefreshedOriginal := Some (enCreated e)\<rparr>)\<rparr>
                else c)
      in ReplaceOrCreate env (enDomain e) j (c1\<lparr>csRefreshing := removeAll (i, j) (csRefreshing c1)\<rparr>))"

text \<open>\<open>Resolve\<close> run by one client with nobody interfering; \<open>l\<close> is what the retriever returns when the
  client has to wait for it, \<open>ctxDone\<close> the error of the client's context when it is done first.\<close>

definition contextDone :: "string \<Rightarrow> goerr \<Rightarrow> lookup" where
  "contextDone d err = \<lparr>lkName = d, lkError = Some (errWrapped ''context done'' err), lkDomain = None\<rparr>"

definition cacheRetrieve ::
  "goerr option \<Rightarrow> lookup \<Rightarrow> nat \<Rightarrow> 's cache_state \<Rightarrow> lookup option \<times> 's cache_state"
where
  "cacheRetrieve ctxDone l i c =
     (let c1 = startRetrieve i c
      in case ctxDone of
           Some err \<Rightarrow> (Some (contextDone (enDomain (csHeap c1 i)) err), c1)
         | None \<Rightarrow>
             (let c2 = (if i \<in> set (csRetrieving c1) then finishRetrieve i l c1 else c1)
              in (enResponse (csHeap c2 i), c2)))"

definition cacheResolve ::
  "'s cache_env \<Rightarrow> goerr option \<Rightarrow> lookup \<Rightarrow> string \<Rightarrow> 's cache_state \<Rightarrow> lookup option \<times> 's cache_state"
where
  "cacheResolve env ctxDone l d c =
     (case LoadOrCreate env d c of
        (i, c1) \<Rightarrow>
          (if IsUpToDate (csNow c1) (csHeap c1 i) then (enResponse (csHeap c1 i), c1)
           else if NeedsRefresh (csNow c1) (csHeap c1 i)
           then (let c2 = Refresh i c1 in (enResponse (csHeap c2 i), c2))
           else cacheRetrieve ctxDone l i c1))"

text \<open>The whole of \<open>refreshFunc\<close>, with the retriever's answer.\<close>

definition refreshFunc :: "'s cache_env \<Rightarrow> gotime \<Rightarrow> lookup \<Rightarrow> nat \<Rightarrow> 's cache_state \<Rightarrow> 's cache_state" where
  "refreshFunc env later l i c =
     (let j = csNext c; c1 = refreshStart i c
      in refreshEnd env i j ((finishRetrieve j l c1)\<lparr>csNow := later\<rparr>))"

subsection \<open>Attempts of the retriever\<close>

lemma backoffLoop_attempt:
  assumes "0 < n"
  shows "\<exists>k. i \<le> k \<and> k < i + n \<and> backoffLoop getLookup d i n l = getLookup k d
    \<and> (\<forall>m. i \<le> m \<and> m < k \<longrightarrow> \<not> finalLookup (getLookup m d)) \<and> (finalLookup (getLookup k d) \<or> Suc k = i + n)"
  using assms
proof (induction n arbitrary: i l)
  case (Suc n)
  show ?case
  proof (cases "finalLookup (getLookup i d)")
    case True
    then show ?thesis by (intro exI [of _ i]) (auto simp: Let_def)
  next
    case False
    show ?thesis
    proof (cases n)
      case 0
      then show ?thesis using False by (intro exI [of _ i]) (auto simp: Let_def)
    next
      case (Suc m)
      from Suc.IH [of "Suc i" "getLookup i d"] Suc obtain k where k: "Suc i \<le> k" "k < Suc i + n"
        "backoffLoop getLookup d (Suc i) n (getLookup i d) = getLookup k d"
        "\<forall>m. Suc i \<le> m \<and> m < k \<longrightarrow> \<not> finalLookup (getLookup m d)"
        "finalLookup (getLookup k d) \<or> Suc k = Suc i + n" by auto
      have "\<forall>m. i \<le> m \<and> m < k \<longrightarrow> \<not> finalLookup (getLookup m d)"
        using k(4) False by (metis Suc_leI le_neq_implies_less)
      then show ?thesis using k False by (intro exI [of _ k]) (simp add: Let_def)
    qed
  qed
qed simp

text \<open>
  Retrieval with at least one attempt allowed ends with the answer of one of them: the first that
  needs no retry (no error, no such domain, or not authorised), or the last one allowed; all attempts
  before it failed.
\<close>

theorem resolveWithBackoff_attempt:
  assumes "0 < n"
  shows "\<exists>k. 1 \<le> k \<and> k \<le> n \<and> resolveWithBackoff getLookup n d = getLookup k d
    \<and> (\<forall>m. 1 \<le> m \<and> m < k \<longrightarrow> \<not> finalLookup (getLookup m d)) \<and> (finalLookup (getLookup k d) \<or> k = n)"
  using backoffLoop_attempt [OF assms, of 1 getLookup d zeroLookup] by (auto simp: resolveWithBackoff_def)

theorem resolveWithBackoff_attempt_witness:
  "resolveWithBackoff (\<lambda>i d. \<lparr>lkName = d, lkError = (if i = 2 then Some ErrDomainDoesNotExist else Some (errHTTPStatus 500)),
     lkDomain = None\<rparr>) 3 ''a'' = \<lparr>lkName = ''a'', lkError = Some ErrDomainDoesNotExist, lkDomain = None\<rparr>"
proof -
  let ?g = "\<lambda>i d. \<lparr>lkName = d, lkError = (if i = (2::nat) then Some ErrDomainDoesNotExist else Some (errHTTPStatus 500)),
     lkDomain = None\<rparr>"
  have "\<exists>k. 1 \<le> k \<and> k \<le> 3 \<and> resolveWithBackoff ?g 3 ''a'' = ?g k ''a''
      \<and> (\<forall>m. 1 \<le> m \<and> m < k \<longrightarrow> \<not> finalLookup (?g m ''a'')) \<and> (finalLookup (?g k ''a'') \<or> k = 3)"
    by (rule resolveWithBackoff_attempt) simp
  then obtain k where k: "k \<le> 3" "resolveWithBackoff ?g 3 ''a'' = ?g k ''a''"
    "\<forall>m. 1 \<le> m \<and> m < k \<longrightarrow> \<not> finalLookup (?g m ''a'')" "finalLookup (?g k ''a'') \<or> k = 3" by blast
  have "finalLookup (?g 2 ''a'')" by (simp add: finalLookup_def)
  with k(1,3,4) have "k = 2" by (auto simp: finalLookup_def split: if_splits)
  with k(2) show ?thesis by simp
qed

subsection \<open>Clients and goroutines\<close>

text \<open>Where a client is in \<open>Resolve\<close>; it ends with the lookup it was given (\<open>None\<close> for a nil pointer).\<close>

datatype client =
    Start string
  | Locking string
  | Loaded string nat
  | Outdated string nat
  | Waiting string nat
  | Answered string "lookup option"

type_synonym 's world = "'s cache_state \<times> (nat \<Rightarrow> client)"

text \<open>\<open>api t d\<close> is the answer of the API client at time \<open>t\<close>.  The context of a client may be done at any
  time while it waits; the retriever may take any time, and may time out.\<close>

inductive cache_step ::
  "'s cache_env \<Rightarrow> (gotime \<Rightarrow> string \<Rightarrow> lookup) \<Rightarrow> nat \<Rightarrow> 's world \<Rightarrow> 's world \<Rightarrow> bool"
for env api retries
where
  tick: "0 \<le> t \<Longrightarrow> cache_step env api retries (c, cl) (c\<lparr>csNow := csNow c + t\<rparr>, cl)"
| hit: "cl k = Start d \<Longrightarrow> storeGet env d c = Some i \<Longrightarrow>
    cache_step env api retries (c, cl) (c, cl(k := Loaded d i))"
| miss: "cl k = Start d \<Longrightarrow> storeGet env d c = None \<Longrightarrow>
    cache_step env api retries (c, cl) (c, cl(k := Locking d))"
| lock: "cl k = Locking d \<Longrightarrow> createLocked env d c = (i, c') \<Longrightarrow>
    cache_step env api retries (c, cl) (c', cl(k := Loaded d i))"
| upToDate: "cl k = Loaded d i \<Longrightarrow> IsUpToDate (csNow c) (csHeap c i) \<Longrightarrow>
    cache_step env api retries (c, cl) (c, cl(k := Answered d (enResponse (csHeap c i))))"
| notUpToDate: "cl k = Loaded d i \<Longrightarrow> \<not> IsUpToDate (csNow c) (csHeap c i) \<Longrightarrow>
    cache_step env api retries (c, cl) (c, cl(k := Outdated d i))"
| needsRefresh: "cl k = Outdated d i \<Longrightarrow> NeedsRefresh (csNow c) (csHeap c i) \<Longrightarrow>
    cache_step env api retries (c, cl) (Refresh i c, cl(k := Answered d (enResponse (csHeap (Refresh i c) i))))"
| retrieve: "cl k = Outdated d i \<Longrightarrow> \<not> NeedsRefresh (csNow c) (csHeap c i) \<Longrightarrow>
    cache_step env api retries (c, cl) (startRetrieve i c, cl(k := Waiting d i))"
| wake: "cl k = Waiting d i \<Longrightarrow> enRetrieved (csHeap c i) \<Longrightarrow>
    cache_step env api retries (c, cl) (c, cl(k := Answered d (enResponse (csHeap c i))))"
| cancel: "cl k = Waiting d i \<Longrightarrow>
    cache_step env api retries (c, cl) (c, cl(k := Answered d (Some (contextDone (enDomain (csHeap c i)) err))))"
| retrieved: "i \<in> set (csRetrieving c) \<Longrightarrow>
    l = Retrieve (\<lambda>n. api (ts n)) retries timedOut (enDomain (csHeap c i)) \<Longrightarrow>
    cache_step env api retries (c, cl) (finishRetrieve i l c, cl)"
| refreshStarts: "i \<in> set (csScheduled c) \<Longrightarrow> cache_step env api retries (c, cl) (refreshStart i c, cl)"
| refreshEnds: "(i, j) \<in> set (csRefreshing c) \<Longrightarrow> enRetrieved (csHeap c j) \<Longrightarrow>
    cache_step env api retries (c, cl) (refreshEnd env i j c, cl)"

text \<open>A fresh cache with an empty store, and clients about to ask.\<close>

definition cache_init :: "'s cache_env \<Rightarrow> 's world \<Rightarrow> bool" where
  "cache_init env w \<longleftrightarrow> (case w of (c, cl) \<Rightarrow>
     (\<forall>now d. gcGet (ceStore env) now d (csStore c) = None) \<and> csNext c = 0
     \<and> csRetrieving c = [] \<and> csScheduled c = [] \<and> csRefreshing c = [] \<and> (\<forall>k. \<exists>d. cl k = Start d))"

definition reachable ::
  "'s cache_env \<Rightarrow> (gotime \<Rightarrow> string \<Rightarrow> lookup) \<Rightarrow> nat \<Rightarrow> 's world \<Rightarrow> bool"
where
  "reachable env api retries w \<longleftrightarrow> (\<exists>w0. cache_init env w0 \<and> (cache_step env api retries)\<^sup>*\<^sup>* w0 w)"

subsection \<open>The invariant\<close>

definition answerFor :: "(gotime \<Rightarrow> string \<Rightarrow> lookup) \<Rightarrow> nat \<Rightarrow> string \<Rightarrow> lookup \<Rightarrow> bool" where
  "answerFor api retries d l \<longleftrightarrow> (\<exists>ts timedOut. l = Retrieve (\<lambda>n. api (ts n)) retries timedOut d)"

text \<open>The store names entries of its domain; an entry has a response exactly when its channel is closed,
  the response is one for its domain, and a retrieval that was started and has not ended is running.\<close>

definition store_ok :: "'s cache_env \<Rightarrow> 's cache_state \<Rightarrow> bool" where
  "store_ok env c \<longleftrightarrow> (\<forall>now d x. gcGet (ceStore env) now d (csStore c) = Some x \<longrightarrow>
     fst x < csNext c \<and> enDomain (csHeap c (fst x)) = d)"

definition entry_ok ::
  "(gotime \<Rightarrow> string \<Rightarrow> lookup) \<Rightarrow> nat \<Rightarrow> bool \<Rightarrow> entry \<Rightarrow> bool"
where
  "entry_ok api retries running e \<longleftrightarrow>
     (enRetrieved e \<longleftrightarrow> enResponse e \<noteq> None) \<and> (running \<longleftrightarrow> enRetrieve e \<and> \<not> enRetrieved e)
     \<and> (enRetrieved e \<longrightarrow> enRetrieve e)
     \<and> (\<forall>l. enResponse e = Some l \<longrightarrow> answerFor api retries (enDomain e) l)"

definition entries_ok :: "(gotime \<Rightarrow> string \<Rightarrow> lookup) \<Rightarrow> nat \<Rightarrow> 's cache_state \<Rightarrow> bool" where
  "entries_ok api retries c \<longleftrightarrow> distinct (csRetrieving c) \<and> (\<forall>i \<in> set (csRetrieving c). i < csNext c)
     \<and> (\<forall>i < csNext c. entry_ok api retries (i \<in> set (csRetrieving c)) (csHeap c i))"

definition refresh_ok :: "'s cache_state \<Rightarrow> bool" where
  "refresh_ok c \<longleftrightarrow> (\<forall>i \<in> set (csScheduled c). i < csNext c \<and> enResponse (csHeap c i) \<noteq> None)
     \<and> (\<forall>(i, j) \<in> set (csRefreshing c). i < csNext c \<and> j < csNext c \<and> enResponse (csHeap c i) \<noteq> None
          \<and> enDomain (csHeap c j) = enDomain (csHeap c i))"

fun client_ok :: "(gotime \<Rightarrow> string \<Rightarrow> lookup) \<Rightarrow> nat \<Rightarrow> 's cache_state \<Rightarrow> client \<Rightarrow> bool" where
  "client_ok api retries c (Loaded d i) \<longleftrightarrow> i < csNext c \<and> enDomain (csHeap c i) = d"
| "client_ok api retries c (Outdated d i) \<longleftrightarrow> i < csNext c \<and> enDomain (csHeap c i) = d"
| "client_ok api retries c (Waiting d i) \<longleftrightarrow> i < csNext c \<and> enDomain (csHeap c i) = d \<and> enRetrieve (csHeap c i)"
| "client_ok api retries c (Answered d x) \<longleftrightarrow>
     (\<exists>l. x = Some l \<and> (answerFor api retries d l \<or> (\<exists>err. l = contextDone d err)))"
| "client_ok api retries c _ \<longleftrightarrow> True"

definition cache_inv ::
  "'s cache_env \<Rightarrow> (gotime \<Rightarrow> string \<Rightarrow> lookup) \<Rightarrow> nat \<Rightarrow> 's world \<Rightarrow> bool"
where
  "cache_inv env api retries w \<longleftrightarrow> (case w of (c, cl) \<Rightarrow>
     store_ok env c \<and> entries_ok api retries c \<and> refresh_ok c \<and> (\<forall>k. client_ok api retries c (cl k)))"

text \<open>Every operation only adds entries and only moves them forward.\<close>

definition forward :: "'s cache_state \<Rightarrow> 's cache_state \<Rightarrow> bool" where
  "forward c c' \<longleftrightarrow> csNext c \<le> csNext c' \<and> (\<forall>i < csNext c.
     enDomain (csHeap c' i) = enDomain (csHeap c i)
     \<and> (enRetrieve (csHeap c i) \<longrightarrow> enRetrieve (csHeap c' i))
     \<and> (enResponse (csHeap c i) \<noteq> None \<longrightarrow> enResponse (csHeap c' i) \<noteq> None))"

lemma client_ok_forward: "forward c c' \<Longrightarrow> client_ok api retries c x \<Longrightarrow> client_ok api retries c' x"
  by (cases x) (auto simp: forward_def)

lemma refresh_ok_forward:
  assumes "forward c c'" and "refresh_ok c" and "set (csScheduled c') \<subseteq> set (csScheduled c)"
    and "set (csRefreshing c') \<subseteq> set (csRefreshing c)"
  shows "refresh_ok c'"
proof -
  have "i < csNext c' \<and> enResponse (csHeap c' i) \<noteq> None" if "i \<in> set (csScheduled c')" for i
  proof -
    have "i < csNext c" "enResponse (csHeap c i) \<noteq> None"
      using assms(2,3) that unfolding refresh_ok_def by auto
    then show ?thesis using assms(1) unfolding forward_def by (meson less_le_trans)
  qed
  moreover have "i < csNext c' \<and> j < csNext c' \<and> enResponse (csHeap c' i) \<noteq> None
      \<and> enDomain (csHeap c' j) = enDomain (csHeap c' i)" if "(i, j) \<in> set (csRefreshing c')" for i j
  proof -
    have "i < csNext c" "j < csNext c" "enResponse (csHeap c i) \<noteq> None"
      "enDomain (csHeap c j) = enDomain (csHeap c i)"
      using assms(2,4) that unfolding refresh_ok_def by auto
    then show ?thesis using assms(1) unfolding forward_def by (metis less_le_trans)
  qed
  ultimately show ?thesis unfolding refresh_ok_def by auto
qed

lemma store_ok_forward:
  "forward c c' \<Longrightarrow> store_ok env c \<Longrightarrow> csStore c' = csStore c \<Longrightarrow> store_ok env c'"
  unfolding store_ok_def forward_def by (metis less_le_trans)

definition cache_ok :: "'s cache_env \<Rightarrow> (gotime \<Rightarrow> string \<Rightarrow> lookup) \<Rightarrow> nat \<Rightarrow> 's cache_state \<Rightarrow> bool" where
  "cache_ok env api retries c \<longleftrightarrow> store_ok env c \<and> entries_ok api retries c \<and> refresh_ok c"

lemma cache_inv_iff:
  "cache_inv env api retries (c, cl) \<longleftrightarrow> cache_ok env api retries c \<and> (\<forall>k. client_ok api retries c (cl k))"
  by (simp add: cache_inv_def cache_ok_def)

lemma entries_okD: "entries_ok api retries c \<Longrightarrow> i < csNext c \<Longrightarrow> entry_ok api retries (i \<in> set (csRetrieving c)) (csHeap c i)"
  by (simp add: entries_ok_def)

lemma forward_refl [simp]: "forward c c"
  by (simp add: forward_def)

lemma forward_trans: "forward a b \<Longrightarrow> forward b c \<Longrightarrow> forward a c"
  unfolding forward_def by (metis le_trans less_le_trans)

lemma cache_ok_tick: "cache_ok env api retries (c\<lparr>csNow := t\<rparr>) \<longleftrightarrow> cache_ok env api retries c"
  by (simp add: cache_ok_def store_ok_def entries_ok_def refresh_ok_def)

lemma forward_tick: "forward c (c\<lparr>csNow := t\<rparr>)"
  by (simp add: forward_def)

lemma allocEntry_ok:
  assumes "allocEntry e c = (i, c')" and "cache_ok env api retries c" and "entry_ok api retries False e"
  shows "cache_ok env api retries c' \<and> forward c c' \<and> i = csNext c \<and> csNext c' = Suc i \<and> csHeap c' i = e"
proof -
  have c': "i = csNext c" "c' = c\<lparr>csHeap := (csHeap c)(csNext c := e), csNext := Suc (csNext c)\<rparr>"
    using assms(1) by (auto simp: allocEntry_def)
  have f: "forward c c'" by (simp add: c' forward_def)
  have "csNext c \<notin> set (csRetrieving c)"
    using assms(2) unfolding cache_ok_def entries_ok_def by blast
  then have "entries_ok api retries c'"
    using assms(2,3) unfolding cache_ok_def entries_ok_def by (auto simp: c' less_Suc_eq)
  moreover have "store_ok env c'"
    by (rule store_ok_forward [OF f]) (use assms(2) in \<open>simp_all add: cache_ok_def c'\<close>)
  moreover have "refresh_ok c'"
    by (rule refresh_ok_forward [OF f]) (use assms(2) in \<open>simp_all add: cache_ok_def c'\<close>)
  ultimately show ?thesis using f by (simp add: cache_ok_def) (simp add: c')
qed

lemma newCacheEntry_ok: "entry_ok api retries False (newCacheEntry now d x y)"
  by (simp add: entry_ok_def newCacheEntry_def)

lemma storeSet_ok:
  assumes "gocache_ok (ceStore env)" and "cache_ok env api retries c" and "i < csNext c"
    and "enDomain (csHeap c i) = d"
  shows "cache_ok env api retries (c\<lparr>csStore := gcSet (ceStore env) now x d i (csStore c)\<rparr>)"
proof -
  have law: "if k' = d then fst y = i else gcGet (ceStore env) now' k' (csStore c) = Some y"
    if "gcGet (ceStore env) now' k' (gcSet (ceStore env) now x d i (csStore c)) = Some y" for now' k' y
    using gocache_laws(4) [OF assms(1) that] .
  have "store_ok env (c\<lparr>csStore := gcSet (ceStore env) now x d i (csStore c)\<rparr>)"
    unfolding store_ok_def
  proof (intro allI impI)
    fix now' k' y
    assume "gcGet (ceStore env) now' k' (csStore (c\<lparr>csStore := gcSet (ceStore env) now x d i (csStore c)\<rparr>)) = Some y"
    then have "if k' = d then fst y = i else gcGet (ceStore env) now' k' (csStore c) = Some y"
      using law by simp
    then show "fst y < csNext (c\<lparr>csStore := gcSet (ceStore env) now x d i (csStore c)\<rparr>)
      \<and> enDomain (csHeap (c\<lparr>csStore := gcSet (ceStore env) now x d i (csStore c)\<rparr>) (fst y)) = k'"
      using assms(2-4) unfolding cache_ok_def store_ok_def by (cases y) (auto split: if_splits)
  qed
  then show ?thesis using assms(2) by (simp add: cache_ok_def entries_ok_def refresh_ok_def)
qed

lemma storeDelete_ok:
  assumes "gocache_ok (ceStore env)" and "cache_ok env api retries c"
  shows "cache_ok env api retries (c\<lparr>csStore := gcDelete (ceStore env) d (csStore c)\<rparr>)"
proof -
  have "gcGet (ceStore env) now k' (gcDelete (ceStore env) d (csStore c))
      = (if k' = d then None else gcGet (ceStore env) now k' (csStore c))" for now k'
    by (rule gocache_laws(2) [OF assms(1)])
  then show ?thesis using assms(2) by (auto simp: cache_ok_def store_ok_def entries_ok_def refresh_ok_def)
qed

lemma storeGet_ok:
  "cache_ok env api retries c \<Longrightarrow> storeGet env d c = Some i \<Longrightarrow> i < csNext c \<and> enDomain (csHeap c i) = d"
  by (auto simp: cache_ok_def store_ok_def storeGet_def)

lemma createLocked_ok:
  assumes "gocache_ok (ceStore env)" and "cache_ok env api retries c" and "createLocked env d c = (i, c')"
  shows "cache_ok env api retries c' \<and> forward c c' \<and> i < csNext c' \<and> enDomain (csHeap c' i) = d"
proof (cases "storeGet env d c")
  case (Some j)
  then show ?thesis using assms storeGet_ok [OF assms(2) Some] by (simp add: createLocked_def)
next
  case None
  obtain j c1 where a: "allocEntry (newCacheEntry (csNow c) d (ceEntryRefreshTimeout env) (ceCacheExpiry env)) c = (j, c1)"
    by fastforce
  note ok = allocEntry_ok [OF a assms(2) newCacheEntry_ok]
  have c': "i = j" "c' = c1\<lparr>csStore := gcSet (ceStore env) (csNow c) (ceCacheExpiry env) d j (csStore c1)\<rparr>"
    using assms(3) None a by (auto simp: createLocked_def)
  have d: "enDomain (csHeap c1 j) = d" using ok by (auto simp: newCacheEntry_def)
  have "forward c c'" using ok unfolding c'(2) by (simp add: forward_def)
  moreover have "cache_ok env api retries c'"
    unfolding c'(2) by (rule storeSet_ok [OF assms(1)]) (use ok d in auto)
  ultimately show ?thesis using ok d by (simp add: c')
qed

lemma heapUpdate_ok:
  assumes "cache_ok env api retries c" and "i < csNext c"
    and "c' = c\<lparr>csHeap := (csHeap c)(i := e), csRetrieving := rs\<rparr>"
    and "distinct rs" and "set rs - {i} = set (csRetrieving c) - {i}"
    and "entry_ok api retries (i \<in> set rs) e" and "enDomain e = enDomain (csHeap c i)"
    and "enRetrieve (csHeap c i) \<Longrightarrow> enRetrieve e" and "enResponse (csHeap c i) \<noteq> None \<Longrightarrow> enResponse e \<noteq> None"
  shows "cache_ok env api retries c' \<and> forward c c'"
proof -
  have f: "forward c c'" using assms(7-9) by (simp add: forward_def assms(3))
  have mem: "j \<in> set rs \<longleftrightarrow> j \<in> set (csRetrieving c)" if "j \<noteq> i" for j
    using assms(5) that by blast
  have "\<forall>j \<in> set rs. j < csNext c"
    using assms(1,2) mem unfolding cache_ok_def entries_ok_def by metis
  moreover have "entry_ok api retries (j \<in> set rs) (((csHeap c)(i := e)) j)" if "j < csNext c" for j
    using that assms(1,6) mem unfolding cache_ok_def entries_ok_def by (cases "j = i") simp_all
  ultimately have "entries_ok api retries c'" using assms(4) by (simp add: entries_ok_def assms(3))
  moreover have "store_ok env c'"
    by (rule store_ok_forward [OF f]) (use assms(1) in \<open>simp_all add: cache_ok_def assms(3)\<close>)
  moreover have "refresh_ok c'"
    by (rule refresh_ok_forward [OF f]) (use assms(1) in \<open>simp_all add: cache_ok_def assms(3)\<close>)
  ultimately show ?thesis using f by (simp add: cache_ok_def)
qed

lemma startRetrieve_ok:
  assumes "cache_ok env api retries c" and "i < csNext c"
  shows "cache_ok env api retries (startRetrieve i c) \<and> forward c (startRetrieve i c)
    \<and> enRetrieve (csHeap (startRetrieve i c) i)"
proof (cases "enRetrieve (csHeap c i)")
  case True
  then show ?thesis using assms by (simp add: startRetrieve_def)
next
  case False
  let ?e = "(csHeap c i)\<lparr>enRetrieve := True\<rparr>"
  have ok: "entry_ok api retries (i \<in> set (csRetrieving c)) (csHeap c i)"
    using assms entries_okD unfolding cache_ok_def by blast
  then have "i \<notin> set (csRetrieving c)" "entry_ok api retries True ?e"
    using False by (auto simp: entry_ok_def)
  moreover have "distinct (csRetrieving c)" using assms(1) by (simp add: cache_ok_def entries_ok_def)
  ultimately have "cache_ok env api retries (startRetrieve i c) \<and> forward c (startRetrieve i c)"
    using False by (intro heapUpdate_ok [OF assms, where e = ?e and rs = "i # csRetrieving c"])
      (simp_all add: startRetrieve_def)
  then show ?thesis using False by (simp add: startRetrieve_def)
qed

lemma finishRetrieve_ok:
  assumes "cache_ok env api retries c" and "i \<in> set (csRetrieving c)"
    and "answerFor api retries (enDomain (csHeap c i)) l"
  shows "cache_ok env api retries (finishRetrieve i l c) \<and> forward c (finishRetrieve i l c)"
proof -
  have i: "i < csNext c" "distinct (csRetrieving c)"
    using assms(1,2) by (auto simp: cache_ok_def entries_ok_def)
  then have ok: "entry_ok api retries True (csHeap c i)"
    using assms(1,2) entries_okD unfolding cache_ok_def by fastforce
  then have "entry_ok api retries False (setResponse l (csHeap c i))"
    using assms(3) by (simp add: entry_ok_def setResponse_def)
  then show ?thesis using i ok
    by (intro heapUpdate_ok [OF assms(1) i(1), where e = "setResponse l (csHeap c i)" and rs = "removeAll i (csRetrieving c)"])
      (auto simp: finishRetrieve_def setResponse_def distinct_removeAll)
qed

lemma Refresh_ok:
  assumes "cache_ok env api retries c" and "i < csNext c" and "enResponse (csHeap c i) \<noteq> None"
  shows "cache_ok env api retries (Refresh i c) \<and> forward c (Refresh i c)
    \<and> enResponse (csHeap (Refresh i c) i) = enResponse (csHeap c i)"
proof (cases "enRefresh (csHeap c i)")
  case True
  then show ?thesis using assms by (simp add: Refresh_def)
next
  case False
  let ?e = "(csHeap c i)\<lparr>enRefresh := True\<rparr>"
  let ?c = "c\<lparr>csHeap := (csHeap c)(i := ?e), csRetrieving := csRetrieving c\<rparr>"
  have "entry_ok api retries (i \<in> set (csRetrieving c)) (csHeap c i)"
    using assms entries_okD unfolding cache_ok_def by blast
  then have "entry_ok api retries (i \<in> set (csRetrieving c)) ?e" by (simp add: entry_ok_def)
  moreover have "distinct (csRetrieving c)" using assms(1) by (simp add: cache_ok_def entries_ok_def)
  ultimately have ok: "cache_ok env api retries ?c \<and> forward c ?c"
    by (intro heapUpdate_ok [OF assms(1,2), where e = ?e and rs = "csRetrieving c"]) simp_all
  have eq: "Refresh i c = ?c\<lparr>csScheduled := i # csScheduled ?c\<rparr>" using False by (simp add: Refresh_def)
  have "cache_ok env api retries (Refresh i c)"
    using ok assms(2,3) unfolding eq cache_ok_def
    by (auto simp: store_ok_def entries_ok_def refresh_ok_def)
  moreover have "forward c (Refresh i c)" using ok unfolding eq by (simp add: forward_def)
  ultimately show ?thesis by (simp add: eq)
qed

lemma refreshStart_ok:
  assumes "cache_ok env api retries c" and "i \<in> set (csScheduled c)"
  shows "cache_ok env api retries (refreshStart i c) \<and> forward c (refreshStart i c)"
proof -
  let ?n = "newCacheEntry (csNow c) (enDomain (csHeap c i)) (enRefreshTimeout (csHeap c i)) (enExpirationTimeout (csHeap c i))"
  have i: "i < csNext c" "enResponse (csHeap c i) \<noteq> None"
    using assms by (auto simp: cache_ok_def refresh_ok_def)
  obtain j c1 where a: "allocEntry ?n c = (j, c1)" by fastforce
  have ok: "cache_ok env api retries c1" "forward c c1" "j = csNext c" "csNext c1 = Suc j" "csHeap c1 j = ?n"
    using allocEntry_ok [OF a assms(1) newCacheEntry_ok] by auto
  let ?c2 = "c1\<lparr>csScheduled := removeAll i (csScheduled c1), csRefreshing := (i, j) # csRefreshing c1\<rparr>"
  have h: "i < csNext c1" "enResponse (csHeap c1 i) \<noteq> None" "enDomain (csHeap c1 j) = enDomain (csHeap c1 i)"
    using i ok(2-5) by (auto simp: forward_def newCacheEntry_def)
  then have ok2: "cache_ok env api retries ?c2"
    using ok(1,4) by (auto simp: cache_ok_def store_ok_def entries_ok_def refresh_ok_def)
  have j: "j < csNext ?c2" using ok(4) by simp
  have f: "forward c ?c2" using ok(2) by (simp add: forward_def)
  have eq: "refreshStart i c = startRetrieve j ?c2" by (simp add: refreshStart_def a Let_def)
  have "forward c (startRetrieve j ?c2)"
    using forward_trans [OF f] startRetrieve_ok [OF ok2 j] by blast
  then show ?thesis using startRetrieve_ok [OF ok2 j] by (simp add: eq)
qed

lemma refreshEnd_ok:
  assumes gc: "gocache_ok (ceStore env)" and c: "cache_ok env api retries c"
    and ij: "(i, j) \<in> set (csRefreshing c)" and r: "enRetrieved (csHeap c j)"
  shows "cache_ok env api retries (refreshEnd env i j c) \<and> forward c (refreshEnd env i j c)"
proof -
  let ?e = "csHeap c i"
  let ?keep = "\<not> isExpired (csNow c) ?e \<and> hasTemporaryError (ceGetenv env) (csHeap c j)"
  let ?f = "(csHeap c j)\<lparr>enResponse := enResponse ?e, enRefreshedOriginal := Some (enCreated ?e)\<rparr>"
  let ?c1 = "if ?keep then c\<lparr>csHeap := (csHeap c)(j := ?f)\<rparr> else c"
  let ?c2 = "?c1\<lparr>csRefreshing := removeAll (i, j) (csRefreshing ?c1)\<rparr>"
  have h: "i < csNext c" "j < csNext c" "enResponse ?e \<noteq> None" "enDomain (csHeap c j) = enDomain ?e"
    using c ij by (auto simp: cache_ok_def refresh_ok_def)
  have ok: "entry_ok api retries (i \<in> set (csRetrieving c)) ?e" "entry_ok api retries (j \<in> set (csRetrieving c)) (csHeap c j)"
    using c h entries_okD unfolding cache_ok_def by blast+
  then have "entry_ok api retries (j \<in> set (csRetrieving c)) ?f" using r h by (auto simp: entry_ok_def)
  moreover have "distinct (csRetrieving c)" using c by (simp add: cache_ok_def entries_ok_def)
  ultimately have "cache_ok env api retries (c\<lparr>csHeap := (csHeap c)(j := ?f)\<rparr>) \<and> forward c (c\<lparr>csHeap := (csHeap c)(j := ?f)\<rparr>)"
    using h by (intro heapUpdate_ok [OF c h(2), where e = ?f and rs = "csRetrieving c"]) simp_all
  then have c1: "cache_ok env api retries ?c1 \<and> forward c ?c1" using c by simp
  then have c2: "cache_ok env api retries ?c2"
    by (auto simp: cache_ok_def store_ok_def entries_ok_def refresh_ok_def simp del: if_split)
  have n: "csNext ?c2 = csNext c" "enDomain (csHeap ?c2 j) = enDomain ?e" using h(4) by simp_all
  have eq: "refreshEnd env i j c = (?c2\<lparr>csStore := gcDelete (ceStore env) (enDomain ?e) (csStore ?c2)\<rparr>)
      \<lparr>csStore := gcSet (ceStore env) (csNow ?c2) (ceCacheExpiry env) (enDomain ?e) j
         (csStore (?c2\<lparr>csStore := gcDelete (ceStore env) (enDomain ?e) (csStore ?c2)\<rparr>))\<rparr>"
    by (simp add: refreshEnd_def ReplaceOrCreate_def Let_def)
  have "cache_ok env api retries (refreshEnd env i j c)"
    unfolding eq by (rule storeSet_ok [OF gc storeDelete_ok [OF gc c2]]) (use n h in simp_all)
  moreover have "forward c (refreshEnd env i j c)"
    using c1 unfolding eq by (simp add: forward_def)
  ultimately show ?thesis by blast
qed

lemma cache_inv_init: "cache_init env w \<Longrightarrow> cache_inv env api retries w"
proof (cases w)
  case (Pair c cl)
  assume "cache_init env w"
  then have "cache_ok env api retries c" "\<exists>d. cl k = Start d" for k
    by (auto simp: Pair cache_init_def cache_ok_def store_ok_def entries_ok_def refresh_ok_def)
  then show ?thesis unfolding Pair cache_inv_iff by (metis client_ok.simps(5))
qed

lemma cache_inv_client:
  assumes "cache_inv env api retries (c, cl)" and "cache_ok env api retries c' \<and> forward c c'"
    and "client_ok api retries c' x"
  shows "cache_inv env api retries (c', cl(k := x))"
  using assms client_ok_forward unfolding cache_inv_iff by fastforce

lemma cache_inv_quiet:
  assumes "cache_inv env api retries (c, cl)" and "cache_ok env api retries c' \<and> forward c c'"
  shows "cache_inv env api retries (c', cl)"
  using assms client_ok_forward unfolding cache_inv_iff by blast

lemma response_ok:
  assumes "cache_ok env api retries c" and "i < csNext c" and "enResponse (csHeap c i) \<noteq> None"
  shows "client_ok api retries c' (Answered (enDomain (csHeap c i)) (enResponse (csHeap c i)))"
  using assms entries_okD [of api retries c i] unfolding cache_ok_def entry_ok_def by auto

lemma cache_inv_step:
  assumes "gocache_ok (ceStore env)" and "cache_step env api retries w w'" and "cache_inv env api retries w"
  shows "cache_inv env api retries w'"
  using assms(2,3)
proof (induction rule: cache_step.induct)
  case (tick t c cl)
  then show ?case
    by (intro cache_inv_quiet [OF tick(2)]) (simp add: cache_inv_iff cache_ok_tick forward_tick)
next
  case (hit cl k d c i)
  then show ?case using storeGet_ok [of env api retries c d i]
    by (intro cache_inv_client [OF hit(3)]) (auto simp: cache_inv_iff)
next
  case (miss cl k d c)
  then show ?case by (intro cache_inv_client [OF miss(3)]) (auto simp: cache_inv_iff)
next
  case (lock cl k d c i c')
  then show ?case using createLocked_ok [OF assms(1) _ lock(2), of api retries]
    by (intro cache_inv_client [OF lock(3)]) (auto simp: cache_inv_iff)
next
  case (upToDate cl k d i c)
  have k: "client_ok api retries c (Loaded d i)" "cache_ok env api retries c"
    using upToDate(1,3) unfolding cache_inv_iff by metis+
  then have "client_ok api retries c (Answered d (enResponse (csHeap c i)))"
    using upToDate(2) response_ok [OF k(2), of i c] by (auto simp: IsUpToDate_def isResolved_def)
  then show ?case using k by (intro cache_inv_client [OF upToDate(3)]) simp_all
next
  case (notUpToDate cl k d i c)
  have "client_ok api retries c (Loaded d i)" "cache_ok env api retries c"
    using notUpToDate(1,3) unfolding cache_inv_iff by metis+
  then show ?case by (intro cache_inv_client [OF notUpToDate(3)]) simp_all
next
  case (needsRefresh cl k d i c)
  have k: "client_ok api retries c (Outdated d i)" "cache_ok env api retries c"
    using needsRefresh(1,3) unfolding cache_inv_iff by metis+
  have i: "i < csNext c" "enDomain (csHeap c i) = d" "enResponse (csHeap c i) \<noteq> None"
    using k(1) needsRefresh(2) by (simp_all add: NeedsRefresh_def isResolved_def)
  note ok = Refresh_ok [OF k(2) i(1,3)]
  have "client_ok api retries (Refresh i c) (Answered d (enResponse (csHeap (Refresh i c) i)))"
    using ok i(2) response_ok [OF k(2) i(1,3)] by simp
  then show ?case using ok by (intro cache_inv_client [OF needsRefresh(3)]) simp_all
next
  case (retrieve cl k d i c)
  have k: "client_ok api retries c (Outdated d i)" "cache_ok env api retries c"
    using retrieve(1,3) unfolding cache_inv_iff by metis+
  have i: "i < csNext c" "enDomain (csHeap c i) = d" using k(1) by simp_all
  note ok = startRetrieve_ok [OF k(2) i(1)]
  then have "client_ok api retries (startRetrieve i c) (Waiting d i)" using i by (auto simp: forward_def)
  then show ?case using ok by (intro cache_inv_client [OF retrieve(3)]) simp_all
next
  case (wake cl k d i c)
  have k: "client_ok api retries c (Waiting d i)" "cache_ok env api retries c"
    using wake(1,3) unfolding cache_inv_iff by metis+
  have "entry_ok api retries (i \<in> set (csRetrieving c)) (csHeap c i)"
    using k entries_okD unfolding cache_ok_def by auto
  then have "client_ok api retries c (Answered d (enResponse (csHeap c i)))"
    using wake(2) k response_ok [OF k(2), of i c] by (auto simp: entry_ok_def)
  then show ?case using k by (intro cache_inv_client [OF wake(3)]) simp_all
next
  case (cancel cl k d i c err)
  have "client_ok api retries c (Waiting d i)" "cache_ok env api retries c"
    using cancel(1,2) unfolding cache_inv_iff by metis+
  then show ?case by (intro cache_inv_client [OF cancel(2)]) auto
next
  case (retrieved i c l ts timedOut cl)
  then show ?case using finishRetrieve_ok [of env api retries c i l]
    by (intro cache_inv_quiet [OF retrieved(3)]) (auto simp: cache_inv_iff answerFor_def)
next
  case (refreshStarts i c cl)
  then show ?case using refreshStart_ok [of env api retries c i]
    by (intro cache_inv_quiet [OF refreshStarts(2)]) (auto simp: cache_inv_iff)
next
  case (refreshEnds i j c cl)
  then show ?case using refreshEnd_ok [OF assms(1), of api retries c i j]
    by (intro cache_inv_quiet [OF refreshEnds(3)]) (auto simp: cache_inv_iff)
qed

lemma reachable_inv:
  assumes "gocache_ok (ceStore env)" and "reachable env api retries w"
  shows "cache_inv env api retries w"
proof -
  obtain w0 where w0: "cache_init env w0" and "(cache_step env api retries)\<^sup>*\<^sup>* w0 w"
    using assms(2) by (auto simp: reachable_def)
  from this(2) show ?thesis
    by (induction rule: rtranclp_induct) (use w0 cache_inv_init cache_inv_step [OF assms(1)] in blast)+
qed

text \<open>
  C6: whatever clients and background goroutines do and however they interleave, a client that asked
  for a domain is answered with a lookup, never a nil one, and it is the retriever's answer for that
  same domain, unless the client's own context was done first.
\<close>

theorem cache_answers_own_domain:
  assumes "gocache_ok (ceStore env)" and "reachable env api retries (c, cl)" and "cl k = Answered d x"
  shows "\<exists>l. x = Some l \<and> ((\<exists>ts timedOut. l = Retrieve (\<lambda>n. api (ts n)) retries timedOut d)
    \<or> (\<exists>err. l = contextDone d err))"
proof -
  have "client_ok api retries c (cl k)"
    using reachable_inv [OF assms(1,2)] unfolding cache_inv_iff by blast
  then show ?thesis using assms(3) by (auto simp: answerFor_def)
qed

text \<open>
  C7: the channel of an entry is closed at most once and no wake-up is lost: a retrieval that is
  running belongs to an entry whose channel is still open, no entry has two of them, and a client that
  waits for an entry finds the channel closed or a retrieval of that entry running, after whose end it
  can be answered.
\<close>

theorem cache_waits_for_retrieval:
  assumes "gocache_ok (ceStore env)" and "reachable env api retries (c, cl)"
  shows "distinct (csRetrieving c) \<and> (\<forall>i \<in> set (csRetrieving c). \<not> enRetrieved (csHeap c i))
    \<and> (\<forall>k d i. cl k = Waiting d i \<longrightarrow> enRetrieved (csHeap c i)
        \<or> (i \<in> set (csRetrieving c) \<and> (\<forall>l. enRetrieved (csHeap (finishRetrieve i l c) i)
             \<and> cache_step env api retries (finishRetrieve i l c, cl) (finishRetrieve i l c, cl(k := Answered d (Some l))))))"
proof -
  have inv: "cache_ok env api retries c" "client_ok api retries c (cl k)" for k
    using reachable_inv [OF assms] unfolding cache_inv_iff by blast+
  then have e: "i < csNext c \<Longrightarrow> entry_ok api retries (i \<in> set (csRetrieving c)) (csHeap c i)" for i
    using entries_okD unfolding cache_ok_def by blast
  have "distinct (csRetrieving c)" "\<forall>i \<in> set (csRetrieving c). i < csNext c"
    using inv(1) unfolding cache_ok_def entries_ok_def by blast+
  moreover have "\<forall>i \<in> set (csRetrieving c). \<not> enRetrieved (csHeap c i)"
    using e \<open>\<forall>i \<in> set (csRetrieving c). i < csNext c\<close> unfolding entry_ok_def by auto
  moreover have "enRetrieved (csHeap c i) \<or> (i \<in> set (csRetrieving c) \<and> (\<forall>l. enRetrieved (csHeap (finishRetrieve i l c) i)
      \<and> cache_step env api retries (finishRetrieve i l c, cl) (finishRetrieve i l c, cl(k := Answered d (Some l)))))"
    if w: "cl k = Waiting d i" for k d i
  proof -
    have "enRetrieved (csHeap c i) \<or> i \<in> set (csRetrieving c)"
      using inv(2) [of k] w e [of i] by (auto simp: entry_ok_def)
    moreover have r: "enRetrieved (csHeap (finishRetrieve i l c) i)" "enResponse (csHeap (finishRetrieve i l c) i) = Some l" for l
      by (simp_all add: finishRetrieve_def setResponse_def)
    moreover have "cache_step env api retries (finishRetrieve i l c, cl) (finishRetrieve i l c, cl(k := Answered d (Some l)))" for l
      using cache_step.wake [of cl k d i "finishRetrieve i l c" env api retries] w r [of l] by simp
    ultimately show ?thesis by blast
  qed
  ultimately show ?thesis by blast
qed

subsection \<open>A run, for examples\<close>

definition exampleCacheEnv :: "(string \<Rightarrow> (nat \<times> gotime) option) cache_env" where
  "exampleCacheEnv = \<lparr>ceStore = mapGocache, ceEntryRefreshTimeout = 60, ceCacheExpiry = 600, ceGetenv = (\<lambda>_. [])\<rparr>"

definition exampleCache :: "(string \<Rightarrow> (nat \<times> gotime) option) cache_state" where
  "exampleCache = \<lparr>csNow = 1000, csStore = (\<lambda>_. None), csHeap = (\<lambda>_. newCacheEntry 0 [] 0 0), csNext = 0,
     csRetrieving = [], csScheduled = [], csRefreshing = []\<rparr>"

definition exampleWaiting :: "(string \<Rightarrow> (nat \<times> gotime) option) cache_state" where
  "exampleWaiting = startRetrieve 0 (snd (createLocked exampleCacheEnv ''a'' exampleCache))"

definition exampleLookupFor :: "string \<Rightarrow> lookup" where
  "exampleLookupFor d = \<lparr>lkName = d, lkError = Some ErrDomainDoesNotExist, lkDomain = None\<rparr>"

lemma exampleWaiting_simps:
  "csHeap exampleWaiting 0 = (newCacheEntry 1000 ''a'' 60 600)\<lparr>enRetrieve := True\<rparr>"
  "csRetrieving exampleWaiting = [0]"
  by (simp_all add: exampleWaiting_def startRetrieve_def createLocked_def storeGet_def allocEntry_def
      exampleCache_def exampleCacheEnv_def mapGocache_def newCacheEntry_def)

lemma exampleWaiting_reachable:
  "reachable exampleCacheEnv (\<lambda>t d. exampleLookupFor d) 3 (exampleWaiting, (\<lambda>_. Start ''a'')(7 := Waiting ''a'' 0))"
proof -
  let ?s = "cache_step exampleCacheEnv (\<lambda>t d. exampleLookupFor d) 3"
  let ?cl = "\<lambda>_::nat. Start ''a''"
  let ?c1 = "snd (createLocked exampleCacheEnv ''a'' exampleCache)"
  have g: "storeGet exampleCacheEnv ''a'' exampleCache = None"
    by (simp add: storeGet_def exampleCache_def exampleCacheEnv_def mapGocache_def)
  have cr: "createLocked exampleCacheEnv ''a'' exampleCache = (0, ?c1)"
    using g by (simp add: createLocked_def allocEntry_def exampleCache_def)
  have r: "enResponse (csHeap ?c1 0) = None"
    using g by (simp add: createLocked_def allocEntry_def exampleCache_def newCacheEntry_def)
  have "cache_init exampleCacheEnv (exampleCache, ?cl)"
    by (simp add: cache_init_def exampleCache_def exampleCacheEnv_def mapGocache_def)
  moreover have "?s\<^sup>*\<^sup>* (exampleCache, ?cl) (exampleCache, ?cl(7 := Locking ''a''))"
    using cache_step.miss [of ?cl 7 "''a''" exampleCacheEnv exampleCache] g by auto
  moreover have "?s (exampleCache, ?cl(7 := Locking ''a'')) (?c1, ?cl(7 := Loaded ''a'' 0))"
    using cache_step.lock [of "?cl(7 := Locking ''a'')" 7 "''a''", OF _ cr] by simp
  moreover have "?s (?c1, ?cl(7 := Loaded ''a'' 0)) (?c1, ?cl(7 := Outdated ''a'' 0))"
    using cache_step.notUpToDate [of "?cl(7 := Loaded ''a'' 0)" 7 "''a''" 0 ?c1] r
    by (simp add: IsUpToDate_def isResolved_def)
  moreover have "?s (?c1, ?cl(7 := Outdated ''a'' 0)) (exampleWaiting, ?cl(7 := Waiting ''a'' 0))"
    using cache_step.retrieve [of "?cl(7 := Outdated ''a'' 0)" 7 "''a''" 0 ?c1] r
    by (simp add: NeedsRefresh_def isResolved_def exampleWaiting_def)
  ultimately show ?thesis unfolding reachable_def by (meson rtranclp.rtrancl_into_rtrancl)
qed

theorem cache_waits_for_retrieval_witness:
  "0 \<in> set (csRetrieving exampleWaiting) \<and> enRetrieved (csHeap (finishRetrieve 0 (exampleLookupFor ''a'') exampleWaiting) 0)"
proof -
  have "gocache_ok (ceStore exampleCacheEnv)" by (simp add: exampleCacheEnv_def mapGocache_ok)
  from cache_waits_for_retrieval [OF this exampleWaiting_reachable]
  have "enRetrieved (csHeap exampleWaiting 0) \<or> (0 \<in> set (csRetrieving exampleWaiting)
      \<and> (\<forall>l. enRetrieved (csHeap (finishRetrieve 0 l exampleWaiting) 0)))"
    by (metis (mono_tags, lifting) fun_upd_same)
  then show ?thesis by (simp add: exampleWaiting_simps newCacheEntry_def)
qed

theorem cache_answers_own_domain_witness:
  "\<exists>c cl l. reachable exampleCacheEnv (\<lambda>t d. exampleLookupFor d) 3 (c, cl) \<and> cl 7 = Answered ''a'' (Some l)
    \<and> l = exampleLookupFor ''a''"
proof -
  let ?s = "cache_step exampleCacheEnv (\<lambda>t d. exampleLookupFor d) 3"
  let ?cl = "(\<lambda>_::nat. Start ''a'')(7 := Waiting ''a'' 0)"
  let ?l = "Retrieve (\<lambda>n d. exampleLookupFor d) 3 False ''a''"
  let ?c = "finishRetrieve 0 ?l exampleWaiting"
  let ?cl2 = "?cl(7 := Answered ''a'' (Some ?l))"
  have gc: "gocache_ok (ceStore exampleCacheEnv)" by (simp add: exampleCacheEnv_def mapGocache_ok)
  have s1: "?s (exampleWaiting, ?cl) (?c, ?cl)"
    by (rule cache_step.retrieved) (simp_all add: exampleWaiting_simps newCacheEntry_def)
  have "enResponse (csHeap ?c 0) = Some ?l" "enRetrieved (csHeap ?c 0)"
    by (simp_all add: finishRetrieve_def setResponse_def)
  then have s2: "?s (?c, ?cl) (?c, ?cl2)"
    using cache_step.wake [of ?cl 7 "''a''" 0 ?c exampleCacheEnv "\<lambda>t d. exampleLookupFor d" 3] by simp
  have r: "reachable exampleCacheEnv (\<lambda>t d. exampleLookupFor d) 3 (?c, ?cl2)"
    using exampleWaiting_reachable s1 s2 unfolding reachable_def by (meson rtranclp.rtrancl_into_rtrancl)
  have "?l = exampleLookupFor ''a''"
    by (simp add: Retrieve_def resolveWithBackoff_def exampleLookupFor_def finalLookup_def numeral_3_eq_3)
  then show ?thesis using r cache_answers_own_domain [OF gc r, of 7 "''a''" "Some ?l"] by (metis fun_upd_same)
qed

subsection \<open>Refreshing while the API fails\<close>

text \<open>One round of an outage: time passes, a client asks for the domain, and the refresh that the request
  starts ends with the answer \<open>bad\<close>.\<close>

definition outageRound ::
  "'s cache_env \<Rightarrow> string \<Rightarrow> int \<Rightarrow> lookup \<Rightarrow> 's cache_state \<Rightarrow> lookup option \<times> 's cache_state"
where
  "outageRound env d step bad c =
     (case cacheResolve env None bad d (c\<lparr>csNow := csNow c + step\<rparr>) of
        (ans, c1) \<Rightarrow> (ans, (case csScheduled c1 of [] \<Rightarrow> c1 | i # _ \<Rightarrow> refreshFunc env (csNow c1) bad i c1)))"

definition temporaryError :: "environ \<Rightarrow> lookup \<Rightarrow> bool" where
  "temporaryError getenv l \<longleftrightarrow> getenv ''FF_DISABLE_REFRESH_TEMPORARY_ERROR'' \<noteq> ''true''
     \<and> (\<exists>err. lkError l = Some err \<and> \<not> errIs err ErrDomainDoesNotExist)"

text \<open>The store holds an entry made now with the response \<open>l\<close>.\<close>

definition holds :: "'s cache_env \<Rightarrow> string \<Rightarrow> int \<Rightarrow> lookup \<Rightarrow> 's cache_state \<Rightarrow> bool" where
  "holds env d step l c \<longleftrightarrow> csScheduled c = [] \<and> (\<exists>i < csNext c.
     (\<forall>t. csNow c \<le> t \<and> t \<le> csNow c + ceCacheExpiry env \<longrightarrow>
        map_option fst (gcGet (ceStore env) t d (csStore c)) = Some i)
     \<and> enResponse (csHeap c i) = Some l \<and> \<not> enRefresh (csHeap c i) \<and> enCreated (csHeap c i) = csNow c
     \<and> enRefreshedOriginal (csHeap c i) \<in> {None, Some (csNow c - step)} \<and> enDomain (csHeap c i) = d
     \<and> enRefreshTimeout (csHeap c i) = ceEntryRefreshTimeout env
     \<and> enExpirationTimeout (csHeap c i) = ceCacheExpiry env)"

lemma refreshFunc_keeps:
  assumes "gocache_ok (ceStore env)" and "i < csNext c" and "\<not> isExpired (csNow c) (csHeap c i)"
    and "temporaryError (ceGetenv env) bad" and "csScheduled c = [i]"
  defines "c' \<equiv> refreshFunc env (csNow c) bad i c"
  shows "csNow c' = csNow c" "csNext c' = Suc (csNext c)" "csScheduled c' = []"
    "csHeap c' (csNext c) = \<lparr>enDomain = enDomain (csHeap c i), enCreated = csNow c,
       enRefreshedOriginal = Some (enCreated (csHeap c i)), enRetrieve = True, enRefresh = False,
       enRetrieved = True, enResponse = enResponse (csHeap c i),
       enRefreshTimeout = enRefreshTimeout (csHeap c i), enExpirationTimeout = enExpirationTimeout (csHeap c i)\<rparr>"
    "csNow c \<le> t \<and> t \<le> csNow c + ceCacheExpiry env \<Longrightarrow>
       map_option fst (gcGet (ceStore env) t (enDomain (csHeap c i)) (csStore c')) = Some (csNext c)"
proof -
  let ?j = "csNext c"
  define c2 where "c2 = (finishRetrieve ?j bad (refreshStart i c))\<lparr>csNow := csNow c\<rparr>"
  have i: "i \<noteq> ?j" using assms(2) by simp
  have h: "csHeap c2 = (csHeap c)(?j := \<lparr>enDomain = enDomain (csHeap c i), enCreated = csNow c,
       enRefreshedOriginal = None, enRetrieve = True, enRefresh = False, enRetrieved = True, enResponse = Some bad,
       enRefreshTimeout = enRefreshTimeout (csHeap c i), enExpirationTimeout = enExpirationTimeout (csHeap c i)\<rparr>)"
    and f: "csNow c2 = csNow c" "csNext c2 = Suc ?j" "csScheduled c2 = []"
    using assms(5) by (simp_all add: c2_def finishRetrieve_def refreshStart_def allocEntry_def startRetrieve_def
        newCacheEntry_def setResponse_def Let_def)
  have t: "hasTemporaryError (ceGetenv env) (csHeap c2 ?j)"
    using assms(4) by (auto simp: h hasTemporaryError_def temporaryError_def domainExists_def)
  have c': "c' = refreshEnd env i ?j c2" by (simp add: c'_def refreshFunc_def c2_def Let_def)
  have e: "\<not> isExpired (csNow c2) (csHeap c2 i)" using assms(3) i by (simp add: h f)
  show "csNow c' = csNow c" "csNext c' = Suc (csNext c)" "csScheduled c' = []"
    by (simp_all add: c' refreshEnd_def ReplaceOrCreate_def Let_def f)
  show "csHeap c' (csNext c) = \<lparr>enDomain = enDomain (csHeap c i), enCreated = csNow c,
       enRefreshedOriginal = Some (enCreated (csHeap c i)), enRetrieve = True, enRefresh = False,
       enRetrieved = True, enResponse = enResponse (csHeap c i),
       enRefreshTimeout = enRefreshTimeout (csHeap c i), enExpirationTimeout = enExpirationTimeout (csHeap c i)\<rparr>"
    using t e i by (simp add: c' refreshEnd_def ReplaceOrCreate_def Let_def) (simp add: h)
  assume tm: "csNow c \<le> t \<and> t \<le> csNow c + ceCacheExpiry env"
  have live: "gcGet (ceStore env) t k (gcSet (ceStore env) (csNow c) (ceCacheExpiry env) k v s)
      = Some (v, csNow c + ceCacheExpiry env)" for k v s
    by (rule gocache_laws(5) [OF assms(1) tm])
  show "map_option fst (gcGet (ceStore env) t (enDomain (csHeap c i)) (csStore c')) = Some (csNext c)"
    using i by (simp add: c' refreshEnd_def ReplaceOrCreate_def Let_def f live h)
qed

lemma outageRound_holds:
  assumes gc: "gocache_ok (ceStore env)" and st: "0 < step" "2 * step \<le> ceCacheExpiry env" "ceEntryRefreshTimeout env < step"
    and bad: "temporaryError (ceGetenv env) bad" and c: "holds env d step l c"
  shows "fst (outageRound env d step bad c) = Some l \<and> holds env d step l (snd (outageRound env d step bad c))
    \<and> csNow (snd (outageRound env d step bad c)) = csNow c + step"
proof -
  obtain i where i: "i < csNext c" "enResponse (csHeap c i) = Some l" "\<not> enRefresh (csHeap c i)"
    "enCreated (csHeap c i) = csNow c" "enRefreshedOriginal (csHeap c i) \<in> {None, Some (csNow c - step)}"
    "enDomain (csHeap c i) = d" "enRefreshTimeout (csHeap c i) = ceEntryRefreshTimeout env"
    "enExpirationTimeout (csHeap c i) = ceCacheExpiry env"
    and g: "map_option fst (gcGet (ceStore env) (csNow c + step) d (csStore c)) = Some i" and sch: "csScheduled c = []"
    using c st(1,2) unfolding holds_def by (auto dest!: spec [of _ "csNow c + step"])
  let ?c = "c\<lparr>csNow := csNow c + step\<rparr>"
  have "isOutdated (csNow ?c) (csHeap ?c i)" using i(4,5,7) st by (auto simp: isOutdated_def split: option.split)
  then have n: "NeedsRefresh (csNow ?c) (csHeap ?c i)" "\<not> IsUpToDate (csNow ?c) (csHeap ?c i)"
    using i(2) by (simp_all add: NeedsRefresh_def IsUpToDate_def isResolved_def)
  define c1 where "c1 = Refresh i ?c"
  have c1: "csNow c1 = csNow c + step" "csScheduled c1 = [i]" "csNext c1 = csNext c"
    "csHeap c1 i = (csHeap c i)\<lparr>enRefresh := True\<rparr>"
    using i(3) sch by (simp_all add: c1_def Refresh_def)
  have "storeGet env d ?c = Some i" using g by (simp add: storeGet_def)
  then have res: "cacheResolve env None bad d ?c = (Some l, c1)"
    using n i(2) c1(4) by (simp add: cacheResolve_def LoadOrCreate_def Let_def) (simp add: c1_def)
  have "\<not> isExpired (csNow c1) (csHeap c1 i)"
    using i(4,5,8) st by (auto simp: c1 isExpired_def split: option.split)
  note keep = refreshFunc_keeps [OF gc _ this bad c1(2)]
  have run: "outageRound env d step bad c = (Some l, refreshFunc env (csNow c1) bad i c1)"
    by (simp add: outageRound_def res c1(2))
  have "holds env d step l (refreshFunc env (csNow c1) bad i c1)"
    unfolding holds_def using keep i c1 by (intro conjI exI [of _ "csNext c"]) auto
  then show ?thesis using keep(1) i(1) c1 by (simp add: run)
qed

text \<open>
  C32: the time a lookup outlives its expiry is not bounded by \<open>expirationTimeout\<close>: while the API keeps
  failing with a temporary error and the domain is requested at intervals longer than the refresh
  timeout and at most half the expiry, every request, after any number of rounds, is still answered with
  the lookup retrieved before the outage, because a refreshed entry that keeps the old response counts its
  age from the entry before it.
\<close>

theorem outage_serves_stale:
  assumes "gocache_ok (ceStore env)" and "0 < step" and "2 * step \<le> ceCacheExpiry env"
    and "ceEntryRefreshTimeout env < step" and "temporaryError (ceGetenv env) bad" and "holds env d step l c"
    and "c' = ((\<lambda>c. snd (outageRound env d step bad c)) ^^ n) c"
  shows "csNow c' = csNow c + int n * step \<and> fst (outageRound env d step bad c') = Some l"
proof -
  have "holds env d step l c' \<and> csNow c' = csNow c + int n * step"
    unfolding assms(7)
    by (induction n) (use assms(6) outageRound_holds [OF assms(1-5)] in \<open>auto simp: algebra_simps\<close>)
  then show ?thesis using outageRound_holds [OF assms(1-5)] by blast
qed

definition exampleGood :: lookup where
  "exampleGood = \<lparr>lkName = ''a'', lkError = None,
     lkDomain = Some \<lparr>vdCertificate = [], vdKey = [], vdLookupPaths = []\<rparr>\<rparr>"

definition exampleDown :: lookup where
  "exampleDown = \<lparr>lkName = ''a'', lkError = Some (errHTTPStatus 502), lkDomain = None\<rparr>"

theorem outage_serves_stale_witness:
  "\<exists>c. csNow c = 1000 + 50 * 100
    \<and> fst (outageRound exampleCacheEnv ''a'' 100 exampleDown c) = Some exampleGood"
proof -
  define c where "c = snd (cacheResolve exampleCacheEnv None exampleGood ''a'' exampleCache)"
  have n: "csNow c = 1000" "csNext c = 1" "csScheduled c = []" "csStore c = [''a'' \<mapsto> (0, 1600)]"
    "csHeap c 0 = \<lparr>enDomain = ''a'', enCreated = 1000, enRefreshedOriginal = None, enRetrieve = True, enRefresh = False,
       enRetrieved = True, enResponse = Some exampleGood, enRefreshTimeout = 60, enExpirationTimeout = 600\<rparr>"
    by (simp_all add: c_def cacheResolve_def LoadOrCreate_def createLocked_def storeGet_def allocEntry_def
        exampleCache_def exampleCacheEnv_def mapGocache_def newCacheEntry_def IsUpToDate_def NeedsRefresh_def
        isResolved_def cacheRetrieve_def startRetrieve_def finishRetrieve_def setResponse_def Let_def)
  have "holds exampleCacheEnv ''a'' 100 exampleGood c"
    unfolding holds_def by (intro conjI exI [of _ 0]) (simp_all add: n exampleCacheEnv_def mapGocache_def)
  moreover have "gocache_ok (ceStore exampleCacheEnv)" by (simp add: exampleCacheEnv_def mapGocache_ok)
  moreover have "temporaryError (ceGetenv exampleCacheEnv) exampleDown"
    by (simp add: temporaryError_def exampleCacheEnv_def exampleDown_def)
  ultimately show ?thesis
    using outage_serves_stale [of exampleCacheEnv 100 exampleDown "''a''" exampleGood c _ 50, OF _ _ _ _ _ _ refl] n(1)
    by (auto simp: exampleCacheEnv_def)
qed

end
