(* ===== verification/Gitlab_Source.thy ===== *)
theory Gitlab_Source
  imports Domain Domain_Cache
begin

text \<open>
  The source of domains, \<open>internal/source/gitlab\<close>: it asks an \<open>api.Resolver\<close> for the lookup of a host
  and picks the lookup path for the request.  The resolver is an argument; the program has two, the API
  client and the cache around it, and both are shown to meet the contract \<open>api_resolver\<close>.  A nil
  dereference is the outcome \<open>Panics\<close>.  \<open>Resolve\<close> sorts the slice of lookup paths in place; sorting a
  sorted slice again changes nothing, so the state of the resolver is not updated by it.
\<close>

subsection \<open>factory.go\<close>

definition fabricateLookupPath :: "nat \<Rightarrow> api_lookup_path \<Rightarrow> lookup_path" where
  "fabricateLookupPath sz lookup =
     \<lparr>lpServingType = asType (alSource lookup), lpPrefix = alPrefix lookup, lpPath = asPath (alSource lookup),
      lpSHA256 = asSHA256 (alSource lookup), lpIsNamespaceProject = (alPrefix lookup = ''/'' \<and> sz > 1),
      lpIsHTTPSOnly = alHTTPSOnly lookup, lpHasAccessControl = alAccessControl lookup,
      lpProjectID = nat (alProjectID lookup mod 2 ^ 64)\<rparr>"

definition checkDiskAllowed :: "bool \<Rightarrow> api_source \<Rightarrow> goerr option" where
  "checkDiskAllowed enableDisk source =
     (if \<not> enableDisk \<and> (asType source = ''file'' \<or> HasPrefix (asPath source) ''file://'')
      then Some ErrDiskDisabled else None)"

definition fabricateServing :: "bool \<Rightarrow> api_lookup_path \<Rightarrow> serving_kind res" where
  "fabricateServing enableDisk lookup =
     (case checkDiskAllowed enableDisk (alSource lookup) of
        Some err \<Rightarrow> Inl err
      | None \<Rightarrow>
          if asType (alSource lookup) = ''file'' then Inr localInstance
          else if asType (alSource lookup) = ''zip'' then Inr zipInstance
          else Inl (errUnknownServing (asType (alSource lookup))))"

subsection \<open>gitlab.go\<close>

datatype 'a outcome = Returns 'a | Panics

type_synonym 's lookups = "string \<Rightarrow> 's \<Rightarrow> lookup \<times> 's"

definition sortLookupsByPrefixLengthDesc :: "api_lookup_path list \<Rightarrow> api_lookup_path list" where
  "sortLookupsByPrefixLengthDesc lookups = sort_key (\<lambda>l. - int (length (alPrefix l))) lookups"

definition isSubPath :: "string \<Rightarrow> api_lookup_path \<Rightarrow> bool" where
  "isSubPath urlPath lookup \<longleftrightarrow> HasPrefix urlPath (alPrefix lookup)"

definition isRootPath :: "string \<Rightarrow> api_lookup_path \<Rightarrow> bool" where
  "isRootPath urlPath lookup \<longleftrightarrow> urlPath = Clean (alPrefix lookup)"

fun resolveLoop :: "bool \<Rightarrow> string \<Rightarrow> nat \<Rightarrow> api_lookup_path list \<Rightarrow> serving_request res" where
  "resolveLoop enableDisk urlPath sz [] = Inl ErrDomainDoesNotExist"
| "resolveLoop enableDisk urlPath sz (lookup # lookups) =
     (if isSubPath urlPath lookup \<or> isRootPath urlPath lookup then
        (let subPath = (if isSubPath urlPath lookup then TrimPrefix urlPath (alPrefix lookup) else [])
         in case fabricateServing enableDisk lookup of
              Inl err \<Rightarrow> Inl err
            | Inr srv \<Rightarrow>
                Inr \<lparr>srServing = srv, srLookupPath = fabricateLookupPath sz lookup, srSubPath = subPath\<rparr>)
      else resolveLoop enableDisk urlPath sz lookups)"

definition gitlabResolve :: "'s lookups \<Rightarrow> bool \<Rightarrow> request \<Rightarrow> 's \<Rightarrow> serving_request res outcome \<times> 's" where
  "gitlabResolve client enableDisk r s =
     (case client (GetHostWithoutPort r) s of
        (response, s') \<Rightarrow>
          (case lkError response of
             Some err \<Rightarrow> (Returns (Inl err), s')
           | None \<Rightarrow>
               (case lkDomain response of
                  None \<Rightarrow> (Panics, s')
                | Some d \<Rightarrow>
                    (Returns (resolveLoop enableDisk (Clean (uPath (rqURL r))) (length (vdLookupPaths d))
                       (sortLookupsByPrefixLengthDesc (vdLookupPaths d))), s'))))"

text \<open>As the resolver of a domain; \<open>api_resolver\<close> below shows when the panic does not occur.\<close>

definition gitlabResolver :: "'s lookups \<Rightarrow> bool \<Rightarrow> 's resolver" where
  "gitlabResolver client enableDisk r s =
     (case gitlabResolve client enableDisk r s of
        (Returns x, s') \<Rightarrow> (x, s')
      | (Panics, s') \<Rightarrow> (Inl (otherErr ''panic''), s'))"

definition GetDomain :: "'s lookups \<Rightarrow> bool \<Rightarrow> string \<Rightarrow> 's \<Rightarrow> 's domain res outcome \<times> 's" where
  "GetDomain client enableDisk name s =
     (case client name s of
        (lookup, s') \<Rightarrow>
          (case lkError lookup of
             Some err \<Rightarrow> (Returns (Inl err), s')
           | None \<Rightarrow>
               (case lkDomain lookup of
                  None \<Rightarrow> (Panics, s')
                | Some d \<Rightarrow>
                    (Returns (Inr (newDomain name (vdCertificate d) (vdKey d) (gitlabResolver client enableDisk))), s'))))"

subsection \<open>The lookup path of a request\<close>

definition lookupMatches :: "string \<Rightarrow> api_lookup_path \<Rightarrow> bool" where
  "lookupMatches urlPath l \<longleftrightarrow> isSubPath urlPath l \<or> isRootPath urlPath l"

lemma resolveLoop_first:
  assumes "resolveLoop ed u sz ls = Inr req"
  shows "\<exists>as l bs. ls = as @ l # bs \<and> (\<forall>a \<in> set as. \<not> lookupMatches u a) \<and> lookupMatches u l
    \<and> srLookupPath req = fabricateLookupPath sz l \<and> fabricateServing ed l = Inr (srServing req)
    \<and> srSubPath req = (if isSubPath u l then TrimPrefix u (alPrefix l) else [])"
  using assms
proof (induction ls)
  case (Cons l ls)
  show ?case
  proof (cases "lookupMatches u l")
    case True
    then show ?thesis using Cons.prems
      by (intro exI [of _ "[]"] exI [of _ l] exI [of _ ls])
        (auto simp: lookupMatches_def Let_def split: sum.splits)
  next
    case False
    then obtain as l' bs where "ls = as @ l' # bs \<and> (\<forall>a \<in> set as. \<not> lookupMatches u a) \<and> lookupMatches u l'
      \<and> srLookupPath req = fabricateLookupPath sz l' \<and> fabricateServing ed l' = Inr (srServing req)
      \<and> srSubPath req = (if isSubPath u l' then TrimPrefix u (alPrefix l') else [])"
      using Cons by (auto simp: lookupMatches_def)
    with False show ?thesis by (intro exI [of _ "l # as"] exI [of _ l'] exI [of _ bs]) auto
  qed
qed simp

lemma sort_first_longest:
  assumes "sortLookupsByPrefixLengthDesc ls = as @ l # bs" and "l' \<in> set (l # bs)"
  shows "length (alPrefix l') \<le> length (alPrefix l)"
proof -
  let ?k = "\<lambda>l. - int (length (alPrefix l))"
  have "sorted (map ?k (as @ l # bs))"
    unfolding assms(1) [symmetric] sortLookupsByPrefixLengthDesc_def by (rule sorted_sort_key)
  then show ?thesis using assms(2) by (auto simp: sorted_append)
qed

lemma gitlabResolve_found:
  assumes "gitlabResolve client ed r s = (Returns (Inr req), s')"
  shows "\<exists>d l. lkDomain (fst (client (GetHostWithoutPort r) s)) = Some d \<and> l \<in> set (vdLookupPaths d)
    \<and> lookupMatches (Clean (uPath (rqURL r))) l
    \<and> (\<forall>l' \<in> set (vdLookupPaths d). lookupMatches (Clean (uPath (rqURL r))) l' \<longrightarrow>
         length (alPrefix l') \<le> length (alPrefix l))
    \<and> srLookupPath req = fabricateLookupPath (length (vdLookupPaths d)) l
    \<and> fabricateServing ed l = Inr (srServing req)
    \<and> srSubPath req = (if isSubPath (Clean (uPath (rqURL r))) l
                       then TrimPrefix (Clean (uPath (rqURL r))) (alPrefix l) else [])"
proof -
  let ?u = "Clean (uPath (rqURL r))"
  obtain d where d: "lkDomain (fst (client (GetHostWithoutPort r) s)) = Some d"
    and "resolveLoop ed ?u (length (vdLookupPaths d)) (sortLookupsByPrefixLengthDesc (vdLookupPaths d)) = Inr req"
    using assms by (auto simp: gitlabResolve_def split: prod.splits option.splits)
  from resolveLoop_first [OF this(2)] obtain as l bs
    where l: "sortLookupsByPrefixLengthDesc (vdLookupPaths d) = as @ l # bs" "\<forall>a \<in> set as. \<not> lookupMatches ?u a"
      "lookupMatches ?u l" and rest: "srLookupPath req = fabricateLookupPath (length (vdLookupPaths d)) l"
      "fabricateServing ed l = Inr (srServing req)"
      "srSubPath req = (if isSubPath ?u l then TrimPrefix ?u (alPrefix l) else [])" by blast
  have set: "set (vdLookupPaths d) = set (as @ l # bs)"
    unfolding l(1) [symmetric] by (simp add: sortLookupsByPrefixLengthDesc_def)
  have "\<forall>l' \<in> set (vdLookupPaths d). lookupMatches ?u l' \<longrightarrow> length (alPrefix l') \<le> length (alPrefix l)"
    using sort_first_longest [OF l(1)] l(2) unfolding set by auto
  moreover have "l \<in> set (vdLookupPaths d)" unfolding set by simp
  ultimately show ?thesis using d l(3) rest by blast
qed

text \<open>
  C8: the project that answers a request is, among the lookup paths of the host whose prefix the cleaned
  request path is below or equal to, one with the longest prefix, whatever the order in which the API
  lists them, and the served lookup path is made from it.
\<close>

theorem gitlabResolve_longest_prefix:
  assumes "gitlabResolve client ed r s = (Returns (Inr req), s')"
  shows "\<exists>d l. lkDomain (fst (client (GetHostWithoutPort r) s)) = Some d \<and> l \<in> set (vdLookupPaths d)
    \<and> lookupMatches (Clean (uPath (rqURL r))) l
    \<and> (\<forall>l' \<in> set (vdLookupPaths d). lookupMatches (Clean (uPath (rqURL r))) l' \<longrightarrow>
         length (alPrefix l') \<le> length (alPrefix l))
    \<and> srLookupPath req = fabricateLookupPath (length (vdLookupPaths d)) l"
  using gitlabResolve_found [OF assms] by blast

definition exampleProject :: "string \<Rightarrow> string \<Rightarrow> bool \<Rightarrow> api_lookup_path" where
  "exampleProject pre path private =
     \<lparr>alProjectID = 7, alAccessControl = private, alHTTPSOnly = False, alPrefix = pre,
      alSource = \<lparr>asType = ''zip'', asPath = path, asSHA256 = ''abc'', asCount = 1, asSize = 1\<rparr>\<rparr>"

definition exampleDomain :: virtual_domain where
  "exampleDomain = \<lparr>vdCertificate = [], vdKey = [],
     vdLookupPaths = [exampleProject ''/'' ''https://store/ns.zip'' False, exampleProject ''/secret/'' ''https://store/s.zip'' True]\<rparr>"

definition exampleLookups :: "unit lookups" where
  "exampleLookups host s = (\<lparr>lkName = host, lkError = None, lkDomain = Some exampleDomain\<rparr>, s)"

definition exampleServing :: serving_request where
  "exampleServing = \<lparr>srServing = zipInstance,
     srLookupPath = fabricateLookupPath 2 (exampleProject ''/secret/'' ''https://store/s.zip'' True), srSubPath = ''x.html''\<rparr>"

lemma exampleResolve:
  "gitlabResolve exampleLookups False (exampleGet ''ns.example'' ''/secret/a/../x.html'') () = (Returns (Inr exampleServing), ())"
proof -
  have "Clean ''/secret/a/../x.html'' = ''/secret/x.html''"
    "GetHostWithoutPort (exampleGet ''ns.example'' ''/secret/a/../x.html'') = ''ns.example''" by code_simp+
  moreover have "sortLookupsByPrefixLengthDesc (vdLookupPaths exampleDomain)
      = [exampleProject ''/secret/'' ''https://store/s.zip'' True, exampleProject ''/'' ''https://store/ns.zip'' False]"
    by (simp add: sortLookupsByPrefixLengthDesc_def exampleDomain_def exampleProject_def)
  moreover have "length (vdLookupPaths exampleDomain) = 2" by (simp add: exampleDomain_def)
  moreover have "HasPrefix ''/secret/x.html'' ''/secret/''" "TrimPrefix ''/secret/x.html'' ''/secret/'' = ''x.html''" by code_simp+
  ultimately show ?thesis
    by (simp add: gitlabResolve_def exampleLookups_def exampleGet_def isSubPath_def exampleServing_def
        fabricateServing_def checkDiskAllowed_def exampleProject_def HasPrefix_def)
qed

theorem gitlabResolve_longest_prefix_witness:
  "\<exists>l. l \<in> set (vdLookupPaths exampleDomain) \<and> srLookupPath exampleServing = fabricateLookupPath 2 l
    \<and> length (alPrefix (exampleProject ''/secret/'' ''https://store/s.zip'' True)) \<le> length (alPrefix l)"
proof -
  have "Clean ''/secret/a/../x.html'' = ''/secret/x.html''" by code_simp
  then have m: "lookupMatches (Clean (uPath (rqURL (exampleGet ''ns.example'' ''/secret/a/../x.html''))))
      (exampleProject ''/secret/'' ''https://store/s.zip'' True)"
    by (simp add: lookupMatches_def isSubPath_def exampleGet_def exampleProject_def HasPrefix_def)
  obtain d l where d: "lkDomain (fst (exampleLookups (GetHostWithoutPort (exampleGet ''ns.example'' ''/secret/a/../x.html'')) ())) = Some d"
    and l: "l \<in> set (vdLookupPaths d)" "srLookupPath exampleServing = fabricateLookupPath (length (vdLookupPaths d)) l"
    and max: "\<forall>l' \<in> set (vdLookupPaths d).
      lookupMatches (Clean (uPath (rqURL (exampleGet ''ns.example'' ''/secret/a/../x.html'')))) l' \<longrightarrow>
      length (alPrefix l') \<le> length (alPrefix l)"
    using gitlabResolve_longest_prefix [OF exampleResolve] by blast
  have "d = exampleDomain" using d by (simp add: exampleLookups_def)
  moreover have "exampleProject ''/secret/'' ''https://store/s.zip'' True \<in> set (vdLookupPaths exampleDomain)"
    "length (vdLookupPaths exampleDomain) = 2" by (simp_all add: exampleDomain_def)
  ultimately show ?thesis using l max m by metis
qed



lemma Split_Clean_rooted:
  assumes "isRooted p"
  shows "Split slash (Clean p) = [] # (if cleanRoot p = [] then [[]] else cleanRoot p)"
proof -
  have "\<forall>c \<in> set (cleanRoot p). slash \<notin> set c" using cleanRoot_plain [of p] by (auto simp: plainComp_def)
  then show ?thesis using Split_Join [of "cleanRoot p" slash] by (simp add: Clean_rooted [OF assms])
qed

lemma Clean_below_plain:
  assumes "isRooted p" and "Clean p = q @ slash # sub" and "c \<in> set (Split slash sub)" and "sub \<noteq> []"
  shows "plainComp c"
proof -
  have sp: "Split slash q @ Split slash sub = [] # (if cleanRoot p = [] then [[]] else cleanRoot p)"
    using Split_Clean_rooted [OF assms(1)] by (simp add: assms(2) Split_append)
  obtain a as where a: "Split slash q = a # as" by (cases "Split slash q") simp_all
  have tl: "as @ Split slash sub = (if cleanRoot p = [] then [[]] else cleanRoot p)" using sp a by simp
  show ?thesis
  proof (cases "cleanRoot p = []")
    case True
    then have "Split slash sub = [[]]" using tl by (cases as) (auto simp: Cons_eq_append_conv)
    then have "Join (Split slash sub) [slash] = []" by simp
    then show ?thesis using assms(4) by simp
  next
    case False
    then have "c \<in> set (cleanRoot p)" using tl assms(3) by (metis Un_iff set_append)
    then show ?thesis using cleanRoot_plain by blast
  qed
qed

text \<open>
  C22: the path looked up inside a project never leaves it: when the API's prefixes end in a slash, the
  sub-path of a resolved request is empty or made of components that are neither empty nor dots, and
  prefix and sub-path together are the cleaned request path.
\<close>

theorem gitlabResolve_subpath_plain:
  assumes "gitlabResolve client ed r s = (Returns (Inr req), s')" and "isRooted (uPath (rqURL r))"
    and "HasSuffix (lpPrefix (srLookupPath req)) ''/''" and "srSubPath req \<noteq> []"
  shows "(\<forall>c \<in> set (Split slash (srSubPath req)). plainComp c)
    \<and> lpPrefix (srLookupPath req) @ srSubPath req = Clean (uPath (rqURL r))"
proof -
  let ?u = "Clean (uPath (rqURL r))"
  obtain l where l: "lpPrefix (srLookupPath req) = alPrefix l"
    "srSubPath req = (if isSubPath ?u l then TrimPrefix ?u (alPrefix l) else [])"
    using gitlabResolve_found [OF assms(1)] by (auto simp: fabricateLookupPath_def)
  then have p: "HasPrefix ?u (alPrefix l)" "srSubPath req = TrimPrefix ?u (alPrefix l)"
    using assms(4) by (auto simp: isSubPath_def split: if_splits)
  have u: "alPrefix l @ srSubPath req = ?u" using append_TrimPrefix [OF p(1)] p(2) by simp
  obtain q where q: "alPrefix l = q @ [slash]"
    using assms(3) l(1) by (auto simp: HasSuffix_iff_suffix suffix_def)
  then have "?u = q @ slash # srSubPath req" using u by simp
  then show ?thesis using Clean_below_plain [OF assms(2)] assms(4) u l(1) by metis
qed

theorem gitlabResolve_subpath_plain_witness:
  "lpPrefix (srLookupPath exampleServing) @ srSubPath exampleServing = ''/secret/x.html''"
proof -
  have "Clean (uPath (rqURL (exampleGet ''ns.example'' ''/secret/a/../x.html''))) = ''/secret/x.html''"
    "isRooted (uPath (rqURL (exampleGet ''ns.example'' ''/secret/a/../x.html'')))" by code_simp+
  moreover have "HasSuffix (lpPrefix (srLookupPath exampleServing)) ''/''" "srSubPath exampleServing \<noteq> []" by code_simp+
  ultimately show ?thesis using gitlabResolve_subpath_plain [OF exampleResolve] by metis
qed

subsection \<open>The contract of api.Resolver\<close>

text \<open>What the source relies on: a lookup without an error comes with a domain.  \<open>ok\<close> is the invariant of
  the resolver's state.\<close>

definition completeLookup :: "lookup \<Rightarrow> bool" where
  "completeLookup l \<longleftrightarrow> (lkError l = None \<longrightarrow> lkDomain l \<noteq> None)"

locale api_resolver =
  fixes client :: "'s lookups" and ok :: "'s \<Rightarrow> bool"
  assumes keeps: "ok s \<Longrightarrow> ok (snd (client host s))"
    and complete: "ok s \<Longrightarrow> completeLookup (fst (client host s))"
begin

lemma resolve_returns: "ok s \<Longrightarrow> \<exists>x s'. gitlabResolve client ed r s = (Returns x, s') \<and> ok s'"
  using keeps [of s "GetHostWithoutPort r"] complete [of s "GetHostWithoutPort r"]
  by (auto simp: gitlabResolve_def completeLookup_def split: prod.split option.split)

lemma domain_returns: "ok s \<Longrightarrow> \<exists>x s'. GetDomain client ed name s = (Returns x, s') \<and> ok s'"
  using keeps [of s name] complete [of s name]
  by (auto simp: GetDomain_def completeLookup_def split: prod.split option.split)

end

text \<open>The API client, with its state the client itself: it never reads a \<open>null\<close>.\<close>

definition clientLookups :: "gotime \<Rightarrow> gitlab_client lookups" where
  "clientLookups now host gc = (clientResolve gc now host, gc)"

definition noNull :: "gitlab_client \<Rightarrow> bool" where
  "noNull gc \<longleftrightarrow> (\<forall>b. glDecode gc b \<noteq> Inr None)"

lemma GetLookup_complete:
  assumes "noNull gc"
  shows "completeLookup (GetLookup gc now host)"
proof -
  have "x \<noteq> None" if "glDecode gc b = Inr x" for b x using assms that unfolding noNull_def by metis
  then show ?thesis
    unfolding GetLookup_def completeLookup_def by (auto split: sum.split option.split)
qed

interpretation direct: api_resolver "clientLookups now" noNull for now
  by unfold_locales (simp_all add: clientLookups_def clientResolve_def GetLookup_complete)

interpretation direct_stable: stable_resolver "gitlabResolver (clientLookups now) ed" for now ed
  by unfold_locales (auto simp: sameAnswers_def gitlabResolver_def gitlabResolve_def clientLookups_def
      split: option.split)

text \<open>The cache, over the answers of an API client at the times of the attempts.\<close>

definition cachedLookups ::
  "'s cache_env \<Rightarrow> (gotime \<Rightarrow> string \<Rightarrow> lookup) \<Rightarrow> nat \<Rightarrow> (nat \<Rightarrow> gotime) \<Rightarrow> bool \<Rightarrow> goerr option
    \<Rightarrow> 's cache_state lookups"
where
  "cachedLookups env api retries ts timedOut ctxDone d c =
     (case cacheResolve env ctxDone (Retrieve (\<lambda>n. api (ts n)) retries timedOut d) d c of
        (Some l, c') \<Rightarrow> (l, c')
      | (None, c') \<Rightarrow> (zeroLookup, c'))"

definition cachedOk ::
  "'s cache_env \<Rightarrow> (gotime \<Rightarrow> string \<Rightarrow> lookup) \<Rightarrow> nat \<Rightarrow> 's cache_state \<Rightarrow> bool"
where
  "cachedOk env api retries c \<longleftrightarrow> gocache_ok (ceStore env) \<and> 0 < retries \<and> (\<forall>t d. completeLookup (api t d))
     \<and> cache_ok env api retries c"

lemma answerFor_complete:
  assumes "0 < retries" and "\<forall>t d. completeLookup (api t d)" and "answerFor api retries d l"
  shows "completeLookup l"
proof -
  obtain ts timedOut where l: "l = Retrieve (\<lambda>n. api (ts n)) retries timedOut d"
    using assms(3) by (auto simp: answerFor_def)
  obtain k where "resolveWithBackoff (\<lambda>n. api (ts n)) retries d = api (ts k) d"
    using backoffLoop_attempt [OF assms(1), of 1 "\<lambda>n. api (ts n)" d zeroLookup]
    by (auto simp: resolveWithBackoff_def)
  then show ?thesis using assms(2) l by (auto simp: Retrieve_def completeLookup_def)
qed

lemma LoadOrCreate_ok:
  assumes "gocache_ok (ceStore env)" and "cache_ok env api retries c" and "LoadOrCreate env d c = (i, c')"
  shows "cache_ok env api retries c' \<and> i < csNext c' \<and> enDomain (csHeap c' i) = d"
  using assms storeGet_ok [OF assms(2)] createLocked_ok [OF assms(1,2)]
  by (auto simp: LoadOrCreate_def split: option.splits)

lemma cacheRetrieve_ok:
  assumes "cache_ok env api retries c" and "i < csNext c" and "answerFor api retries (enDomain (csHeap c i)) l"
  shows "cache_ok env api retries (snd (cacheRetrieve ctxDone l i c))
    \<and> (\<exists>x. fst (cacheRetrieve ctxDone l i c) = Some x
         \<and> (answerFor api retries (enDomain (csHeap c i)) x \<or> (\<exists>d err. x = contextDone d err)))"
proof -
  let ?c1 = "startRetrieve i c"
  have c1: "cache_ok env api retries ?c1" "enRetrieve (csHeap ?c1 i)" "i < csNext ?c1"
    "enDomain (csHeap ?c1 i) = enDomain (csHeap c i)"
    using startRetrieve_ok [OF assms(1,2)] assms(2) by (auto simp: forward_def)
  then have e: "entry_ok api retries (i \<in> set (csRetrieving ?c1)) (csHeap ?c1 i)"
    using entries_okD unfolding cache_ok_def by blast
  show ?thesis
  proof (cases ctxDone)
    case (Some err)
    then show ?thesis using c1 by (auto simp: cacheRetrieve_def Let_def)
  next
    case None
    show ?thesis
    proof (cases "i \<in> set (csRetrieving ?c1)")
      case True
      have "enResponse (csHeap (finishRetrieve i l ?c1) i) = Some l" by (simp add: finishRetrieve_def setResponse_def)
      then show ?thesis using None True finishRetrieve_ok [OF c1(1) True] assms(3) c1(4)
        by (simp add: cacheRetrieve_def Let_def)
    next
      case False
      then have "enResponse (csHeap ?c1 i) \<noteq> None" using e c1(2) by (auto simp: entry_ok_def)
      then show ?thesis using None False e c1 by (auto simp: cacheRetrieve_def Let_def entry_ok_def)
    qed
  qed
qed

lemma cacheResolve_ok:
  assumes "gocache_ok (ceStore env)" and "cache_ok env api retries c" and "answerFor api retries d l"
  shows "cache_ok env api retries (snd (cacheResolve env ctxDone l d c))
    \<and> (\<exists>x. fst (cacheResolve env ctxDone l d c) = Some x
         \<and> (answerFor api retries d x \<or> (\<exists>d err. x = contextDone d err)))"
proof -
  obtain i c1 where lc: "LoadOrCreate env d c = (i, c1)" by fastforce
  have c1: "cache_ok env api retries c1" "i < csNext c1" "enDomain (csHeap c1 i) = d"
    using LoadOrCreate_ok [OF assms(1,2) lc] by auto
  have e: "entry_ok api retries (i \<in> set (csRetrieving c1)) (csHeap c1 i)"
    using c1 entries_okD unfolding cache_ok_def by blast
  consider "IsUpToDate (csNow c1) (csHeap c1 i)" | "\<not> IsUpToDate (csNow c1) (csHeap c1 i)" "NeedsRefresh (csNow c1) (csHeap c1 i)"
    | "\<not> IsUpToDate (csNow c1) (csHeap c1 i)" "\<not> NeedsRefresh (csNow c1) (csHeap c1 i)" by blast
  then show ?thesis
  proof cases
    case 1
    then show ?thesis using lc c1 e by (auto simp: cacheResolve_def IsUpToDate_def isResolved_def entry_ok_def)
  next
    case 2
    then have "enResponse (csHeap c1 i) \<noteq> None" by (simp add: NeedsRefresh_def isResolved_def)
    then show ?thesis using lc c1 e 2 Refresh_ok [OF c1(1,2)]
      by (auto simp: cacheResolve_def Let_def entry_ok_def)
  next
    case 3
    then show ?thesis using lc c1 cacheRetrieve_ok [OF c1(1,2), of l ctxDone] assms(3)
      by (simp add: cacheResolve_def)
  qed
qed

interpretation cached: api_resolver "cachedLookups env api retries ts timedOut ctxDone" "cachedOk env api retries"
  for env api retries ts timedOut ctxDone
proof unfold_locales
  fix s :: "'a cache_state" and host
  assume ok: "cachedOk env api retries s"
  let ?l = "Retrieve (\<lambda>n. api (ts n)) retries timedOut host"
  have a: "answerFor api retries host ?l" by (auto simp: answerFor_def)
  have c: "cache_ok env api retries (snd (cacheResolve env ctxDone ?l host s))"
    "\<exists>x. fst (cacheResolve env ctxDone ?l host s) = Some x
      \<and> (answerFor api retries host x \<or> (\<exists>d err. x = contextDone d err))"
    using cacheResolve_ok [OF _ _ a] ok unfolding cachedOk_def by blast+
  show "cachedOk env api retries (snd (cachedLookups env api retries ts timedOut ctxDone host s))"
    using c ok by (auto simp: cachedLookups_def cachedOk_def split: prod.split option.split)
  show "completeLookup (fst (cachedLookups env api retries ts timedOut ctxDone host s))"
    using c(2) ok answerFor_complete [of retries api host]
    by (auto simp: cachedLookups_def cachedOk_def contextDone_def completeLookup_def split: prod.split)
qed


lemma exampleCache_ok: "cache_ok exampleCacheEnv api retries exampleCache"
  by (simp add: cache_ok_def store_ok_def entries_ok_def refresh_ok_def exampleCacheEnv_def exampleCache_def mapGocache_def)



end
