(* ===== verification/Auth.thy ===== *)
theory Auth
  imports Auth_Code Gitlab_Source
begin

text \<open>
  Authentication with GitLab, \<open>internal/auth/auth.go\<close> and \<open>middleware.go\<close>.  The session store
  (\<open>gorilla/sessions\<close>) is a parameter: \<open>auGet\<close> reads the session of a request, with an error when its
  cookie cannot be decoded, \<open>auSave\<close> sets the cookie on the response.  The code only stores strings in a
  session, so its values are a map of strings.  After changing a session the code always ends the request,
  so a changed session is never read again in the same request.  JSON decoding, the network, random values
  and the clock are parameters.  A nil \<open>Auth\<close> is \<open>None\<close>.  Logging and error tracking are left out.
\<close>

subsection \<open>Sessions and configuration\<close>

record session =
  sValues :: "string \<rightharpoonup> string"
  sPath :: string
  sHttpOnly :: bool
  sSecure :: bool
  sMaxAge :: int

record auth =
  auPagesDomain :: string
  auClientID :: string
  auClientSecret :: string
  auRedirectURI :: string
  auInternalGitlabServer :: string
  auPublicGitlabServer :: string
  auScope :: string
  auKeys :: code_keys
  auDo :: http_do
  auGet :: "request \<Rightarrow> session \<times> goerr option"
  auSave :: "session \<Rightarrow> request \<Rightarrow> response \<Rightarrow> goerr option \<times> response"

text \<open>What a handler of one request gets from outside: the clock, a random state and a random nonce, the
  cryptography, the readers of the two JSON replies (the access token, the error name).\<close>

record auth_env =
  aeNow :: int
  aeState :: string
  aeNonce :: string
  aeCrypto :: crypto
  aeToken :: "string \<Rightarrow> string res"
  aeErrorName :: "string \<Rightarrow> string res"

definition authSessionMaxAge :: int where "authSessionMaxAge = 600"

definition callbackPath :: string where "callbackPath = ''/auth''"

definition apiURLUser :: "string \<Rightarrow> string" where
  "apiURLUser server = server @ ''/api/v4/user''"

definition apiURLProject :: "string \<Rightarrow> nat \<Rightarrow> string" where
  "apiURLProject server projectID = server @ ''/api/v4/projects/'' @ decimal projectID @ ''/pages_access''"

definition authorizeURL :: "string \<Rightarrow> string \<Rightarrow> string \<Rightarrow> string \<Rightarrow> string \<Rightarrow> string" where
  "authorizeURL server clientID redirectURI state scope =
     server @ ''/oauth/authorize?client_id='' @ clientID @ ''&redirect_uri='' @ redirectURI
     @ ''&response_type=code&state='' @ state @ ''&scope='' @ scope"

definition tokenURL :: "string \<Rightarrow> string" where
  "tokenURL server = server @ ''/oauth/token''"

definition authorizeProxyURL :: "string \<Rightarrow> string \<Rightarrow> string \<Rightarrow> string" where
  "authorizeProxyURL redirectURI d state = redirectURI @ ''?domain='' @ d @ ''&state='' @ state"

text \<open>\<open>New\<close> derives three keys and trims the server addresses.\<close>

definition newAuth ::
  "crypto \<Rightarrow> http_do \<Rightarrow> (string \<Rightarrow> string \<Rightarrow> request \<Rightarrow> session \<times> goerr option)
    \<Rightarrow> (string \<Rightarrow> string \<Rightarrow> session \<Rightarrow> request \<Rightarrow> response \<Rightarrow> goerr option \<times> response)
    \<Rightarrow> string \<Rightarrow> string \<Rightarrow> string \<Rightarrow> string \<Rightarrow> string \<Rightarrow> string \<Rightarrow> string \<Rightarrow> string \<Rightarrow> auth res"
where
  "newAuth cr http cookieGet cookieSave pagesDomain storeSecret clientID clientSecret redirectURI
     internalGitlabServer publicGitlabServer authScope =
     (case generateKeys cr storeSecret 3 of
        Inl err \<Rightarrow> Inl err
      | Inr keys \<Rightarrow>
          Inr \<lparr>auPagesDomain = pagesDomain, auClientID = clientID, auClientSecret = clientSecret,
               auRedirectURI = redirectURI, auInternalGitlabServer = TrimRight internalGitlabServer slash,
               auPublicGitlabServer = TrimRight publicGitlabServer slash, auScope = authScope,
               auKeys = \<lparr>ckAuthSecret = storeSecret, ckJwtSigningKey = keys ! 2, ckJwtExpiry = 60\<rparr>,
               auDo = http, auGet = cookieGet (keys ! 0) (keys ! 1), auSave = cookieSave (keys ! 0) (keys ! 1)\<rparr>)"

subsection \<open>Helpers on requests and sessions\<close>

definition urlQuery :: "request \<Rightarrow> (string \<times> string) list" where
  "urlQuery r = ParseQuery (uRawQuery (rqURL r))"

definition getRequestAddress :: "request \<Rightarrow> string" where
  "getRequestAddress r =
     (if IsHTTPS r then ''https://'' @ rqHost r @ rqRequestURI r else ''http://'' @ rqHost r @ rqRequestURI r)"

definition getRequestDomain :: "request \<Rightarrow> string" where
  "getRequestDomain r = (if IsHTTPS r then ''https://'' @ rqHost r else ''http://'' @ rqHost r)"

definition shouldProxyAuthToGitlab :: "request \<Rightarrow> bool" where
  "shouldProxyAuthToGitlab r \<longleftrightarrow> queryGet (urlQuery r) ''domain'' \<noteq> [] \<and> queryGet (urlQuery r) ''state'' \<noteq> []"

definition shouldProxyCallbackToCustomDomain :: "session \<Rightarrow> bool" where
  "shouldProxyCallbackToCustomDomain session \<longleftrightarrow> sValues session ''proxy_auth_domain'' \<noteq> None"

definition validateState :: "request \<Rightarrow> session \<Rightarrow> bool" where
  "validateState r session \<longleftrightarrow>
     (let state = queryGet (urlQuery r) ''state''
      in if state = [] then False
         else case sValues session ''state'' of None \<Rightarrow> False | Some v \<Rightarrow> v = state)"

definition verifyCodeAndStateGiven :: "request \<Rightarrow> bool" where
  "verifyCodeAndStateGiven r \<longleftrightarrow> queryGet (urlQuery r) ''code'' \<noteq> [] \<and> queryGet (urlQuery r) ''state'' \<noteq> []"

definition getProxyAddress :: "auth \<Rightarrow> request \<Rightarrow> string \<Rightarrow> string" where
  "getProxyAddress a r state = authorizeProxyURL (auRedirectURI a) (getRequestDomain r) state"

definition setValue :: "string \<Rightarrow> string \<Rightarrow> session \<Rightarrow> session" where
  "setValue k v session = session\<lparr>sValues := (sValues session)(k \<mapsto> v)\<rparr>"

definition deleteValue :: "string \<Rightarrow> session \<Rightarrow> session" where
  "deleteValue k session = session\<lparr>sValues := (sValues session)(k := None)\<rparr>"

definition getSessionFromStore :: "auth \<Rightarrow> request \<Rightarrow> session \<times> goerr option" where
  "getSessionFromStore a r =
     (case auGet a r of (session, err) \<Rightarrow>
        (session\<lparr>sPath := ''/'', sHttpOnly := True, sSecure := IsHTTPS r, sMaxAge := authSessionMaxAge\<rparr>, err))"

text \<open>\<open>checkSession\<close>: the session, or the answer that ended the request.\<close>

definition checkSession :: "auth \<Rightarrow> request \<Rightarrow> response \<Rightarrow> session option \<times> response" where
  "checkSession a r w =
     (case getSessionFromStore a r of
        (session, None) \<Rightarrow> (Some session, w)
      | (session, Some errsession) \<Rightarrow>
          (case auSave a session r w of
             (Some errsave, w') \<Rightarrow> (None, Serve500 w')
           | (None, w') \<Rightarrow> (None, Redirect r (getRequestAddress r) 302 w')))"

text \<open>Saving a session and going on, or the error page.\<close>

definition saveThen :: "auth \<Rightarrow> session \<Rightarrow> request \<Rightarrow> response \<Rightarrow> (response \<Rightarrow> response) \<Rightarrow> response" where
  "saveThen a session r w f =
     (case auSave a session r w of (Some err, w') \<Rightarrow> Serve500 w' | (None, w') \<Rightarrow> f w')"

subsection \<open>Signing in\<close>

definition tokenRequestBody :: "auth \<Rightarrow> string \<Rightarrow> string" where
  "tokenRequestBody a code =
     encodeQuery [(''client_id'', auClientID a), (''client_secret'', auClientSecret a), (''code'', code),
       (''grant_type'', ''authorization_code''), (''redirect_uri'', auRedirectURI a)]"

definition fetchAccessToken :: "auth \<Rightarrow> auth_env \<Rightarrow> string \<Rightarrow> string res" where
  "fetchAccessToken a env code =
     (case ParseURL (tokenURL (auInternalGitlabServer a)) of
        None \<Rightarrow> Inl (goerr.errURL (tokenURL (auInternalGitlabServer a)))
      | Some fetchURL \<Rightarrow>
          (case NewRequest ''POST'' (URLString fetchURL) (tokenRequestBody a code) of
             Inl err \<Rightarrow> Inl err
           | Inr req \<Rightarrow>
               (case auDo a req of
                  Inl err \<Rightarrow> Inl err
                | Inr resp \<Rightarrow>
                    if irStatus resp \<noteq> 200 then Inl errResponseNotOk else aeToken env (irBody resp))))"

definition checkAuthenticationResponse :: "auth \<Rightarrow> auth_env \<Rightarrow> session \<Rightarrow> request \<Rightarrow> response \<Rightarrow> response" where
  "checkAuthenticationResponse a env session r w =
     (if \<not> validateState r session then Serve401 w
      else case sValues session ''uri'' of
          None \<Rightarrow> Serve500 w
        | Some redirectURI \<Rightarrow>
            (case DecryptCode (aeCrypto env) (auKeys a) (aeNow env) (queryGet (urlQuery r) ''code'') (getRequestDomain r) of
               Inl err \<Rightarrow> Serve500 w
             | Inr decryptedCode \<Rightarrow>
                 (case fetchAccessToken a env decryptedCode of
                    Inl err \<Rightarrow> Serve503 w
                  | Inr token \<Rightarrow>
                      saveThen a (setValue ''access_token'' token session) r w
                        (\<lambda>w'. Redirect r redirectURI 302 w'))))"

text \<open>A source of domains, with its state.  Inside a handler a panic of the source, which the contract
  \<open>api_resolver\<close> excludes, counts as an error.\<close>

type_synonym 's domain_source = "string \<Rightarrow> 's \<Rightarrow> 's domain res outcome \<times> 's"

definition sourceGetDomain :: "'s domain_source \<Rightarrow> string \<Rightarrow> 's \<Rightarrow> 's domain res \<times> 's" where
  "sourceGetDomain src name s =
     (case src name s of
        (Returns x, s') \<Rightarrow> (x, s')
      | (Panics, s') \<Rightarrow> (Inl (otherErr ''panic''), s'))"

definition domainAllowed :: "auth \<Rightarrow> 's domain_source \<Rightarrow> string \<Rightarrow> 's \<Rightarrow> bool \<times> 's" where
  "domainAllowed a domains name s =
     (if name = auPagesDomain a \<or> HasSuffix name (''.'' @ auPagesDomain a) then (True, s)
      else case sourceGetDomain domains name s of
          (Inr d, s') \<Rightarrow> (True, s')
        | (Inl err, s') \<Rightarrow> (False, s'))"

definition proxiedHost :: "url \<Rightarrow> string" where
  "proxiedHost u = (case SplitHostPort (uHost u) of Some (host, _) \<Rightarrow> host | None \<Rightarrow> uHost u)"

text \<open>The query sent on to the custom domain: without \<open>token\<close>, with the signed code.\<close>

definition proxiedQuery :: "(string \<times> string) list \<Rightarrow> string \<Rightarrow> (string \<times> string) list" where
  "proxiedQuery query signedCode = querySet (queryDel query ''token'') ''code'' signedCode"

definition proxyAuthToGitlab ::
  "auth \<Rightarrow> 's domain_source \<Rightarrow> session \<Rightarrow> request \<Rightarrow> response \<Rightarrow> 's \<Rightarrow> response \<times> 's"
where
  "proxyAuthToGitlab a domains session r w s =
     (let d = queryGet (urlQuery r) ''domain''; state = queryGet (urlQuery r) ''state''
      in case ParseURL d of
           None \<Rightarrow> (Serve500 w, s)
         | Some proxyurl \<Rightarrow>
             (case domainAllowed a domains (proxiedHost proxyurl) s of
                (allowed, s') \<Rightarrow>
                  if \<not> allowed then (Serve401 w, s')
                  else
                    (saveThen a (setValue ''proxy_auth_domain'' d session) r w
                       (\<lambda>w'. Redirect r (authorizeURL (auPublicGitlabServer a) (auClientID a) (auRedirectURI a)
                                          state (auScope a)) 302 w'), s')))"

definition proxyCallback ::
  "auth \<Rightarrow> auth_env \<Rightarrow> session \<Rightarrow> request \<Rightarrow> string \<Rightarrow> response \<Rightarrow> response"
where
  "proxyCallback a env session r proxyDomain w =
     saveThen a (deleteValue ''proxy_auth_domain'' session) r w (\<lambda>w'.
       case EncryptAndSignCode (aeCrypto env) (auKeys a) (aeNow env) (aeNonce env) proxyDomain
              (queryGet (urlQuery r) ''code'') of
         Inl err \<Rightarrow> Serve503 w'
       | Inr signedCode \<Rightarrow>
           Redirect r (proxyDomain @ uPath (rqURL r) @ ''?'' @ encodeQuery (proxiedQuery (urlQuery r) signedCode))
             302 w')"

definition handleProxyingAuth ::
  "auth \<Rightarrow> auth_env \<Rightarrow> 's domain_source \<Rightarrow> session \<Rightarrow> request \<Rightarrow> response \<Rightarrow> 's \<Rightarrow> bool \<times> response \<times> 's"
where
  "handleProxyingAuth a env domains session r w s =
     (if shouldProxyAuthToGitlab r then (True, proxyAuthToGitlab a domains session r w s)
      else case sValues session ''proxy_auth_domain'' of
          Some proxyDomain \<Rightarrow> (True, proxyCallback a env session r proxyDomain w, s)
        | None \<Rightarrow> (False, w, s))"

definition TryAuthenticate ::
  "auth option \<Rightarrow> auth_env \<Rightarrow> 's domain_source \<Rightarrow> request \<Rightarrow> response \<Rightarrow> 's \<Rightarrow> bool \<times> response \<times> 's"
where
  "TryAuthenticate auth env domains r w s =
     (case auth of
        None \<Rightarrow> (False, w, s)
      | Some a \<Rightarrow>
          (case checkSession a r w of
             (None, w') \<Rightarrow> (True, w', s)
           | (Some session, w') \<Rightarrow>
               if uPath (rqURL r) \<noteq> callbackPath then (False, w', s)
               else (case handleProxyingAuth a env domains session r w' s of
                   (True, w'', s') \<Rightarrow> (True, w'', s')
                 | (False, w'', s') \<Rightarrow>
                     if queryGet (urlQuery r) ''error'' \<noteq> [] then (True, Serve401 w'', s')
                     else if verifyCodeAndStateGiven r
                     then (True, checkAuthenticationResponse a env session r w'', s')
                     else (False, w'', s'))))"

subsection \<open>Checking access\<close>

definition checkTokenExists :: "auth \<Rightarrow> auth_env \<Rightarrow> session \<Rightarrow> request \<Rightarrow> response \<Rightarrow> bool \<times> response" where
  "checkTokenExists a env session r w =
     (case sValues session ''access_token'' of
        Some _ \<Rightarrow> (False, w)
      | None \<Rightarrow>
          (let state = aeState env;
               session' = deleteValue ''proxy_auth_domain''
                 (setValue ''uri'' (getRequestAddress r) (setValue ''state'' state session))
           in (True, saveThen a session' r w (\<lambda>w'. Redirect r (getProxyAddress a r state) 302 w'))))"

definition checkSessionIsValid :: "auth \<Rightarrow> auth_env \<Rightarrow> request \<Rightarrow> response \<Rightarrow> session option \<times> response" where
  "checkSessionIsValid a env r w =
     (case checkSession a r w of
        (None, w') \<Rightarrow> (None, w')
      | (Some session, w') \<Rightarrow>
          (case checkTokenExists a env session r w' of
             (True, w'') \<Rightarrow> (None, w'')
           | (False, w'') \<Rightarrow> (Some session, w'')))"

definition destroySession :: "auth \<Rightarrow> session \<Rightarrow> request \<Rightarrow> response \<Rightarrow> response" where
  "destroySession a session r w =
     saveThen a (deleteValue ''access_token'' session) r w (\<lambda>w'. Redirect r (getRequestAddress r) 302 w')"

definition IsAuthSupported :: "auth option \<Rightarrow> bool" where
  "IsAuthSupported auth \<longleftrightarrow> auth \<noteq> None"

definition checkResponseForInvalidToken ::
  "auth \<Rightarrow> auth_env \<Rightarrow> in_response \<Rightarrow> session \<Rightarrow> request \<Rightarrow> response \<Rightarrow> bool \<times> response"
where
  "checkResponseForInvalidToken a env resp session r w =
     (if irStatus resp = 401 \<and> aeErrorName env (irBody resp) = Inr ''invalid_token''
      then (True, destroySession a session r w) else (False, w))"

text \<open>The request that asks GitLab whether the user may see the project, or exists at all.\<close>

definition accessURL :: "auth \<Rightarrow> nat \<Rightarrow> string" where
  "accessURL a projectID =
     (if projectID > 0 then apiURLProject (auInternalGitlabServer a) projectID
      else apiURLUser (auInternalGitlabServer a))"

definition checkAuthentication ::
  "auth \<Rightarrow> auth_env \<Rightarrow> serving_env \<Rightarrow> (serving_kind \<Rightarrow> vfs) \<Rightarrow> 's domain option
    \<Rightarrow> request \<Rightarrow> response \<Rightarrow> 's \<Rightarrow> bool \<times> response \<times> 's"
where
  "checkAuthentication a env senv fs d r w s =
     (case checkSessionIsValid a env r w of
        (None, w1) \<Rightarrow> (True, w1, s)
      | (Some session, w1) \<Rightarrow>
          (case GetProjectID d r s of
             (projectID, s1) \<Rightarrow>
               (case NewRequest ''GET'' (accessURL a projectID) [] of
                  Inl err \<Rightarrow> (True, Serve500 w1, s1)
                | Inr req \<Rightarrow>
                    (case auDo a (addRequestHeader ''Authorization''
                            (''Bearer '' @ the (sValues session ''access_token'')) req) of
                       Inl err \<Rightarrow> (True, ServeNotFoundAuthFailed senv fs d r w1 s1)
                     | Inr resp \<Rightarrow>
                         (case checkResponseForInvalidToken a env resp session r w1 of
                            (True, w2) \<Rightarrow> (True, w2, s1)
                          | (False, w2) \<Rightarrow>
                              if irStatus resp \<noteq> 200 then (True, ServeNotFoundAuthFailed senv fs d r w2 s1)
                              else (False, w2, s1))))))"

definition CheckAuthenticationWithoutProject ::
  "auth option \<Rightarrow> auth_env \<Rightarrow> serving_env \<Rightarrow> (serving_kind \<Rightarrow> vfs) \<Rightarrow> 's domain option
    \<Rightarrow> request \<Rightarrow> response \<Rightarrow> 's \<Rightarrow> bool \<times> response \<times> 's"
where
  "CheckAuthenticationWithoutProject auth env senv fs d r w s =
     (case auth of None \<Rightarrow> (False, w, s) | Some a \<Rightarrow> checkAuthentication a env senv fs d r w s)"

definition CheckAuthentication ::
  "auth option \<Rightarrow> auth_env \<Rightarrow> serving_env \<Rightarrow> (serving_kind \<Rightarrow> vfs) \<Rightarrow> 's domain option
    \<Rightarrow> request \<Rightarrow> response \<Rightarrow> 's \<Rightarrow> bool \<times> response \<times> 's"
where
  "CheckAuthentication auth env senv fs d r w s =
     (case auth of None \<Rightarrow> (True, Serve500 w, s) | Some a \<Rightarrow> checkAuthentication a env senv fs d r w s)"

text \<open>\<open>GetTokenIfExists\<close>: \<open>None\<close> is the error, with the response already written.\<close>

definition GetTokenIfExists :: "auth option \<Rightarrow> request \<Rightarrow> response \<Rightarrow> string option \<times> response" where
  "GetTokenIfExists auth r w =
     (case auth of
        None \<Rightarrow> (Some [], w)
      | Some a \<Rightarrow>
          (case checkSession a r w of
             (None, w') \<Rightarrow> (None, w')
           | (Some session, w') \<Rightarrow>
               (case sValues session ''access_token'' of Some t \<Rightarrow> (Some t, w') | None \<Rightarrow> (Some [], w'))))"

definition RequireAuth :: "auth \<Rightarrow> auth_env \<Rightarrow> request \<Rightarrow> response \<Rightarrow> bool \<times> response" where
  "RequireAuth a env r w =
     (case checkSessionIsValid a env r w of (None, w') \<Rightarrow> (True, w') | (Some _, w') \<Rightarrow> (False, w'))"

definition CheckResponseForInvalidToken ::
  "auth option \<Rightarrow> auth_env \<Rightarrow> in_response \<Rightarrow> request \<Rightarrow> response \<Rightarrow> bool \<times> response"
where
  "CheckResponseForInvalidToken auth env resp r w =
     (case auth of
        None \<Rightarrow> (False, w)
      | Some a \<Rightarrow>
          (case checkSession a r w of
             (None, w') \<Rightarrow> (True, w')
           | (Some session, w') \<Rightarrow> checkResponseForInvalidToken a env resp session r w'))"

subsection \<open>middleware.go\<close>

type_synonym 's http_handler = "request \<Rightarrow> response \<Rightarrow> 's \<Rightarrow> response \<times> 's"

definition AuthenticationMiddleware ::
  "auth option \<Rightarrow> auth_env \<Rightarrow> 's domain_source \<Rightarrow> 's http_handler \<Rightarrow> 's http_handler"
where
  "AuthenticationMiddleware auth env domains next r w s =
     (case TryAuthenticate auth env domains r w s of
        (True, w', s') \<Rightarrow> (w', s')
      | (False, w', s') \<Rightarrow> next r w' s')"

definition AuthorizationMiddleware ::
  "auth option \<Rightarrow> auth_env \<Rightarrow> serving_env \<Rightarrow> (serving_kind \<Rightarrow> vfs) \<Rightarrow> 's domain option \<Rightarrow> 's http_handler \<Rightarrow> 's http_handler"
where
  "AuthorizationMiddleware auth env senv fs d next r w s =
     (case IsAccessControlEnabled d r s of
        (True, s1) \<Rightarrow>
          (case CheckAuthentication auth env senv fs d r w s1 of
             (True, w', s') \<Rightarrow> (w', s')
           | (False, w', s') \<Rightarrow> next r w' s')
      | (False, s1) \<Rightarrow> next r w s1)"

subsection \<open>What a check that lets a request pass has seen\<close>

text \<open>Saving a session sets a header and sends nothing.\<close>

definition saves_ok :: "auth \<Rightarrow> bool" where
  "saves_ok a \<longleftrightarrow> (\<forall>session r w. rSent (snd (auSave a session r w)) = rSent w \<and> rBody (snd (auSave a session r w)) = rBody w)"

lemma checkSession_some:
  assumes "checkSession a r w = (Some session, w')"
  shows "w' = w \<and> (\<exists>st. auGet a r = (st, None) \<and> sValues st = sValues session)"
  using assms by (auto simp: checkSession_def getSessionFromStore_def split: prod.splits option.splits)

lemma Serve_sent [simp]:
  "wasSent (Serve401 w)" "wasSent (Serve404 w)" "wasSent (Serve500 w)" "wasSent (Serve502 w)" "wasSent (Serve503 w)"
  "wasSent (Serve500WithRequest w)" "wasSent (Serve414 w)" "wasSent (Serve429 w)"
  by (simp_all add: Serve401_def Serve404_def Serve500_def Serve502_def Serve503_def Serve500WithRequest_def
      Serve414_def Serve429_def)

lemma checkSession_none: "checkSession a r w = (None, w') \<Longrightarrow> wasSent w'"
  by (auto simp: checkSession_def split: prod.splits option.splits)

lemma saveThen_sent: "(\<And>w. wasSent (f w)) \<Longrightarrow> wasSent (saveThen a session r w f)"
  by (auto simp: saveThen_def split: prod.split option.split)

lemma checkSessionIsValid_some:
  assumes "checkSessionIsValid a env r w = (Some session, w')"
  shows "w' = w \<and> (\<exists>st token. auGet a r = (st, None) \<and> sValues st ''access_token'' = Some token
    \<and> sValues session ''access_token'' = Some token)"
proof -
  obtain w1 where c: "checkSession a r w = (Some session, w1)" and t: "checkTokenExists a env session r w1 = (False, w')"
    using assms by (auto simp: checkSessionIsValid_def split: prod.splits option.splits bool.splits)
  obtain token where "sValues session ''access_token'' = Some token" "w' = w1"
    using t by (auto simp: checkTokenExists_def Let_def split: option.splits)
  then show ?thesis using checkSession_some [OF c] by auto
qed

lemma checkSessionIsValid_none: "checkSessionIsValid a env r w = (None, w') \<Longrightarrow> wasSent w'"
  by (auto simp: checkSessionIsValid_def checkTokenExists_def Let_def intro!: saveThen_sent
      dest: checkSession_none split: prod.splits option.splits bool.splits)

lemma checkAuthentication_passes:
  assumes "checkAuthentication a env senv fs d r w s = (False, w', s')"
  shows "w' = w \<and> s' = snd (GetProjectID d r s) \<and> (\<exists>st token q resp. auGet a r = (st, None)
    \<and> sValues st ''access_token'' = Some token \<and> NewRequest ''GET'' (accessURL a (fst (GetProjectID d r s))) [] = Inr q
    \<and> auDo a (addRequestHeader ''Authorization'' (''Bearer '' @ token) q) = Inr resp \<and> irStatus resp = 200)"
proof -
  obtain session w1 where v: "checkSessionIsValid a env r w = (Some session, w1)"
    using assms by (cases "checkSessionIsValid a env r w") (auto simp: checkAuthentication_def split: option.splits)
  obtain st token where st: "auGet a r = (st, None)" "sValues st ''access_token'' = Some token"
    "sValues session ''access_token'' = Some token" and w1: "w1 = w"
    using checkSessionIsValid_some [OF v] by auto
  obtain pid s1 where p: "GetProjectID d r s = (pid, s1)" by fastforce
  obtain q where q: "NewRequest ''GET'' (accessURL a pid) [] = Inr q"
    using assms v p by (cases "NewRequest ''GET'' (accessURL a pid) []") (auto simp: checkAuthentication_def)
  obtain resp where resp: "auDo a (addRequestHeader ''Authorization'' (''Bearer '' @ token) q) = Inr resp"
    using assms v p q st by (cases "auDo a (addRequestHeader ''Authorization'' (''Bearer '' @ token) q)") (auto simp: checkAuthentication_def)
  have "irStatus resp = 200 \<and> w' = w1 \<and> s' = s1"
    using assms v p q st resp
    by (auto simp: checkAuthentication_def checkResponseForInvalidToken_def split: if_splits)
  then show ?thesis using st q resp p w1 by auto
qed


definition exampleSession :: session where
  "exampleSession = \<lparr>sValues = [''access_token'' \<mapsto> ''t'', ''state'' \<mapsto> ''st'', ''uri'' \<mapsto> ''https://a.example/x''],
     sPath = ''/'', sHttpOnly = True, sSecure = True, sMaxAge = 600\<rparr>"

definition exampleAuth :: auth where
  "exampleAuth = \<lparr>auPagesDomain = ''pages.example'', auClientID = ''id'', auClientSecret = ''secret'',
     auRedirectURI = ''https://projects.pages.example/auth'', auInternalGitlabServer = ''https://gitlab.example'',
     auPublicGitlabServer = ''https://gitlab.example'', auScope = ''api'', auKeys = exampleKeys,
     auDo = (\<lambda>q. Inr \<lparr>irStatus = 200, irHeader = Map.empty, irContentLength = 0, irBody = []\<rparr>),
     auGet = (\<lambda>r. (exampleSession, None)), auSave = (\<lambda>session r w. (None, w))\<rparr>"

definition exampleAuthEnv :: auth_env where
  "exampleAuthEnv = \<lparr>aeNow = 1030, aeState = ''st2'', aeNonce = ''n'', aeCrypto = exampleCrypto,
     aeToken = (\<lambda>_. Inr ''t2''), aeErrorName = (\<lambda>_. Inr [])\<rparr>"

lemma exampleAuth_fields:
  "auDo exampleAuth q = Inr \<lparr>irStatus = 200, irHeader = Map.empty, irContentLength = 0, irBody = []\<rparr>"
  "auGet exampleAuth r = (exampleSession, None)" "auSave exampleAuth session r w = (None, w)"
  by (simp_all add: exampleAuth_def)

lemma exampleAccessRequest:
  "\<exists>q. NewRequest ''GET'' (accessURL exampleAuth 0) [] = Inr q"
proof -
  have "ParseURL (accessURL exampleAuth 0) \<noteq> None" by code_simp
  then show ?thesis by (auto simp: NewRequest_def)
qed

lemma exampleAuth_passes:
  "checkAuthentication exampleAuth exampleAuthEnv senv fs None r w s = (False, w, s)"
proof -
  have "GetProjectID None r s = (0, s)" by (simp add: GetProjectID_def GetLookupPath_def domainResolve_def)
  moreover have "checkSessionIsValid exampleAuth exampleAuthEnv r w
      = (Some (exampleSession\<lparr>sPath := ''/'', sHttpOnly := True, sSecure := IsHTTPS r, sMaxAge := authSessionMaxAge\<rparr>), w)"
    by (simp add: checkSessionIsValid_def checkSession_def getSessionFromStore_def checkTokenExists_def exampleAuth_fields
        exampleSession_def)
  moreover obtain q where "NewRequest ''GET'' (accessURL exampleAuth 0) [] = Inr q" using exampleAccessRequest by blast
  ultimately show ?thesis
    by (simp add: checkAuthentication_def checkResponseForInvalidToken_def exampleAuth_fields)
qed


subsection \<open>Signing in\<close>

lemma saveThen_302:
  assumes "saves_ok a" and "fresh w" and "sentStatus (saveThen a session r w f) = Some 302"
  shows "\<exists>w'. auSave a session r w = (None, w') \<and> fresh w' \<and> saveThen a session r w f = f w'"
proof -
  obtain e w' where s: "auSave a session r w = (e, w')" by fastforce
  have f: "fresh w'" using assms(1,2) s unfolding saves_ok_def by (metis snd_conv)
  have "e = None" using assms(3) s Serve_status(2) [OF f] by (cases e) (auto simp: saveThen_def)
  then show ?thesis using s f by (simp add: saveThen_def)
qed

text \<open>
  C10: a sign-in completes only for the browser that began it and only with a code meant for this site: if
  the OAuth callback is answered with a redirect, the state parameter is the one stored in the session, the
  code parameter decrypts under the domain of the request, GitLab exchanged it for the access token that is
  saved in the session, and the redirect leads to the address stored when the sign-in began.
\<close>

theorem checkAuthenticationResponse_login:
  assumes "saves_ok a" and "fresh w" and "sentStatus (checkAuthenticationResponse a env session r w) = Some 302"
  shows "\<exists>uri code token w'. sValues session ''state'' = Some (queryGet (urlQuery r) ''state'')
    \<and> sValues session ''uri'' = Some uri
    \<and> DecryptCode (aeCrypto env) (auKeys a) (aeNow env) (queryGet (urlQuery r) ''code'') (getRequestDomain r) = Inr code
    \<and> fetchAccessToken a env code = Inr token
    \<and> auSave a (setValue ''access_token'' token session) r w = (None, w')
    \<and> checkAuthenticationResponse a env session r w = Redirect r uri 302 w'"
proof -
  note no = Serve_status [OF assms(2)]
  have v: "validateState r session"
    using assms(3) no by (auto simp: checkAuthenticationResponse_def split: if_splits)
  obtain uri where uri: "sValues session ''uri'' = Some uri"
    using assms(3) no v by (cases "sValues session ''uri''") (auto simp: checkAuthenticationResponse_def)
  obtain code where code: "DecryptCode (aeCrypto env) (auKeys a) (aeNow env) (queryGet (urlQuery r) ''code'') (getRequestDomain r) = Inr code"
    using assms(3) no v uri
    by (cases "DecryptCode (aeCrypto env) (auKeys a) (aeNow env) (queryGet (urlQuery r) ''code'') (getRequestDomain r)")
      (auto simp: checkAuthenticationResponse_def)
  obtain token where token: "fetchAccessToken a env code = Inr token"
    using assms(3) no v uri code by (cases "fetchAccessToken a env code") (auto simp: checkAuthenticationResponse_def)
  have run: "checkAuthenticationResponse a env session r w
      = saveThen a (setValue ''access_token'' token session) r w (\<lambda>w'. Redirect r uri 302 w')"
    using v uri code token by (simp add: checkAuthenticationResponse_def)
  have "sValues session ''state'' = Some (queryGet (urlQuery r) ''state'')"
    using v by (auto simp: validateState_def Let_def split: if_splits option.splits)
  then show ?thesis using saveThen_302 [OF assms(1,2)] assms(3) uri code token unfolding run by metis
qed

definition exampleCallback :: request where
  "exampleCallback = (exampleGet ''a.example'' ''/auth'')
     \<lparr>rqURL := emptyURL\<lparr>uScheme := ''https'', uPath := ''/auth'', uRawQuery := ''code=token&state=st''\<rparr>\<rparr>"

theorem checkAuthenticationResponse_login_witness:
  "sentStatus (checkAuthenticationResponse exampleAuth exampleAuthEnv exampleSession exampleCallback newResponse) = Some 302
    \<and> (\<exists>w'. checkAuthenticationResponse exampleAuth exampleAuthEnv exampleSession exampleCallback newResponse
        = Redirect exampleCallback ''https://a.example/x'' 302 w')"
proof -
  have f: "fresh newResponse" by (simp add: newResponse_def)
  have sv: "saves_ok exampleAuth" by (simp add: saves_ok_def exampleAuth_fields)
  have q: "queryGet (urlQuery exampleCallback) ''code'' = ''token''"
    "queryGet (urlQuery exampleCallback) ''state'' = ''st''"
    "getRequestDomain exampleCallback = ''https://a.example''" by code_simp+
  have u: "sValues exampleSession ''uri'' = Some ''https://a.example/x''" "validateState exampleCallback exampleSession"
    by (simp_all add: exampleSession_def validateState_def q(2))
  have "ParseURL (tokenURL (auInternalGitlabServer exampleAuth)) = Some (emptyURL\<lparr>uScheme := ''https'', uHost := ''gitlab.example'', uPath := ''/oauth/token''\<rparr>)"
    "ParseURL (URLString (emptyURL\<lparr>uScheme := ''https'', uHost := ''gitlab.example'', uPath := ''/oauth/token''\<rparr>)) \<noteq> None"
    by code_simp+
  then have tok: "fetchAccessToken exampleAuth exampleAuthEnv ''code'' = Inr ''t2''"
    by (auto simp: fetchAccessToken_def NewRequest_def exampleAuth_fields exampleAuthEnv_def)
  have keys: "auKeys exampleAuth = exampleKeys" "aeCrypto exampleAuthEnv = exampleCrypto" "aeNow exampleAuthEnv = 1030"
    by (simp_all add: exampleAuth_def exampleAuthEnv_def)
  have dec: "DecryptCode exampleCrypto exampleKeys 1030 ''token'' ''https://a.example'' = Inr ''code''"
    by (rule exampleDecrypt)
  have run: "checkAuthenticationResponse exampleAuth exampleAuthEnv exampleSession exampleCallback newResponse
      = Redirect exampleCallback ''https://a.example/x'' 302 newResponse"
    unfolding checkAuthenticationResponse_def q u keys dec option.case sum.case
    by (simp add: tok u saveThen_def exampleAuth_fields)
  then have "sentStatus (checkAuthenticationResponse exampleAuth exampleAuthEnv exampleSession exampleCallback newResponse) = Some 302"
    using sentStatus_Redirect [OF f] by simp
  then show ?thesis using checkAuthenticationResponse_login [OF sv f] run by blast
qed

lemma set_insertPairs: "set (foldr insertPair q []) = set q"
proof -
  have "set (insertPair p q) = insert p (set q)" for p q by (induction p q rule: insertPair.induct) auto
  then show ?thesis by (induction q) auto
qed

text \<open>
  C14: the OAuth code is never passed on in the clear: the query of the redirect that hands a sign-in over to
  a custom domain reads back with the code encrypted and signed for exactly that domain as its only \<open>code\<close>,
  and with no \<open>token\<close> parameter.
\<close>

theorem proxyCallback_hides_code:
  assumes "saves_ok a" and "fresh w" and "sentStatus (proxyCallback a env session r proxyDomain w) = Some 302"
  shows "\<exists>signed q w'. EncryptAndSignCode (aeCrypto env) (auKeys a) (aeNow env) (aeNonce env) proxyDomain
      (queryGet (urlQuery r) ''code'') = Inr signed
    \<and> proxyCallback a env session r proxyDomain w = Redirect r (proxyDomain @ uPath (rqURL r) @ ''?'' @ q) 302 w'
    \<and> (\<forall>v. (''code'', v) \<in> set (ParseQuery q) \<longleftrightarrow> v = signed) \<and> (\<forall>v. (''token'', v) \<notin> set (ParseQuery q))"
proof -
  let ?e = "EncryptAndSignCode (aeCrypto env) (auKeys a) (aeNow env) (aeNonce env) proxyDomain (queryGet (urlQuery r) ''code'')"
  obtain w' where w': "fresh w'" and run: "proxyCallback a env session r proxyDomain w
      = (case ?e of Inl err \<Rightarrow> Serve503 w'
         | Inr signedCode \<Rightarrow> Redirect r (proxyDomain @ uPath (rqURL r) @ ''?'' @ encodeQuery (proxiedQuery (urlQuery r) signedCode)) 302 w')"
    using saveThen_302 [OF assms(1,2)] assms(3) unfolding proxyCallback_def by blast
  obtain signed where e: "?e = Inr signed"
    using assms(3) Serve_status(4) [OF w'] unfolding run by (cases ?e) auto
  have "set (ParseQuery (encodeQuery (proxiedQuery (urlQuery r) signed))) = set (proxiedQuery (urlQuery r) signed)"
    by (simp add: ParseQuery_encodeQuery set_insertPairs)
  then have "\<forall>v. (''code'', v) \<in> set (ParseQuery (encodeQuery (proxiedQuery (urlQuery r) signed))) \<longleftrightarrow> v = signed"
    "\<forall>v. (''token'', v) \<notin> set (ParseQuery (encodeQuery (proxiedQuery (urlQuery r) signed)))"
    by (auto simp: proxiedQuery_def querySet_def queryDel_def)
  then show ?thesis using e run by auto
qed

definition exampleProxied :: request where
  "exampleProxied = exampleCallback\<lparr>rqURL := emptyURL\<lparr>uPath := ''/auth'', uRawQuery := ''code=code&state=st&token=t''\<rparr>\<rparr>"

theorem proxyCallback_hides_code_witness:
  "\<exists>q w'. proxyCallback exampleAuth (exampleAuthEnv\<lparr>aeNow := 1000\<rparr>) exampleSession exampleProxied ''https://a.example'' newResponse
      = Redirect exampleProxied (''https://a.example'' @ ''/auth'' @ ''?'' @ q) 302 w'
    \<and> (''code'', ''token'') \<in> set (ParseQuery q) \<and> (\<forall>v. (''token'', v) \<notin> set (ParseQuery q))"
proof -
  let ?env = "exampleAuthEnv\<lparr>aeNow := 1000\<rparr>"
  let ?run = "proxyCallback exampleAuth ?env exampleSession exampleProxied ''https://a.example'' newResponse"
  have f: "fresh newResponse" by (simp add: newResponse_def)
  have sv: "saves_ok exampleAuth" by (simp add: saves_ok_def exampleAuth_fields)
  have q: "queryGet (urlQuery exampleProxied) ''code'' = ''code''" "uPath (rqURL exampleProxied) = ''/auth''" by code_simp+
  have e: "EncryptAndSignCode (aeCrypto ?env) (auKeys exampleAuth) (aeNow ?env) (aeNonce ?env) ''https://a.example'' ''code'' = Inr ''token''"
    using exampleEncrypt by (simp add: exampleAuthEnv_def exampleAuth_def)
  have "\<exists>u. ?run = Redirect exampleProxied u 302 newResponse"
    unfolding proxyCallback_def saveThen_def exampleAuth_fields prod.case option.case q(1) e sum.case by blast
  then have "sentStatus ?run = Some 302" using sentStatus_Redirect [OF f] by auto
  from proxyCallback_hides_code [OF sv f this, unfolded q e] obtain signed p w' where x: "Inr ''token'' = (Inr signed :: string res)"
    "?run = Redirect exampleProxied (''https://a.example'' @ ''/auth'' @ ''?'' @ p) 302 w'"
    "\<forall>v. (''code'', v) \<in> set (ParseQuery p) \<longleftrightarrow> v = signed" "\<forall>v. (''token'', v) \<notin> set (ParseQuery p)"
    by (elim exE conjE)
  have "(''code'', ''token'') \<in> set (ParseQuery p)" using x(1,3) by simp
  with x(2,4) show ?thesis by (intro exI conjI)
qed

end
