(* ===== verification/Artifact.thy ===== *)
theory Artifact
  imports Auth
begin

text \<open>
  The proxy for job artifacts, \<open>internal/artifact\<close>, and the handlers that put it together with
  authentication, \<open>internal/handlers\<close>.  A nil \<open>Artifact\<close> is \<open>None\<close>; the client with its time-out is the
  parameter \<open>atDo\<close>.  Logging and error tracking are left out.
\<close>

subsection \<open>artifact.go\<close>

record artifact =
  atServer :: string
  atSuffix :: string
  atDo :: http_do

definition newArtifact :: "http_do \<Rightarrow> string \<Rightarrow> string \<Rightarrow> artifact" where
  "newArtifact http server pagesDomain =
     \<lparr>atServer = TrimRight server slash, atSuffix = ''.'' @ ToLower pagesDomain, atDo = http\<rparr>"

definition encodePathSegments :: "string \<Rightarrow> string" where
  "encodePathSegments p = Join (map PathEscape (Split slash p)) ''/''"

text \<open>
  \<open>pathExtractor\<close>, the expression \<open>(?i)\A/-/(.*)/-/jobs/(\d+)/artifacts(/[^?]*)\z\<close> (with the ASCII case
  folding of the prelude).  \<open>matchJob\<close> matches the part after the first group at the start of a text, and
  \<open>extractFrom\<close> tries the longest first group first; the group matches no line feed.
\<close>

definition foldPrefix :: "string \<Rightarrow> string \<Rightarrow> string option" where
  "foldPrefix s p = (if HasPrefix (ToLower s) p then Some (drop (length p) s) else None)"

definition matchJob :: "string \<Rightarrow> (string \<times> string) option" where
  "matchJob s =
     (case foldPrefix s ''/-/jobs/'' of
        None \<Rightarrow> None
      | Some t \<Rightarrow>
          (let jobID = takeWhile isDigit t; u = dropWhile isDigit t
           in if jobID = [] then None
              else case foldPrefix u ''/artifacts'' of
                  None \<Rightarrow> None
                | Some file \<Rightarrow>
                    if HasPrefix file ''/'' \<and> CHR ''?'' \<notin> set file then Some (jobID, file) else None))"

fun extractFrom :: "string \<Rightarrow> (string \<times> string \<times> string) option" where
  "extractFrom [] = None"
| "extractFrom (c # s) =
     (case (if c = CHR 0x0A then None else extractFrom s) of
        Some (part, jobID, file) \<Rightarrow> Some (c # part, jobID, file)
      | None \<Rightarrow>
          (case matchJob (c # s) of Some (jobID, file) \<Rightarrow> Some ([], jobID, file) | None \<Rightarrow> None))"

definition pathExtractor :: "string \<Rightarrow> (string \<times> string \<times> string) option" where
  "pathExtractor p = (if HasPrefix p ''/-/'' then extractFrom (drop 3 p) else None)"

definition artifactURL :: "string \<Rightarrow> string \<Rightarrow> string \<Rightarrow> string \<Rightarrow> string" where
  "artifactURL server projectID jobID file =
     server @ ''/projects/'' @ projectID @ ''/jobs/'' @ jobID @ ''/artifacts'' @ file"

definition BuildURL :: "artifact \<Rightarrow> string \<Rightarrow> string \<Rightarrow> url option" where
  "BuildURL a host requestPath =
     (if \<not> HasSuffix (ToLower host) (atSuffix a) then None
      else
        (let topGroup = take (length host - length (atSuffix a)) host
         in case pathExtractor requestPath of
              None \<Rightarrow> None
            | Some (part, jobID, file) \<Rightarrow>
                (let restOfPath = TrimLeft (TrimRight part slash) slash
                 in if restOfPath = [] then None
                    else ParseURL (artifactURL (atServer a) (PathEscape (JoinPath topGroup restOfPath)) jobID
                           (encodePathSegments file)))))"

definition addCacheHeader :: "in_response \<Rightarrow> response \<Rightarrow> response" where
  "addCacheHeader resp w =
     (if 200 \<le> irStatus resp \<and> irStatus resp \<le> 299 then setHeader ''Cache-Control'' ''max-age=3600'' w else w)"

text \<open>An additional handler says whether it handled the response, and what is left to read of its body.\<close>

type_synonym response_handler = "in_response \<Rightarrow> response \<Rightarrow> bool \<times> string \<times> response"

definition relayResponse :: "string \<Rightarrow> in_response \<Rightarrow> string \<Rightarrow> response \<Rightarrow> response" where
  "relayResponse token resp body w =
     (let w1 = (if token = [] then addCacheHeader resp w else w);
          w2 = setHeader ''Content-Type'' (hdrGet (irHeader resp) ''Content-Type'') w1;
          w3 = setHeader ''Content-Length'' (decimalInt (irContentLength resp)) w2;
          w4 = WriteHeader (irStatus resp) w3
      in if body = [] then w4 else WriteChunk (Bytes body) w4)"

definition artifactRequest :: "url \<Rightarrow> string \<Rightarrow> out_request res" where
  "artifactRequest reqURL token =
     (case NewRequest ''GET'' (URLString reqURL) [] of
        Inl err \<Rightarrow> Inl err
      | Inr req \<Rightarrow> Inr (if token = [] then req else addRequestHeader ''Authorization'' (''Bearer '' @ token) req))"

definition makeRequest :: "artifact \<Rightarrow> url \<Rightarrow> string \<Rightarrow> response_handler \<Rightarrow> response \<Rightarrow> response" where
  "makeRequest a reqURL token additionalHandler w =
     (case artifactRequest reqURL token of
        Inl err \<Rightarrow> Serve500 w
      | Inr req \<Rightarrow>
          (case atDo a req of
             Inl err \<Rightarrow> Serve502 w
           | Inr resp \<Rightarrow>
               (case additionalHandler resp w of
                  (True, body, w') \<Rightarrow> w'
                | (False, body, w') \<Rightarrow>
                    if irStatus resp = 404 then Serve404 w'
                    else if irStatus resp = 500 then Serve500 w'
                    else relayResponse token resp body w')))"

definition TryMakeRequest ::
  "artifact option \<Rightarrow> string \<Rightarrow> request \<Rightarrow> string \<Rightarrow> response_handler \<Rightarrow> response \<Rightarrow> bool \<times> response"
where
  "TryMakeRequest artifact host r token additionalHandler w =
     (case artifact of
        None \<Rightarrow> (False, w)
      | Some a \<Rightarrow>
          if atServer a = [] \<or> host = [] then (False, w)
          else case BuildURL a host (uPath (rqURL r)) of
              None \<Rightarrow> (False, w)
            | Some reqURL \<Rightarrow> (True, makeRequest a reqURL token additionalHandler w))"

subsection \<open>handlers.go\<close>

text \<open>\<open>checkResponseForInvalidToken\<close> reads the body of a 401 response and closes it, so nothing of it is
  left afterwards; it gets there unless the session was lost.\<close>

definition bodyAfterTokenCheck :: "auth option \<Rightarrow> in_response \<Rightarrow> string" where
  "bodyAfterTokenCheck auth resp = (if auth \<noteq> None \<and> irStatus resp = 401 then [] else irBody resp)"

definition checkIfLoginRequiredOrInvalidToken ::
  "auth option \<Rightarrow> auth_env \<Rightarrow> request \<Rightarrow> string \<Rightarrow> response_handler"
where
  "checkIfLoginRequiredOrInvalidToken auth env r token resp w =
     (let check = (\<lambda>w. case CheckResponseForInvalidToken auth env resp r w of
                     (handled, w') \<Rightarrow> (handled, bodyAfterTokenCheck auth resp, w'))
      in if (irStatus resp = 404 \<or> irStatus resp = 403) \<and> token = []
         then (case auth of
                 None \<Rightarrow> (False, irBody resp, w)
               | Some a \<Rightarrow>
                   (case RequireAuth a env r w of
                      (True, w') \<Rightarrow> (True, irBody resp, w')
                    | (False, w') \<Rightarrow> check w'))
         else check w)"

definition HandleArtifactRequest ::
  "auth option \<Rightarrow> auth_env \<Rightarrow> artifact option \<Rightarrow> string \<Rightarrow> request \<Rightarrow> response \<Rightarrow> bool \<times> response"
where
  "HandleArtifactRequest auth env artifact host r w =
     (case GetTokenIfExists auth r w of
        (None, w') \<Rightarrow> (True, w')
      | (Some token, w') \<Rightarrow>
          TryMakeRequest artifact host r token (checkIfLoginRequiredOrInvalidToken auth env r token) w')"

subsection \<open>Which project is asked\<close>

lemma JoinPath_plain:
  assumes "plainComp t" and "cs \<noteq> []" and "\<forall>c \<in> set cs. plainComp c"
  shows "JoinPath t (Join cs ''/'') = Join (t # cs) ''/''"
proof -
  have j: "Join cs ''/'' \<noteq> []" using Join_plain_Nil [OF assms(3)] assms(2) by simp
  have "t \<noteq> []" using assms(1) by (simp add: plainComp_def)
  moreover have "t @ ''/'' @ Join cs ''/'' = Join (t # cs) ''/''" using assms(2) by (simp add: Join_Cons)
  moreover have "Clean (Join (t # cs) ''/'') = Join (t # cs) ''/''"
    using Clean_Join_plain [of "t # cs"] assms by simp
  ultimately show ?thesis using j unfolding JoinPath_def by simp
qed

lemma PathEscape_no_slash: "slash \<notin> set (PathEscape s)"
proof -
  have "slash \<notin> set (escapeByte encodePathSegment c)" for c
  proof (cases "shouldEscape c encodePathSegment")
    case True
    have "of_char c div 16 < (16::nat)" using nat_of_char_lt [of c] by presburger
    then have "upperhex (of_char c div 16) \<noteq> slash" "upperhex (of_char c mod 16) \<noteq> slash"
      using upperhex_hex [of "of_char c div 16"] upperhex_hex [of "of_char c mod 16"]
      by (auto simp: isHexByte_def isDigit_def)
    then show ?thesis using True by (auto simp: escapeByte_def)
  next
    case False
    have "shouldEscape slash encodePathSegment" by code_simp
    then have "c \<noteq> slash" using False by blast
    then show ?thesis using False by (auto simp: escapeByte_def)
  qed
  then show ?thesis by (auto simp: PathEscape_def escape_def)
qed

text \<open>
  The artifacts asked for belong to the group of the host: when the group part of the path consists of
  ordinary names, the URL names as project one path segment that reads back as the top-level group of the
  host name followed by these names.
\<close>

theorem BuildURL_own_group:
  assumes "ToLower host = ToLower topGroup @ atSuffix a" and "plainComp topGroup"
    and "pathExtractor p = Some (part, jobID, file)"
    and "TrimLeft (TrimRight part slash) slash = Join cs ''/''" and "cs \<noteq> []" and "\<forall>c \<in> set cs. plainComp c"
    and "take (length topGroup) host = topGroup"
  shows "\<exists>projectID. BuildURL a host p = ParseURL (artifactURL (atServer a) projectID jobID (encodePathSegments file))
    \<and> slash \<notin> set projectID \<and> unescape encodePathSegment projectID = Some (Join (topGroup # cs) ''/'')"
proof -
  have len: "length host = length topGroup + length (atSuffix a)"
    using arg_cong [OF assms(1), of length] by simp
  have suf: "HasSuffix (ToLower host) (atSuffix a)" using assms(1) by simp
  have "Join cs ''/'' \<noteq> []" using Join_plain_Nil [OF assms(6)] assms(5) by simp
  then have "BuildURL a host p = ParseURL (artifactURL (atServer a) (PathEscape (Join (topGroup # cs) ''/'')) jobID (encodePathSegments file))"
    using suf len assms(3,4,7) JoinPath_plain [OF assms(2,5,6)] by (simp add: BuildURL_def)
  moreover have "unescape encodePathSegment (PathEscape (Join (topGroup # cs) ''/'')) = Some (Join (topGroup # cs) ''/'')"
    unfolding PathEscape_def by (rule unescape_escape) (simp add: freeMode_def)
  ultimately show ?thesis using PathEscape_no_slash by blast
qed

definition exampleArtifact :: artifact where
  "exampleArtifact = newArtifact (\<lambda>q. Inl (otherErr ''down'')) ''https://gitlab.example/api/v4/'' ''pages.example''"

theorem BuildURL_own_group_witness:
  "\<exists>projectID. BuildURL exampleArtifact ''group.pages.example'' ''/-/sub/site/-/jobs/1/artifacts/x.html''
      = ParseURL (artifactURL ''https://gitlab.example/api/v4'' projectID ''1'' ''/x.html'')
    \<and> slash \<notin> set projectID \<and> unescape encodePathSegment projectID = Some ''group/sub/site''"
proof -
  have e: "ToLower ''group.pages.example'' = ToLower ''group'' @ atSuffix exampleArtifact" "plainComp ''group''"
    "pathExtractor ''/-/sub/site/-/jobs/1/artifacts/x.html'' = Some (''sub/site'', ''1'', ''/x.html'')"
    "TrimLeft (TrimRight ''sub/site'' slash) slash = Join [''sub'', ''site''] ''/''" "[''sub'', ''site''] \<noteq> []"
    "\<forall>c \<in> set [''sub'', ''site'']. plainComp c" "take (length ''group'') ''group.pages.example'' = ''group''"
    "atServer exampleArtifact = ''https://gitlab.example/api/v4''" "encodePathSegments ''/x.html'' = ''/x.html''"
    "Join [''group'', ''sub'', ''site''] ''/'' = ''group/sub/site''"
    by code_simp+
  show ?thesis using BuildURL_own_group [OF e(1-7)] unfolding e(8-10) .
qed


subsection \<open>Relaying responses\<close>

text \<open>
  With authentication configured, a 401 answer of the artifacts API whose error is not
  \<open>invalid_token\<close> is relayed with its status and the length of its body, but without the body, which the
  token check has consumed.
\<close>

theorem makeRequest_401_without_body:
  assumes "artifactRequest u token = Inr req" and "atDo a req = Inr resp" and "irStatus resp = 401"
    and "auGet au r = (st, None)" and "aeErrorName env (irBody resp) \<noteq> Inr ''invalid_token''" and "fresh w"
  shows "let w' = makeRequest a u token (checkIfLoginRequiredOrInvalidToken (Some au) env r token) w
    in sentStatus w' = Some 401 \<and> sentHeader w' ''Content-Length'' = decimalInt (irContentLength resp)
      \<and> rBody w' = rBody w"
proof -
  have "CheckResponseForInvalidToken (Some au) env resp r w = (False, w)"
    using assms(3-5) by (simp add: CheckResponseForInvalidToken_def checkSession_def getSessionFromStore_def
        checkResponseForInvalidToken_def)
  then have "makeRequest a u token (checkIfLoginRequiredOrInvalidToken (Some au) env r token) w = relayResponse token resp [] w"
    using assms(1-3) by (simp add: makeRequest_def checkIfLoginRequiredOrInvalidToken_def bodyAfterTokenCheck_def)
  then show ?thesis using assms(3,6)
    by (simp add: relayResponse_def Let_def addCacheHeader_def sentStatus_def sentHeader_def)
qed

definition exampleDenied :: in_response where
  "exampleDenied = \<lparr>irStatus = 401, irHeader = Map.empty, irContentLength = 3, irBody = ''abc''\<rparr>"

theorem makeRequest_401_without_body_witness:
  "\<exists>w'. sentStatus w' = Some 401 \<and> sentHeader w' ''Content-Length'' = ''3'' \<and> rBody w' = []
    \<and> w' = makeRequest (exampleArtifact\<lparr>atDo := (\<lambda>q. Inr exampleDenied)\<rparr>) (emptyURL\<lparr>uPath := ''/x''\<rparr>) []
        (checkIfLoginRequiredOrInvalidToken (Some exampleAuth) exampleAuthEnv (exampleGet ''a.example'' ''/x'') []) newResponse"
proof -
  have "ParseURL (URLString (emptyURL\<lparr>uPath := ''/x''\<rparr>)) \<noteq> None" by code_simp
  then obtain req where req: "artifactRequest (emptyURL\<lparr>uPath := ''/x''\<rparr>) [] = Inr req"
    by (auto simp: artifactRequest_def NewRequest_def)
  have d: "decimalInt (irContentLength exampleDenied) = ''3''" by code_simp
  have e: "irStatus exampleDenied = 401" "aeErrorName exampleAuthEnv (irBody exampleDenied) \<noteq> Inr ''invalid_token''"
    "fresh newResponse" "rBody newResponse = []"
    by (simp_all add: exampleDenied_def exampleAuthEnv_def newResponse_def)
  show ?thesis
    using makeRequest_401_without_body [OF req, of "exampleArtifact\<lparr>atDo := (\<lambda>q. Inr exampleDenied)\<rparr>" exampleDenied,
        OF _ e(1) exampleAuth_fields(2) e(2,3)] by (simp add: Let_def d e(4))
qed

end
