(* ===== verification/Middleware.thy ===== *)
theory Middleware
  imports Artifact
begin

text \<open>
  The small middlewares: \<open>internal/rejectmethods\<close>, \<open>internal/urilimiter\<close>, \<open>internal/customheaders\<close>,
  \<open>internal/acme\<close>, \<open>internal/routing\<close> and the request context of \<open>internal/domain/request.go\<close>.  A
  middleware takes the handler it wraps.  The values that routing puts into the request context, the
  host and the domain, are arguments of the handlers behind it (\<open>site_handler\<close>).  A handler that may
  panic (\<open>panicking\<close>) says whether it did, with what it had written until then.
\<close>

type_synonym 's site_handler = "string \<Rightarrow> 's domain option \<Rightarrow> 's http_handler"

type_synonym 's panicking = "request \<Rightarrow> response \<Rightarrow> 's \<Rightarrow> bool \<times> response \<times> 's"

subsection \<open>rejectmethods and urilimiter\<close>

definition acceptedMethods :: "string list" where
  "acceptedMethods = [''GET'', ''HEAD'', ''POST'', ''PUT'', ''PATCH'', ''DELETE'', ''CONNECT'', ''OPTIONS'', ''TRACE'']"

definition rejectMethods :: "'s http_handler \<Rightarrow> 's http_handler" where
  "rejectMethods handler r w s =
     (if rqMethod r \<in> set acceptedMethods then handler r w s else (HttpError (statusText 405) 405 w, s))"

definition limitURI :: "int \<Rightarrow> 's http_handler \<Rightarrow> 's http_handler" where
  "limitURI limit handler =
     (if limit = 0 then handler
      else (\<lambda>r w s. if int (length (rqRequestURI r)) > limit then (Serve414 w, s) else handler r w s))"

subsection \<open>customheaders\<close>

text \<open>The parsed headers, a Go map from the name as written to its values, as the list of its pairs in the
  order in which the map is walked.\<close>

type_synonym custom_headers = "(string \<times> string list) list"

fun appendValue :: "string \<Rightarrow> string \<Rightarrow> custom_headers \<Rightarrow> custom_headers" where
  "appendValue k v [] = [(k, [v])]"
| "appendValue k v ((k', vs) # hs) = (if k' = k then (k', vs @ [v]) # hs else (k', vs) # appendValue k v hs)"

fun parseHeaders :: "string list \<Rightarrow> custom_headers \<Rightarrow> custom_headers res" where
  "parseHeaders [] headers = Inr headers"
| "parseHeaders (keyValueString # rest) headers =
     (case cutAt (CHR '':'') keyValueString of
        None \<Rightarrow> Inl (otherErr ''invalid syntax specified as header parameter'')
      | Some (k, v) \<Rightarrow> parseHeaders rest (appendValue (TrimSpace k) (TrimSpace v) headers))"

definition ParseHeaderString :: "string list \<Rightarrow> custom_headers res" where
  "ParseHeaderString customHeaders = parseHeaders customHeaders []"

definition AddCustomHeaders :: "custom_headers \<Rightarrow> response \<Rightarrow> response" where
  "AddCustomHeaders headers w = fold (\<lambda>(k, vs) w. fold (addHeader k) vs w) headers w"

definition customHeaders :: "custom_headers \<Rightarrow> 's panicking \<Rightarrow> 's panicking" where
  "customHeaders headers handler r w s = handler r (AddCustomHeaders headers w) s"

subsection \<open>acme\<close>

definition isAcmeChallenge :: "string \<Rightarrow> bool" where
  "isAcmeChallenge p \<longleftrightarrow> HasPrefix (Clean p) ''/.well-known/acme-challenge/''"

definition redirectToGitlab :: "string \<Rightarrow> request \<Rightarrow> response \<Rightarrow> bool \<times> response" where
  "redirectToGitlab gitlabURL r w =
     (case ParseURL gitlabURL of
        None \<Rightarrow> (False, w)
      | Some u \<Rightarrow>
          (let query = querySet (querySet (ParseQuery (uRawQuery u)) ''domain'' (FromRequest r))
                 ''token'' (BasePath (uPath (rqURL r)));
               redirectURL = u\<lparr>uPath := ''/-/acme-challenge'', uRawQuery := encodeQuery query\<rparr>
           in (True, Redirect r (URLString redirectURL) 307 w)))"

definition ServeAcmeChallenges ::
  "string option \<Rightarrow> serving_env \<Rightarrow> (serving_kind \<Rightarrow> vfs) \<Rightarrow> 's domain option
    \<Rightarrow> request \<Rightarrow> response \<Rightarrow> 's \<Rightarrow> bool \<times> response \<times> 's"
where
  "ServeAcmeChallenges m senv fs d r w s =
     (case m of
        None \<Rightarrow> (False, w, s)
      | Some gitlabURL \<Rightarrow>
          if \<not> isAcmeChallenge (uPath (rqURL r)) then (False, w, s)
          else (case ServeFileHTTP senv fs d r w s of
              (True, w', s') \<Rightarrow> (False, w', s')
            | (False, w', s') \<Rightarrow>
                (case redirectToGitlab gitlabURL r w' of (handled, w'') \<Rightarrow> (handled, w'', s'))))"

definition AcmeMiddleware ::
  "string option \<Rightarrow> serving_env \<Rightarrow> (serving_kind \<Rightarrow> vfs) \<Rightarrow> 's site_handler \<Rightarrow> 's site_handler"
where
  "AcmeMiddleware m senv fs handler host d r w s =
     (case ServeAcmeChallenges m senv fs d r w s of
        (True, w', s') \<Rightarrow> (w', s')
      | (False, w', s') \<Rightarrow> handler host d r w' s')"

subsection \<open>routing\<close>

definition getHostAndDomain :: "'s domain_source \<Rightarrow> request \<Rightarrow> 's \<Rightarrow> (string \<times> 's domain res outcome) \<times> 's" where
  "getHostAndDomain src r s =
     (let host = GetHostWithoutPort r
      in case src host s of (d, s') \<Rightarrow> ((host, d), s'))"

text \<open>An error of the source comes with a nil domain.\<close>

definition routing :: "'s domain_source \<Rightarrow> 's site_handler \<Rightarrow> 's panicking" where
  "routing src handler r w s =
     (case getHostAndDomain src r s of
        ((host, Panics), s') \<Rightarrow> (True, w, s')
      | ((host, Returns (Inr d)), s') \<Rightarrow> (False, handler host (Some d) r w s')
      | ((host, Returns (Inl err)), s') \<Rightarrow>
          if \<not> errIs err ErrDomainDoesNotExist then (False, Serve502 w, s')
          else (False, handler host None r w s'))"

subsection \<open>Facts\<close>

lemma rHeader_addHeader:
  "rHeader (addHeader k v w) j = (if j = CanonicalHeaderKey k
     then Some (case rHeader w j of None \<Rightarrow> [v] | Some vs \<Rightarrow> vs @ [v]) else rHeader w j)"
  by (simp add: addHeader_def hdrAdd_def split: option.split)

lemma addHeaders_frame [simp]:
  "rSent (fold (addHeader k) vs w) = rSent w" "rBody (fold (addHeader k) vs w) = rBody w"
  by (induction vs arbitrary: w) (simp_all add: addHeader_def)

lemma AddCustomHeaders_frame [simp]:
  "rSent (AddCustomHeaders hs w) = rSent w" "rBody (AddCustomHeaders hs w) = rBody w"
  unfolding AddCustomHeaders_def by (induction hs arbitrary: w) auto

definition headerValues :: "response \<Rightarrow> string \<Rightarrow> string list" where
  "headerValues w j = (case rHeader w j of None \<Rightarrow> [] | Some vs \<Rightarrow> vs)"

lemma addHeaders_values:
  "headerValues (fold (addHeader k) vs w) j = headerValues w j @ (if j = CanonicalHeaderKey k then vs else [])"
  by (induction vs arbitrary: w) (auto simp: headerValues_def rHeader_addHeader split: option.splits)

text \<open>Custom headers are added to what is there, for each canonical name in the order of the walk.\<close>

lemma AddCustomHeaders_values:
  "headerValues (AddCustomHeaders hs w) j
     = headerValues w j @ concat (map (\<lambda>(k, vs). if j = CanonicalHeaderKey k then vs else []) hs)"
  unfolding AddCustomHeaders_def by (induction hs arbitrary: w) (auto simp: addHeaders_values)

lemma redirectToGitlab_sent: "redirectToGitlab g r w = (True, w') \<Longrightarrow> wasSent w'"
  by (auto simp: redirectToGitlab_def Let_def split: option.splits)

end
