(* ===== verification/Config.thy ===== *)
theory Config
  imports Http_Client "HOL-Library.Word" Complex_Main
begin

text \<open>
  Configuration: \<open>internal/config\<close> (flags with several values, the record of all settings, loading,
  validation), \<open>internal/config/tls\<close> and \<open>internal/validateargs\<close>.  The command line is parsed by a
  third-party package; the model starts from the parsed flags.  Reading files and parsing key pairs are
  parameters.  Durations are in nanoseconds, the two rates (\<open>float64\<close>) are rational numbers.  Secrets are
  decoded with a model of \<open>encoding/base64\<close>.
\<close>

subsection \<open>multi_string_flag.go\<close>

text \<open>\<open>strings.Split\<close> with a separator of any length above 0.\<close>

function SplitString :: "string \<Rightarrow> string \<Rightarrow> string list" where
  "SplitString sep [] = [[]]"
| "SplitString sep (c # s) =
     (if sep \<noteq> [] \<and> HasPrefix (c # s) sep then [] # SplitString sep (drop (length sep) (c # s))
      else case SplitString sep s of [] \<Rightarrow> [[c]] | y # ys \<Rightarrow> (c # y) # ys)"
  by pat_completeness auto
termination by (relation "measure (\<lambda>(sep, s). length s)") auto

record multi_string_flag =
  mfValue :: "string list"
  mfSeparator :: string

definition defaultSeparator :: string where "defaultSeparator = '',''"

definition mfSep :: "multi_string_flag \<Rightarrow> string" where
  "mfSep f = (if mfSeparator f = [] then defaultSeparator else mfSeparator f)"

definition mfString :: "multi_string_flag \<Rightarrow> string" where
  "mfString f = Join (mfValue f) (mfSep f)"

definition mfSet :: "string \<Rightarrow> multi_string_flag \<Rightarrow> multi_string_flag res" where
  "mfSet value f =
     (if value = [] then Inl (otherErr ''value cannot be empty'') else Inr (f\<lparr>mfValue := mfValue f @ [value]\<rparr>))"

definition mfSplit :: "multi_string_flag \<Rightarrow> string list" where
  "mfSplit f = concat (map (SplitString (mfSep f)) (mfValue f))"

definition mfLen :: "multi_string_flag \<Rightarrow> nat" where
  "mfLen f = length (mfValue f)"

lemma SplitString_not_Nil [simp]: "SplitString sep s \<noteq> []"
  by (induction sep s rule: SplitString.induct) (auto split: list.split)

lemma Join_SplitString: "Join (SplitString sep s) sep = s"
proof (induction sep s rule: SplitString.induct)
  case (2 sep c s)
  show ?case
  proof (cases "sep \<noteq> [] \<and> HasPrefix (c # s) sep")
    case True
    then have "Join (SplitString sep (c # s)) sep = sep @ drop (length sep) (c # s)"
      using "2.IH"(1) by (simp add: Join_Cons)
    then show ?thesis using True append_TrimPrefix [of "c # s" sep] by (simp add: TrimPrefix_def)
  next
    case False
    obtain y ys where "SplitString sep s = y # ys" by (cases "SplitString sep s") auto
    then show ?thesis using False "2.IH"(2) by (cases ys) auto
  qed
qed simp

subsection \<open>encoding/base64\<close>

definition base64Value :: "char \<Rightarrow> nat option" where
  "base64Value c =
     (let n = of_char c
      in if isUpper c then Some (n - 65)
         else if isLower c then Some (n - 71)
         else if isDigit c then Some (n + 4)
         else if c = CHR ''+'' then Some 62
         else if c = CHR ''/'' then Some 63
         else None)"

text \<open>The bytes of a group of four values.\<close>

definition base64Bytes :: "nat \<Rightarrow> nat \<Rightarrow> nat \<Rightarrow> nat \<Rightarrow> string" where
  "base64Bytes a b c d =
     [char_of (a * 4 + b div 16), char_of ((b mod 16) * 16 + c div 4), char_of ((c mod 4) * 64 + d)]"

text \<open>Groups of four characters; only the last one may be padded.\<close>

fun base64Groups :: "string \<Rightarrow> string option" where
  "base64Groups [] = Some []"
| "base64Groups (a # b # c # d # s) =
     (case (base64Value a, base64Value b) of
        (Some va, Some vb) \<Rightarrow>
          if d = CHR ''='' then
            (if s \<noteq> [] then None
             else if c = CHR ''='' then Some (take 1 (base64Bytes va vb 0 0))
             else (case base64Value c of None \<Rightarrow> None | Some vc \<Rightarrow> Some (take 2 (base64Bytes va vb vc 0))))
          else
            (case (base64Value c, base64Value d) of
               (Some vc, Some vd) \<Rightarrow>
                 (case base64Groups s of None \<Rightarrow> None | Some t \<Rightarrow> Some (base64Bytes va vb vc vd @ t))
             | _ \<Rightarrow> None)
      | _ \<Rightarrow> None)"
| "base64Groups _ = None"

text \<open>Line ends are skipped.\<close>

definition base64Decode :: "string \<Rightarrow> string option" where
  "base64Decode s = base64Groups (filter (\<lambda>c. c \<noteq> CHR 0x0A \<and> c \<noteq> CHR 0x0D) s)"

definition DecodedLen :: "nat \<Rightarrow> nat" where
  "DecodedLen n = n div 4 * 3"

subsection \<open>config/tls\<close>

definition preferredCipherSuites :: "16 word list" where
  "preferredCipherSuites = [0xcca8, 0xcca9, 0xc02f, 0xc02b, 0xc030, 0xc02c, 0x1301, 0x1302, 0x1303]"

definition AllTLSVersions :: "string \<rightharpoonup> 16 word" where
  "AllTLSVersions = [[] \<mapsto> 0, ''tls1.2'' \<mapsto> 0x0303, ''tls1.3'' \<mapsto> 0x0304]"

record 'g tls_config =
  tcGetCertificate :: 'g
  tcCertificates :: "string list"
  tcPreferServerCipherSuites :: bool
  tcCipherSuites :: "16 word list"
  tcMinVersion :: "16 word"
  tcMaxVersion :: "16 word"

definition configureCertificate ::
  "(string \<Rightarrow> string \<Rightarrow> string res) \<Rightarrow> string \<Rightarrow> string \<Rightarrow> 'g tls_config \<Rightarrow> 'g tls_config res"
where
  "configureCertificate x509 cert key c =
     (case x509 cert key of Inl err \<Rightarrow> Inl err | Inr certificate \<Rightarrow> Inr (c\<lparr>tcCertificates := [certificate]\<rparr>))"

definition configureTLSCiphers :: "'g tls_config \<Rightarrow> 'g tls_config" where
  "configureTLSCiphers c = c\<lparr>tcPreferServerCipherSuites := True, tcCipherSuites := preferredCipherSuites\<rparr>"

definition tlsCreate ::
  "(string \<Rightarrow> string \<Rightarrow> string res) \<Rightarrow> string \<Rightarrow> string \<Rightarrow> 'g \<Rightarrow> bool \<Rightarrow> 16 word \<Rightarrow> 16 word \<Rightarrow> 'g tls_config res"
where
  "tlsCreate x509 cert key getCertificate insecureCiphers tlsMinVersion tlsMaxVersion =
     (let tlsConfig = \<lparr>tcGetCertificate = getCertificate, tcCertificates = [], tcPreferServerCipherSuites = False,
            tcCipherSuites = [], tcMinVersion = 0x0303, tcMaxVersion = 0\<rparr>
      in case configureCertificate x509 cert key tlsConfig of
           Inl err \<Rightarrow> Inl err
         | Inr c \<Rightarrow>
             (let c1 = (if \<not> insecureCiphers then configureTLSCiphers c else c)
              in Inr (c1\<lparr>tcMinVersion := tlsMinVersion, tcMaxVersion := tlsMaxVersion\<rparr>)))"

datatype config_error =
    ErrNoListener
  | ErrAuthNoSecret
  | ErrAuthNoClientID
  | ErrAuthNoClientSecret
  | ErrAuthNoGitlabServer
  | ErrAuthNoRedirect
  | ErrArtifactsServerUnsupportedScheme
  | ErrArtifactsServerInvalidTimeout
  | errArtifactsServerURL string
  | errInvalidMinTLS string
  | errInvalidMaxTLS string
  | errMaxBelowMinTLS string string

definition ValidateTLSVersions :: "string \<Rightarrow> string \<Rightarrow> config_error option" where
  "ValidateTLSVersions mn mx =
     (case AllTLSVersions mn of
        None \<Rightarrow> Some (errInvalidMinTLS mn)
      | Some tlsMin \<Rightarrow>
          (case AllTLSVersions mx of
             None \<Rightarrow> Some (errInvalidMaxTLS mx)
           | Some tlsMax \<Rightarrow>
               if tlsMin > tlsMax \<and> tlsMax > 0 then Some (errMaxBelowMinTLS mx mn) else None))"

subsection \<open>flags.go\<close>

record flags =
  flPagesRootCert :: string
  flPagesRootKey :: string
  flRedirectHTTP :: bool
  flPagesRoot :: string
  flPagesDomain :: string
  flRateLimitSourceIP :: rat
  flRateLimitSourceIPBurst :: int
  flRateLimitDomain :: rat
  flRateLimitDomainBurst :: int
  flArtifactsServer :: string
  flArtifactsServerTimeout :: int
  flPagesStatus :: string
  flMetricsAddress :: string
  flSentryDSN :: string
  flSentryEnvironment :: string
  flPropagateCorrelationID :: bool
  flLogFormat :: string
  flLogVerbose :: bool
  flSecret :: string
  flPublicGitLabServer :: string
  flInternalGitLabServer :: string
  flGitLabAPISecretKey :: string
  flGitlabClientHTTPTimeout :: int
  flGitlabClientJWTExpiry :: int
  flGitlabCacheExpiry :: int
  flGitlabCacheRefresh :: int
  flGitlabCacheCleanup :: int
  flGitlabRetrievalTimeout :: int
  flGitlabRetrievalInterval :: int
  flGitlabRetrievalRetries :: int
  flEnableDisk :: bool
  flClientID :: string
  flClientSecret :: string
  flRedirectURI :: string
  flAuthScope :: string
  flMaxConns :: int
  flMaxURILength :: int
  flInsecureCiphers :: bool
  flTlsMinVersion :: string
  flTlsMaxVersion :: string
  flZipCacheExpiration :: int
  flZipCacheCleanup :: int
  flZipCacheRefresh :: int
  flZipOpenTimeout :: int
  flDisableCrossOriginRequests :: bool
  flShowVersion :: bool
  flListenHTTP :: multi_string_flag
  flListenHTTPS :: multi_string_flag
  flListenProxy :: multi_string_flag
  flListenHTTPSProxyv2 :: multi_string_flag
  flHeader :: multi_string_flag

definition seconds :: "int \<Rightarrow> int" where "seconds n = n * 1000000000"

definition emptyFlag :: "string \<Rightarrow> multi_string_flag" where
  "emptyFlag sep = \<lparr>mfValue = [], mfSeparator = sep\<rparr>"

text \<open>The values of a command line without flags.\<close>

definition defaultFlags :: flags where
  "defaultFlags =
     \<lparr>flPagesRootCert = [], flPagesRootKey = [], flRedirectHTTP = False, flPagesRoot = ''shared/pages'',
      flPagesDomain = ''gitlab-example.com'', flRateLimitSourceIP = 0, flRateLimitSourceIPBurst = 100,
      flRateLimitDomain = 0, flRateLimitDomainBurst = 100, flArtifactsServer = [], flArtifactsServerTimeout = 10,
      flPagesStatus = [], flMetricsAddress = [], flSentryDSN = [], flSentryEnvironment = [],
      flPropagateCorrelationID = False, flLogFormat = ''json'', flLogVerbose = False, flSecret = [],
      flPublicGitLabServer = [], flInternalGitLabServer = [], flGitLabAPISecretKey = [],
      flGitlabClientHTTPTimeout = seconds 10, flGitlabClientJWTExpiry = seconds 30,
      flGitlabCacheExpiry = seconds 600, flGitlabCacheRefresh = seconds 60, flGitlabCacheCleanup = seconds 60,
      flGitlabRetrievalTimeout = seconds 30, flGitlabRetrievalInterval = seconds 1, flGitlabRetrievalRetries = 3,
      flEnableDisk = True, flClientID = [], flClientSecret = [], flRedirectURI = [], flAuthScope = ''api'',
      flMaxConns = 0, flMaxURILength = 1024, flInsecureCiphers = False, flTlsMinVersion = ''tls1.2'',
      flTlsMaxVersion = [], flZipCacheExpiration = seconds 60, flZipCacheCleanup = seconds 30,
      flZipCacheRefresh = seconds 30, flZipOpenTimeout = seconds 30, flDisableCrossOriginRequests = False,
      flShowVersion = False, flListenHTTP = emptyFlag '','', flListenHTTPS = emptyFlag '','',
      flListenProxy = emptyFlag '','', flListenHTTPSProxyv2 = emptyFlag '','', flHeader = emptyFlag '';;''\<rparr>"

subsection \<open>config.go\<close>

record general_config =
  gDomain :: string
  gMaxConns :: int
  gMaxURILength :: int
  gMetricsAddress :: string
  gRedirectHTTP :: bool
  gRootCertificate :: string
  gRootDir :: string
  gRootKey :: string
  gStatusPath :: string
  gDisableCrossOriginRequests :: bool
  gInsecureCiphers :: bool
  gPropagateCorrelationID :: bool
  gShowVersion :: bool
  gCustomHeaders :: "string list"

record rate_limit_config =
  rlSourceIPLimitPerSecond :: rat
  rlSourceIPBurst :: int
  rlDomainLimitPerSecond :: rat
  rlDomainBurst :: int

record artifacts_config =
  asURL :: string
  asTimeoutSeconds :: int

record auth_config =
  acSecret :: string
  acClientID :: string
  acClientSecret :: string
  acRedirectURI :: string
  acScope :: string

record cache_config =
  caCacheExpiry :: int
  caCacheCleanupInterval :: int
  caEntryRefreshTimeout :: int
  caRetrievalTimeout :: int
  caMaxRetrievalInterval :: int
  caMaxRetrievalRetries :: int

record gitlab_config =
  glPublicServer :: string
  glInternalServer :: string
  glAPISecretKey :: string
  glClientHTTPTimeout :: int
  glJWTTokenExpiration :: int
  glCache :: cache_config
  glEnableDisk :: bool

record listeners =
  lsHTTP :: "nat list"
  lsHTTPS :: "nat list"
  lsProxy :: "nat list"
  lsHTTPSProxyv2 :: "nat list"

record log_config =
  lgFormat :: string
  lgVerbose :: bool

record sentry_config =
  seDSN :: string
  seEnvironment :: string

record tls_versions =
  tvMinVersion :: "16 word"
  tvMaxVersion :: "16 word"

record zip_serving_config =
  zcExpirationInterval :: int
  zcCleanupInterval :: int
  zcRefreshInterval :: int
  zcOpenTimeout :: int
  zcAllowedPaths :: "string list"

record config =
  cfGeneral :: general_config
  cfRateLimit :: rate_limit_config
  cfArtifactsServer :: artifacts_config
  cfAuthentication :: auth_config
  cfGitLab :: gitlab_config
  cfListeners :: listeners
  cfLog :: log_config
  cfSentry :: sentry_config
  cfTLS :: tls_versions
  cfZip :: zip_serving_config
  cfListenMetrics :: nat
  cfListenHTTPStrings :: multi_string_flag
  cfListenHTTPSStrings :: multi_string_flag
  cfListenProxyStrings :: multi_string_flag
  cfListenHTTPSProxyv2Strings :: multi_string_flag

definition internalGitlabServerFromFlags :: "flags \<Rightarrow> string" where
  "internalGitlabServerFromFlags f =
     (if flInternalGitLabServer f \<noteq> [] then flInternalGitLabServer f else flPublicGitLabServer f)"

text \<open>The decoded buffer has room for \<open>DecodedLen\<close> bytes, and all of it becomes the key.\<close>

definition decodeSecret :: "string \<Rightarrow> (string \<times> nat) option" where
  "decodeSecret encoded =
     (case base64Decode encoded of
        None \<Rightarrow> None
      | Some t \<Rightarrow> Some (t @ replicate (DecodedLen (length encoded) - length t) (CHR 0x00), length t))"

definition setGitLabAPISecretKey ::
  "(string \<Rightarrow> string res) \<Rightarrow> string \<Rightarrow> gitlab_config \<Rightarrow> gitlab_config res"
where
  "setGitLabAPISecretKey readFile secretFile c =
     (if secretFile = [] then Inr c
      else case readFile secretFile of
          Inl err \<Rightarrow> Inl (errWrapped ''reading secret file'' err)
        | Inr encoded \<Rightarrow>
            (case decodeSecret encoded of
               None \<Rightarrow> Inl (otherErr ''decoding GitLab API secret'')
             | Some (decoded, secretLength) \<Rightarrow>
                 if secretLength \<noteq> 32 then Inl (otherErr ''expected 32 bytes GitLab API secret'')
                 else Inr (c\<lparr>glAPISecretKey := decoded\<rparr>)))"

definition readFileIfSet :: "(string \<Rightarrow> string res) \<Rightarrow> string \<Rightarrow> string res" where
  "readFileIfSet readFile p = (if p = [] then Inr [] else readFile p)"

definition generalFromFlags :: "flags \<Rightarrow> string \<Rightarrow> string \<Rightarrow> general_config" where
  "generalFromFlags f cert key =
     \<lparr>gDomain = ToLower (flPagesDomain f), gMaxConns = flMaxConns f, gMaxURILength = flMaxURILength f,
      gMetricsAddress = flMetricsAddress f, gRedirectHTTP = flRedirectHTTP f, gRootCertificate = cert,
      gRootDir = flPagesRoot f, gRootKey = key, gStatusPath = flPagesStatus f,
      gDisableCrossOriginRequests = flDisableCrossOriginRequests f, gInsecureCiphers = flInsecureCiphers f,
      gPropagateCorrelationID = flPropagateCorrelationID f, gShowVersion = flShowVersion f,
      gCustomHeaders = mfSplit (flHeader f)\<rparr>"

definition gitlabFromFlags :: "flags \<Rightarrow> gitlab_config" where
  "gitlabFromFlags f =
     \<lparr>glPublicServer = flPublicGitLabServer f, glInternalServer = internalGitlabServerFromFlags f,
      glAPISecretKey = [], glClientHTTPTimeout = flGitlabClientHTTPTimeout f,
      glJWTTokenExpiration = flGitlabClientJWTExpiry f,
      glCache = \<lparr>caCacheExpiry = flGitlabCacheExpiry f, caCacheCleanupInterval = flGitlabCacheCleanup f,
                 caEntryRefreshTimeout = flGitlabCacheRefresh f, caRetrievalTimeout = flGitlabRetrievalTimeout f,
                 caMaxRetrievalInterval = flGitlabRetrievalInterval f,
                 caMaxRetrievalRetries = flGitlabRetrievalRetries f\<rparr>,
      glEnableDisk = flEnableDisk f\<rparr>"

text \<open>A version that is not in the table reads as 0; \<open>Validate\<close> refuses it later.\<close>

definition tlsVersion :: "string \<Rightarrow> 16 word" where
  "tlsVersion v = (case AllTLSVersions v of None \<Rightarrow> 0 | Some n \<Rightarrow> n)"

definition loadConfig :: "(string \<Rightarrow> string res) \<Rightarrow> flags \<Rightarrow> config res" where
  "loadConfig readFile f =
     (case readFileIfSet readFile (flPagesRootCert f) of
        Inl err \<Rightarrow> Inl err
      | Inr cert \<Rightarrow>
          (case readFileIfSet readFile (flPagesRootKey f) of
             Inl err \<Rightarrow> Inl err
           | Inr key \<Rightarrow>
               (case setGitLabAPISecretKey readFile (flGitLabAPISecretKey f) (gitlabFromFlags f) of
                  Inl err \<Rightarrow> Inl err
                | Inr gitlab \<Rightarrow>
                    Inr \<lparr>cfGeneral = generalFromFlags f cert key,
                         cfRateLimit = \<lparr>rlSourceIPLimitPerSecond = flRateLimitSourceIP f,
                           rlSourceIPBurst = flRateLimitSourceIPBurst f,
                           rlDomainLimitPerSecond = flRateLimitDomain f, rlDomainBurst = flRateLimitDomainBurst f\<rparr>,
                         cfArtifactsServer = \<lparr>asURL = flArtifactsServer f, asTimeoutSeconds = flArtifactsServerTimeout f\<rparr>,
                         cfAuthentication = \<lparr>acSecret = flSecret f, acClientID = flClientID f,
                           acClientSecret = flClientSecret f, acRedirectURI = flRedirectURI f, acScope = flAuthScope f\<rparr>,
                         cfGitLab = gitlab,
                         cfListeners = \<lparr>lsHTTP = [], lsHTTPS = [], lsProxy = [], lsHTTPSProxyv2 = []\<rparr>,
                         cfLog = \<lparr>lgFormat = flLogFormat f, lgVerbose = flLogVerbose f\<rparr>,
                         cfSentry = \<lparr>seDSN = flSentryDSN f, seEnvironment = flSentryEnvironment f\<rparr>,
                         cfTLS = \<lparr>tvMinVersion = tlsVersion (flTlsMinVersion f), tvMaxVersion = tlsVersion (flTlsMaxVersion f)\<rparr>,
                         cfZip = \<lparr>zcExpirationInterval = flZipCacheExpiration f, zcCleanupInterval = flZipCacheCleanup f,
                           zcRefreshInterval = flZipCacheRefresh f, zcOpenTimeout = flZipOpenTimeout f,
                           zcAllowedPaths = [flPagesRoot f]\<rparr>,
                         cfListenMetrics = 0, cfListenHTTPStrings = flListenHTTP f,
                         cfListenHTTPSStrings = flListenHTTPS f, cfListenProxyStrings = flListenProxy f,
                         cfListenHTTPSProxyv2Strings = flListenHTTPSProxyv2 f\<rparr>)))"

text \<open>\<open>LogConfig\<close>: the fields it logs.\<close>

datatype log_value = LString string | LInt int | LBool bool | LFlag multi_string_flag

definition LogConfig :: "flags \<Rightarrow> config \<Rightarrow> (string \<times> log_value) list" where
  "LogConfig f c =
     [(''artifacts-server'', LString (flArtifactsServer f)),
      (''artifacts-server-timeout'', LInt (flArtifactsServerTimeout f)),
      (''default-config-filename'', LString ''config''),
      (''disable-cross-origin-requests'', LBool (flDisableCrossOriginRequests f)),
      (''domain'', LString (gDomain (cfGeneral c))),
      (''insecure-ciphers'', LBool (gInsecureCiphers (cfGeneral c))),
      (''listen-http'', LFlag (flListenHTTP f)),
      (''listen-https'', LFlag (flListenHTTPS f)),
      (''listen-proxy'', LFlag (flListenProxy f)),
      (''listen-https-proxyv2'', LFlag (flListenHTTPSProxyv2 f)),
      (''log-format'', LString (flLogFormat f)),
      (''metrics-address'', LString (flMetricsAddress f)),
      (''pages-domain'', LString (flPagesDomain f)),
      (''pages-root'', LString (flPagesRoot f)),
      (''pages-status'', LString (flPagesStatus f)),
      (''propagate-correlation-id'', LBool (flPropagateCorrelationID f)),
      (''redirect-http'', LBool (gRedirectHTTP (cfGeneral c))),
      (''root-cert'', LString (flPagesRootKey f)),
      (''root-key'', LString (flPagesRootCert f)),
      (''status_path'', LString (gStatusPath (cfGeneral c))),
      (''tls-min-version'', LString (flTlsMinVersion f)),
      (''tls-max-version'', LString (flTlsMaxVersion f)),
      (''gitlab-server'', LString (glPublicServer (cfGitLab c))),
      (''internal-gitlab-server'', LString (glInternalServer (cfGitLab c))),
      (''api-secret-key'', LString (flGitLabAPISecretKey f)),
      (''enable-disk'', LBool (glEnableDisk (cfGitLab c))),
      (''auth-redirect-uri'', LString (acRedirectURI (cfAuthentication c))),
      (''auth-scope'', LString (acScope (cfAuthentication c))),
      (''max-conns'', LInt (gMaxConns (cfGeneral c))),
      (''max-uri-length'', LInt (gMaxURILength (cfGeneral c))),
      (''zip-cache-expiration'', LInt (zcExpirationInterval (cfZip c))),
      (''zip-cache-cleanup'', LInt (zcCleanupInterval (cfZip c))),
      (''zip-cache-refresh'', LInt (zcRefreshInterval (cfZip c))),
      (''zip-open-timeout'', LInt (zcOpenTimeout (cfZip c)))]"

subsection \<open>validate.go\<close>

text \<open>Errors are collected (\<open>go-multierror\<close>); the empty list is nil.\<close>

definition validateListeners :: "config \<Rightarrow> config_error list" where
  "validateListeners c =
     (if mfLen (cfListenHTTPStrings c) = 0 \<and> mfLen (cfListenHTTPSStrings c) = 0
         \<and> mfLen (cfListenHTTPSProxyv2Strings c) = 0 \<and> mfLen (cfListenProxyStrings c) = 0
      then [ErrNoListener] else [])"

definition validateAuthConfig :: "config \<Rightarrow> config_error list" where
  "validateAuthConfig c =
     (let a = cfAuthentication c
      in if acSecret a = [] \<and> acClientID a = [] \<and> acClientSecret a = [] \<and> acRedirectURI a = [] then []
         else (if acSecret a = [] then [ErrAuthNoSecret] else [])
           @ (if acClientID a = [] then [ErrAuthNoClientID] else [])
           @ (if acClientSecret a = [] then [ErrAuthNoClientSecret] else [])
           @ (if glPublicServer (cfGitLab c) = [] then [ErrAuthNoGitlabServer] else [])
           @ (if acRedirectURI a = [] then [ErrAuthNoRedirect] else []))"

definition validateArtifactsServerConfig :: "config \<Rightarrow> config_error list" where
  "validateArtifactsServerConfig c =
     (let a = cfArtifactsServer c
      in if asURL a = [] then []
         else case ParseURL (asURL a) of
             None \<Rightarrow> [errArtifactsServerURL (asURL a)]
           | Some u \<Rightarrow>
               (if uScheme u \<noteq> ''http'' \<and> uScheme u \<noteq> ''https'' then [ErrArtifactsServerUnsupportedScheme] else [])
               @ (if asTimeoutSeconds a < 1 then [ErrArtifactsServerInvalidTimeout] else []))"

definition Validate :: "flags \<Rightarrow> config \<Rightarrow> config_error list" where
  "Validate f c =
     validateListeners c @ validateAuthConfig c @ validateArtifactsServerConfig c
     @ (case ValidateTLSVersions (flTlsMinVersion f) (flTlsMaxVersion f) of None \<Rightarrow> [] | Some err \<Rightarrow> [err])"

subsection \<open>validateargs\<close>

definition deprecatedArgs :: "string list" where
  "deprecatedArgs = [''-sentry-dsn'']"

definition notAllowedArgs :: "string list" where
  "notAllowedArgs = [''-auth-client-id'', ''-auth-client-secret'', ''-auth-secret'', ''-auth-scope'']"

text \<open>The options found, which the error message lists; none is no error.\<close>

definition validateArgs :: "string list \<Rightarrow> string list \<Rightarrow> string list" where
  "validateArgs args invalidArgs = filter (\<lambda>invalidArg. Contains (Join args '' '') invalidArg) invalidArgs"

definition Deprecated :: "string list \<Rightarrow> string list" where
  "Deprecated args = validateArgs args deprecatedArgs"

definition NotAllowed :: "string list \<Rightarrow> string list" where
  "NotAllowed args = validateArgs args notAllowedArgs"

subsection \<open>What a loaded configuration looks like\<close>

lemma base64Groups_length:
  "base64Groups s = Some t \<Longrightarrow> length s mod 4 = 0 \<and> length t \<le> length s div 4 * 3 \<and> length s div 4 * 3 < length t + 3"
proof (induction s arbitrary: t rule: base64Groups.induct)
  case (2 a b c d s)
  show ?case
  proof (cases "d = CHR ''=''")
    case True
    then show ?thesis using "2.prems" by (auto simp: base64Bytes_def split: option.splits if_splits)
  next
    case False
    obtain va vb vc vd t' where v: "base64Value a = Some va" "base64Value b = Some vb" "base64Value c = Some vc"
      "base64Value d = Some vd" "base64Groups s = Some t'" "t = base64Bytes va vb vc vd @ t'"
      using "2.prems" False by (auto split: option.splits)
    have "length s mod 4 = 0 \<and> length t' \<le> length s div 4 * 3 \<and> length s div 4 * 3 < length t' + 3"
      using "2.IH" [OF refl v(1,2) False refl v(3,4,5)] by simp
    moreover have "length (a # b # c # d # s) = length s + 4" "length t = length t' + 3"
      using v(6) by (simp_all add: base64Bytes_def)
    ultimately show ?thesis by (simp add: mod_add_right_eq)
  qed
qed auto

lemma groups_of_32:
  assumes "n mod 4 = 0" and "32 \<le> n div 4 * 3" and "n div 4 * 3 < 35"
  shows "n = (44::nat)"
proof -
  have "n div 4 = 11" using assms(2,3) by linarith
  then show ?thesis using assms(1) mult_div_mod_eq [of 4 n] by simp
qed

lemma buffer_of_44: "44 \<le> n \<Longrightarrow> 33 \<le> n div 4 * (3::nat)"
  using div_le_mono [of 44 n 4] by simp

text \<open>
  The key used to sign requests to the GitLab API is not the 32 decoded bytes alone: whenever a key
  file is accepted, the key has at least 33 bytes, the 32 decoded ones and zero bytes for the rest of the
  decoding buffer.
\<close>

theorem setGitLabAPISecretKey_padded:
  assumes "setGitLabAPISecretKey readFile p c = Inr c'" and "p \<noteq> []"
  shows "\<exists>encoded key. readFile p = Inr encoded \<and> base64Decode encoded = Some key \<and> length key = 32
    \<and> glAPISecretKey c' = key @ replicate (length encoded div 4 * 3 - 32) (CHR 0x00)
    \<and> length (glAPISecretKey c') \<ge> 33"
proof -
  obtain encoded where r: "readFile p = Inr encoded"
    using assms by (cases "readFile p") (simp_all add: setGitLabAPISecretKey_def)
  obtain key where d: "base64Decode encoded = Some key"
    using assms r by (cases "base64Decode encoded") (simp_all add: setGitLabAPISecretKey_def decodeSecret_def)
  have l: "length key = 32"
    using assms r d by (simp add: setGitLabAPISecretKey_def decodeSecret_def split: if_splits)
  have "c' = c\<lparr>glAPISecretKey := key @ replicate (DecodedLen (length encoded) - 32) (CHR 0x00)\<rparr>"
    using assms r d l by (simp add: setGitLabAPISecretKey_def decodeSecret_def)
  then have k: "glAPISecretKey c' = key @ replicate (DecodedLen (length encoded) - 32) (CHR 0x00)" by simp
  note e = r d l k
  obtain t where t: "t = filter (\<lambda>c. c \<noteq> CHR 0x0A \<and> c \<noteq> CHR 0x0D) encoded" by blast
  have "base64Groups t = Some key" using d by (simp only: base64Decode_def t)
  then have "length t = 44" using base64Groups_length [of t key] l groups_of_32 by simp
  moreover have "length t \<le> length encoded" by (simp only: t length_filter_le)
  ultimately have "33 \<le> length encoded div 4 * 3" using buffer_of_44 by simp
  then have "length (glAPISecretKey c') \<ge> 33" by (simp only: k l length_append length_replicate DecodedLen_def)
  with e show ?thesis unfolding DecodedLen_def by blast
qed

definition exampleKeyFile :: "string \<Rightarrow> string res" where
  "exampleKeyFile p = Inr (replicate 43 (CHR ''A'') @ ''='')"

theorem setGitLabAPISecretKey_padded_witness:
  "\<exists>c'. setGitLabAPISecretKey exampleKeyFile ''/key'' (gitlabFromFlags defaultFlags) = Inr c'
    \<and> length (glAPISecretKey c') \<ge> 33"
proof -
  have "isl (setGitLabAPISecretKey exampleKeyFile ''/key'' (gitlabFromFlags defaultFlags)) = False" by code_simp
  then obtain c' where "setGitLabAPISecretKey exampleKeyFile ''/key'' (gitlabFromFlags defaultFlags) = Inr c'"
    by (cases "setGitLabAPISecretKey exampleKeyFile ''/key'' (gitlabFromFlags defaultFlags)") auto
  then show ?thesis using setGitLabAPISecretKey_padded [of exampleKeyFile "''/key''" "gitlabFromFlags defaultFlags" c'] by auto
qed

text \<open>
  C35: a configuration passes validation exactly when it has a listener, when authentication is configured
  completely or not at all, when the artifacts server, if any, is an HTTP URL with a time-out of at least a
  second, and when both TLS versions are known and in order.
\<close>

theorem Validate_iff:
  "Validate f c = [] \<longleftrightarrow>
     (mfValue (cfListenHTTPStrings c) \<noteq> [] \<or> mfValue (cfListenHTTPSStrings c) \<noteq> []
        \<or> mfValue (cfListenHTTPSProxyv2Strings c) \<noteq> [] \<or> mfValue (cfListenProxyStrings c) \<noteq> [])
     \<and> ([] \<notin> {acSecret (cfAuthentication c), acClientID (cfAuthentication c), acClientSecret (cfAuthentication c),
              acRedirectURI (cfAuthentication c), glPublicServer (cfGitLab c)}
        \<or> {acSecret (cfAuthentication c), acClientID (cfAuthentication c), acClientSecret (cfAuthentication c),
            acRedirectURI (cfAuthentication c)} = {[]})
     \<and> (asURL (cfArtifactsServer c) = []
        \<or> (\<exists>u. ParseURL (asURL (cfArtifactsServer c)) = Some u \<and> uScheme u \<in> {''http'', ''https''})
            \<and> asTimeoutSeconds (cfArtifactsServer c) \<ge> 1)
     \<and> (\<exists>mn mx. AllTLSVersions (flTlsMinVersion f) = Some mn \<and> AllTLSVersions (flTlsMaxVersion f) = Some mx
        \<and> (mn \<le> mx \<or> mx = 0))"
proof -
  have l: "validateListeners c = [] \<longleftrightarrow> mfValue (cfListenHTTPStrings c) \<noteq> [] \<or> mfValue (cfListenHTTPSStrings c) \<noteq> []
      \<or> mfValue (cfListenHTTPSProxyv2Strings c) \<noteq> [] \<or> mfValue (cfListenProxyStrings c) \<noteq> []"
    by (auto simp: validateListeners_def mfLen_def)
  have a: "validateAuthConfig c = [] \<longleftrightarrow>
      [] \<notin> {acSecret (cfAuthentication c), acClientID (cfAuthentication c), acClientSecret (cfAuthentication c),
        acRedirectURI (cfAuthentication c), glPublicServer (cfGitLab c)}
      \<or> {acSecret (cfAuthentication c), acClientID (cfAuthentication c), acClientSecret (cfAuthentication c),
        acRedirectURI (cfAuthentication c)} = {[]}"
    by (auto simp: validateAuthConfig_def Let_def)
  have s: "validateArtifactsServerConfig c = [] \<longleftrightarrow> asURL (cfArtifactsServer c) = []
      \<or> (\<exists>u. ParseURL (asURL (cfArtifactsServer c)) = Some u \<and> uScheme u \<in> {''http'', ''https''})
        \<and> asTimeoutSeconds (cfArtifactsServer c) \<ge> 1"
    unfolding validateArtifactsServerConfig_def Let_def
    by (cases "ParseURL (asURL (cfArtifactsServer c))") auto
  have t: "ValidateTLSVersions (flTlsMinVersion f) (flTlsMaxVersion f) = None \<longleftrightarrow>
      (\<exists>mn mx. AllTLSVersions (flTlsMinVersion f) = Some mn \<and> AllTLSVersions (flTlsMaxVersion f) = Some mx
        \<and> (mn \<le> mx \<or> mx = 0))"
    unfolding ValidateTLSVersions_def
    by (cases "AllTLSVersions (flTlsMinVersion f)"; cases "AllTLSVersions (flTlsMaxVersion f)")
      (auto simp: not_less word_gt_0)
  have "Validate f c = [] \<longleftrightarrow> validateListeners c = [] \<and> validateAuthConfig c = []
      \<and> validateArtifactsServerConfig c = [] \<and> ValidateTLSVersions (flTlsMinVersion f) (flTlsMaxVersion f) = None"
    unfolding Validate_def by (cases "ValidateTLSVersions (flTlsMinVersion f) (flTlsMaxVersion f)") auto
  then show ?thesis unfolding l a s t .
qed

definition exampleFlags :: flags where
  "exampleFlags = defaultFlags\<lparr>flListenHTTP := \<lparr>mfValue = ['':80''], mfSeparator = '',''\<rparr>\<rparr>"

theorem Validate_iff_witness:
  "\<exists>c. loadConfig exampleKeyFile exampleFlags = Inr c \<and> Validate exampleFlags c = []"
proof -
  have f: "flPagesRootCert exampleFlags = []" "flPagesRootKey exampleFlags = []" "flGitLabAPISecretKey exampleFlags = []"
    "mfValue (flListenHTTP exampleFlags) = ['':80'']" "flSecret exampleFlags = []" "flClientID exampleFlags = []"
    "flClientSecret exampleFlags = []" "flRedirectURI exampleFlags = []" "flArtifactsServer exampleFlags = []"
    "flTlsMinVersion exampleFlags = ''tls1.2''" "flTlsMaxVersion exampleFlags = []"
    by (simp_all add: exampleFlags_def defaultFlags_def)
  obtain c where c: "loadConfig exampleKeyFile exampleFlags = Inr c"
    by (simp add: loadConfig_def readFileIfSet_def setGitLabAPISecretKey_def f)
  have "cfListenHTTPStrings c = flListenHTTP exampleFlags" "asURL (cfArtifactsServer c) = []"
    "acSecret (cfAuthentication c) = []" "acClientID (cfAuthentication c) = []"
    "acClientSecret (cfAuthentication c) = []" "acRedirectURI (cfAuthentication c) = []"
    using c by (auto simp: loadConfig_def readFileIfSet_def setGitLabAPISecretKey_def f)
  then have "Validate exampleFlags c = []" unfolding Validate_iff by (simp add: f AllTLSVersions_def)
  with c show ?thesis by blast
qed

text \<open>The start-up log shows the path of the key file as \<open>root-cert\<close> and the path of the certificate file
  as \<open>root-key\<close>.\<close>

lemma LogConfig_swapped:
  "map_of (LogConfig f c) ''root-cert'' = Some (LString (flPagesRootKey f))
    \<and> map_of (LogConfig f c) ''root-key'' = Some (LString (flPagesRootCert f))"
  by (simp add: LogConfig_def)

end
