(* ===== verification/Rate_Limiter.thy ===== *)
theory Rate_Limiter
  imports Middleware Config Caches
begin

text \<open>
  Rate limits, \<open>internal/ratelimiter\<close>.  A rate limiter keeps one token bucket per key (the address of the
  client or the host asked) in an LRU cache.  The token bucket is \<open>golang.org/x/time/rate\<close>, a parameter
  with an operation to create one and \<open>AllowN(now, 1)\<close>.  The cache holds pointers to buckets, which
  the limiter changes; a pointer is a number, and \<open>lsBuckets\<close> is the memory behind the pointers.  The clock
  is the parameter \<open>now\<close>.  Metrics and logging are left out.
\<close>

subsection \<open>State\<close>

record 'b bucket_ops =
  bkNew :: "rat \<Rightarrow> int \<Rightarrow> 'b"
  bkAllow :: "gotime \<Rightarrow> 'b \<Rightarrow> bool \<times> 'b"

record ('c, 'b) limiter_state =
  lsCache :: 'c
  lsBuckets :: "nat \<Rightarrow> 'b"
  lsNext :: nat

record ('c, 'b) rate_limiter =
  rlName :: string
  rlKeyFunc :: "request \<Rightarrow> string"
  rlLimitPerSecond :: rat
  rlBurstSize :: int
  rlEnforce :: bool
  rlCacheMaxSize :: int
  rlCache :: "('c, nat) ccache"
  rlBucket :: "'b bucket_ops"

definition defaultCacheExpirationInterval :: int where
  "defaultCacheExpirationInterval = 60 * 1000000000"

definition DefaultSourceIPCacheSize :: int where "DefaultSourceIPCacheSize = 5000"

definition DefaultDomainCacheSize :: int where "DefaultDomainCacheSize = 4000"

subsection \<open>ratelimiter.go\<close>

text \<open>An option changes a limiter.\<close>

type_synonym ('c, 'b) limiter_option = "('c, 'b) rate_limiter \<Rightarrow> ('c, 'b) rate_limiter"

definition WithLimitPerSecond :: "rat \<Rightarrow> ('c, 'b) limiter_option" where
  "WithLimitPerSecond limit rl = rl\<lparr>rlLimitPerSecond := limit\<rparr>"

definition WithBurstSize :: "int \<Rightarrow> ('c, 'b) limiter_option" where
  "WithBurstSize burst rl = rl\<lparr>rlBurstSize := burst\<rparr>"

definition WithCacheMaxSize :: "int \<Rightarrow> ('c, 'b) limiter_option" where
  "WithCacheMaxSize sz rl = rl\<lparr>rlCacheMaxSize := sz\<rparr>"

definition WithKeyFunc :: "(request \<Rightarrow> string) \<Rightarrow> ('c, 'b) limiter_option" where
  "WithKeyFunc f rl = rl\<lparr>rlKeyFunc := f\<rparr>"

definition WithEnforce :: "bool \<Rightarrow> ('c, 'b) limiter_option" where
  "WithEnforce enforce rl = rl\<lparr>rlEnforce := enforce\<rparr>"

text \<open>\<open>New\<close>; a cache without the option has 1000 entries.\<close>

definition newRateLimiter ::
  "('c, nat) ccache \<Rightarrow> 'b bucket_ops \<Rightarrow> string \<Rightarrow> ('c, 'b) limiter_option list \<Rightarrow> ('c, 'b) rate_limiter"
where
  "newRateLimiter cc bk name opts =
     fold (\<lambda>opt rl. opt rl) opts
       \<lparr>rlName = name, rlKeyFunc = GetRemoteAddrWithoutPort, rlLimitPerSecond = 0, rlBurstSize = 0,
        rlEnforce = False, rlCacheMaxSize = 1000, rlCache = cc, rlBucket = bk\<rparr>"

lemmas limiter_options = newRateLimiter_def WithLimitPerSecond_def WithBurstSize_def WithCacheMaxSize_def
  WithKeyFunc_def WithEnforce_def

text \<open>\<open>limiter\<close>: the pointer to the bucket of a key.  The bucket that the fetch function would create gets
  the next free pointer, which is used up only if the cache missed.\<close>

definition limiter ::
  "('c, 'b) rate_limiter \<Rightarrow> gotime \<Rightarrow> string \<Rightarrow> ('c, 'b) limiter_state \<Rightarrow> nat \<times> ('c, 'b) limiter_state"
where
  "limiter rl now key st =
     (case FindOrFetch (rlCache rl) now defaultCacheExpirationInterval key key (Inr (lsNext st)) (lsCache st) of
        (Inr p, c) \<Rightarrow>
          if p = lsNext st
          then (p, st\<lparr>lsCache := c, lsNext := Suc p,
                     lsBuckets := (lsBuckets st)(p := bkNew (rlBucket rl) (rlLimitPerSecond rl) (rlBurstSize rl))\<rparr>)
          else (p, st\<lparr>lsCache := c\<rparr>)
      | (Inl err, c) \<Rightarrow> (0, st\<lparr>lsCache := c\<rparr>))"

definition requestAllowed ::
  "('c, 'b) rate_limiter \<Rightarrow> gotime \<Rightarrow> request \<Rightarrow> ('c, 'b) limiter_state \<Rightarrow> bool \<times> ('c, 'b) limiter_state"
where
  "requestAllowed rl now r st =
     (case limiter rl now (rlKeyFunc rl r) st of
        (p, st') \<Rightarrow>
          (case bkAllow (rlBucket rl) now (lsBuckets st' p) of
             (allowed, b) \<Rightarrow> (allowed, st'\<lparr>lsBuckets := (lsBuckets st')(p := b)\<rparr>)))"

subsection \<open>middleware.go\<close>

text \<open>The middleware works on any state from which the state of the limiter can be read (\<open>get\<close>) and into
  which it can be put back.\<close>

definition rateLimit ::
  "('c, 'b) rate_limiter \<Rightarrow> gotime \<Rightarrow> ('s \<Rightarrow> ('c, 'b) limiter_state) \<Rightarrow> (('c, 'b) limiter_state \<Rightarrow> 's \<Rightarrow> 's)
    \<Rightarrow> 's panicking \<Rightarrow> 's panicking"
where
  "rateLimit rl now get put handler =
     (if rlLimitPerSecond rl \<le> 0 then handler
      else (\<lambda>r w s.
        case requestAllowed rl now r (get s) of
          (allowed, st) \<Rightarrow>
            if allowed then handler r w (put st s)
            else if rlEnforce rl then (False, Serve429 w, put st s)
            else handler r w (put st s)))"

subsection \<open>One bucket per key\<close>

lemma twice_inj: "x @ x = y @ y \<longleftrightarrow> x = (y :: 'a list)"
proof
  assume e: "x @ x = y @ y"
  have "length x + length x = length y + length y" using arg_cong [OF e, of length] by simp
  then have "length x = length y" by linarith
  then show "x = y" using e by simp
qed simp

text \<open>Every cached pointer is in use, and different keys have different pointers.\<close>

definition limiter_ok :: "('c, 'b) rate_limiter \<Rightarrow> ('c, 'b) limiter_state \<Rightarrow> bool" where
  "limiter_ok rl st \<longleftrightarrow>
     (\<forall>k p e. fst (ccGet (rlCache rl) k (lsCache st)) = Some (p, e) \<longrightarrow> p < lsNext st)
     \<and> (\<forall>k k' p e e'. fst (ccGet (rlCache rl) k (lsCache st)) = Some (p, e)
          \<and> fst (ccGet (rlCache rl) k' (lsCache st)) = Some (p, e') \<longrightarrow> k = k')"

text \<open>The bucket of a key with its expiry, as far as the cache still has it.\<close>

definition keyBucket :: "('c, 'b) rate_limiter \<Rightarrow> ('c, 'b) limiter_state \<Rightarrow> string \<Rightarrow> ('b \<times> gotime) option" where
  "keyBucket rl st k =
     map_option (\<lambda>(p, e). (lsBuckets st p, e)) (fst (ccGet (rlCache rl) (k @ k) (lsCache st)))"

text \<open>The reference behaviour: the bucket of the key if it has one that is not expired, or a new one.\<close>

definition currentBucket :: "('c, 'b) rate_limiter \<Rightarrow> gotime \<Rightarrow> ('c, 'b) limiter_state \<Rightarrow> string \<Rightarrow> 'b" where
  "currentBucket rl now st k =
     (case keyBucket rl st k of
        Some (b, e) \<Rightarrow> if e < now then bkNew (rlBucket rl) (rlLimitPerSecond rl) (rlBurstSize rl) else b
      | None \<Rightarrow> bkNew (rlBucket rl) (rlLimitPerSecond rl) (rlBurstSize rl))"

lemma ccache_laws:
  assumes "ccache_ok cc"
  shows "fst (ccGet cc k' (snd (ccGet cc k c))) = Some i \<Longrightarrow> fst (ccGet cc k' c) = Some i"
    and "fst (ccGet cc k' (ccSet cc k v e c)) = Some i \<Longrightarrow> (if k' = k then i = (v, e) else fst (ccGet cc k' c) = Some i)"
  using assms unfolding ccache_ok_def by blast+

text \<open>What the cache holds after a lookup of a key: the pointer returned under that key, and under the other
  keys what it held before.\<close>

lemma limiter_step:
  assumes "ccache_ok (rlCache rl)" and "limiter_ok rl st" and "limiter rl now k st = (p, st')"
  shows "p < lsNext st'" and "lsNext st \<le> lsNext st'"
    and "lsBuckets st' p = currentBucket rl now st k"
    and "\<And>q. q < lsNext st \<Longrightarrow> q \<noteq> p \<Longrightarrow> lsBuckets st' q = lsBuckets st q"
    and "\<And>j q e. fst (ccGet (rlCache rl) j (lsCache st')) = Some (q, e) \<Longrightarrow>
      (j = k @ k \<longrightarrow> q = p) \<and> (j \<noteq> k @ k \<longrightarrow> fst (ccGet (rlCache rl) j (lsCache st)) = Some (q, e) \<and> q \<noteq> p)"
proof -
  let ?g = "\<lambda>j c. fst (ccGet (rlCache rl) j c)"
  obtain item c1 where g: "ccGet (rlCache rl) (k @ k) (lsCache st) = (item, c1)" by fastforce
  have c1: "?g j c1 = Some i \<Longrightarrow> ?g j (lsCache st) = Some i" for j i
    using ccache_laws(1) [OF assms(1), of j "k @ k" "lsCache st" i] g by simp
  have used: "?g j (lsCache st) = Some (q, e) \<Longrightarrow> q < lsNext st" for j q e
    using assms(2) unfolding limiter_ok_def by blast
  have inj: "?g j (lsCache st) = Some (q, e) \<Longrightarrow> ?g j' (lsCache st) = Some (q, e') \<Longrightarrow> j = j'" for j j' q e e'
    using assms(2) unfolding limiter_ok_def by blast
  have "p < lsNext st' \<and> lsNext st \<le> lsNext st' \<and> lsBuckets st' p = currentBucket rl now st k
    \<and> (\<forall>q. q < lsNext st \<and> q \<noteq> p \<longrightarrow> lsBuckets st' q = lsBuckets st q)
    \<and> (\<forall>j q e. ?g j (lsCache st') = Some (q, e) \<longrightarrow>
        (j = k @ k \<longrightarrow> q = p) \<and> (j \<noteq> k @ k \<longrightarrow> ?g j (lsCache st) = Some (q, e) \<and> q \<noteq> p))"
  proof (cases "\<exists>q e. item = Some (q, e) \<and> \<not> e < now")
    case True
    then obtain q e where i: "item = Some (q, e)" "\<not> e < now" by blast
    have q: "?g (k @ k) (lsCache st) = Some (q, e)" using g i by simp
    have st': "p = q" "st' = st\<lparr>lsCache := c1\<rparr>"
      using assms(3) g i used [OF q] by (auto simp: limiter_def FindOrFetch_def)
    have "currentBucket rl now st k = lsBuckets st q" using q i by (simp add: currentBucket_def keyBucket_def)
    then show ?thesis using st' used [OF q] c1 q inj by fastforce
  next
    case False
    have st': "p = lsNext st" "lsNext st' = Suc p"
      "lsBuckets st' = (lsBuckets st)(p := bkNew (rlBucket rl) (rlLimitPerSecond rl) (rlBurstSize rl))"
      "lsCache st' = ccSet (rlCache rl) (k @ k) p (now + defaultCacheExpirationInterval) c1"
      using assms(3) g False by (cases item; auto simp: limiter_def FindOrFetch_def Let_def split: if_splits)+
    have "currentBucket rl now st k = bkNew (rlBucket rl) (rlLimitPerSecond rl) (rlBurstSize rl)"
      using g False by (auto simp: currentBucket_def keyBucket_def split: option.split)
    moreover have "(j = k @ k \<longrightarrow> q = p) \<and> (j \<noteq> k @ k \<longrightarrow> ?g j (lsCache st) = Some (q, e) \<and> q \<noteq> p)"
      if "?g j (lsCache st') = Some (q, e)" for j q e
      using ccache_laws(2) [OF assms(1), of j "k @ k" p "now + defaultCacheExpirationInterval" c1 "(q, e)"] that
        c1 [of j "(q, e)"] used [of j q e] st'(1,4) by (auto split: if_splits)
    ultimately show ?thesis using st' by simp
  qed
  then show "p < lsNext st'" and "lsNext st \<le> lsNext st'" and "lsBuckets st' p = currentBucket rl now st k"
    and "\<And>q. q < lsNext st \<Longrightarrow> q \<noteq> p \<Longrightarrow> lsBuckets st' q = lsBuckets st q"
    and "\<And>j q e. ?g j (lsCache st') = Some (q, e) \<Longrightarrow>
      (j = k @ k \<longrightarrow> q = p) \<and> (j \<noteq> k @ k \<longrightarrow> ?g j (lsCache st) = Some (q, e) \<and> q \<noteq> p)"
    by blast+
qed

lemma limiter_keeps_ok:
  assumes "ccache_ok (rlCache rl)" and "limiter_ok rl st" and "limiter rl now k st = (p, st')"
  shows "limiter_ok rl st'"
proof -
  note step = limiter_step [OF assms]
  have "q < lsNext st'" if "fst (ccGet (rlCache rl) j (lsCache st')) = Some (q, e)" for j q e
  proof (cases "j = k @ k")
    case False
    then have "q < lsNext st" using step(5) [OF that] assms(2) unfolding limiter_ok_def by blast
    then show ?thesis using step(2) by linarith
  qed (use step(1) step(5) [OF that] in blast)
  moreover have "j = j'" if "fst (ccGet (rlCache rl) j (lsCache st')) = Some (q, e)"
    "fst (ccGet (rlCache rl) j' (lsCache st')) = Some (q, e')" for j j' q e e'
    using step(5) [OF that(1)] step(5) [OF that(2)] assms(2) unfolding limiter_ok_def by blast
  ultimately show ?thesis unfolding limiter_ok_def by blast
qed

text \<open>
  C25: a rate limiter is one token bucket per key: a request is allowed exactly when the bucket of its key
  allows it, the bucket being a new one when the cache has none or has kept it for more than its minute; the
  buckets of other keys are not touched, at most forgotten by the cache.
\<close>

theorem requestAllowed_per_key:
  assumes "ccache_ok (rlCache rl)" and "limiter_ok rl st" and "requestAllowed rl now r st = (allowed, st')"
    and "k = rlKeyFunc rl r"
  shows "limiter_ok rl st'
    \<and> allowed = fst (bkAllow (rlBucket rl) now (currentBucket rl now st k))
    \<and> (\<forall>b e. keyBucket rl st' k = Some (b, e) \<longrightarrow> b = snd (bkAllow (rlBucket rl) now (currentBucket rl now st k)))
    \<and> (\<forall>k'. k' \<noteq> k \<longrightarrow> keyBucket rl st' k' \<in> {None, keyBucket rl st k'})"
proof -
  obtain p st1 where l: "limiter rl now k st = (p, st1)" by fastforce
  note step = limiter_step [OF assms(1,2) l]
  obtain b where b: "bkAllow (rlBucket rl) now (currentBucket rl now st k) = (allowed, b)"
    and st': "st' = st1\<lparr>lsBuckets := (lsBuckets st1)(p := b)\<rparr>"
    using assms(3,4) l step(3) by (auto simp: requestAllowed_def split: prod.splits)
  have "limiter_ok rl st'" using limiter_keeps_ok [OF assms(1,2) l] st' by (simp add: limiter_ok_def)
  moreover have "b' = b" if "keyBucket rl st' k = Some (b', e)" for b' e
    using that step(5) [of "k @ k"] st' by (auto simp: keyBucket_def)
  moreover have "keyBucket rl st' k' \<in> {None, keyBucket rl st k'}" if "k' \<noteq> k" for k'
  proof (cases "fst (ccGet (rlCache rl) (k' @ k') (lsCache st1))")
    case (Some i)
    obtain q e where i: "i = (q, e)" by fastforce
    have q: "fst (ccGet (rlCache rl) (k' @ k') (lsCache st)) = Some (q, e)" "q \<noteq> p"
      using step(5) [OF Some [unfolded i]] that by (auto simp: twice_inj)
    then have "q < lsNext st" using assms(2) unfolding limiter_ok_def by blast
    then show ?thesis using q Some i st' step(4) [of q] by (simp add: keyBucket_def)
  qed (simp add: keyBucket_def st')
  ultimately show ?thesis using b by auto
qed

text \<open>A bucket that holds a number of tokens and is never refilled, for examples.\<close>

definition countBucket :: "int bucket_ops" where
  "countBucket = \<lparr>bkNew = (\<lambda>limit burst. burst), bkAllow = (\<lambda>now b. if b \<ge> 1 then (True, b - 1) else (False, b))\<rparr>"

definition exampleLimiter :: "(string \<Rightarrow> (nat \<times> gotime) option, int) rate_limiter" where
  "exampleLimiter = newRateLimiter mapCache countBucket ''source_ip''
     [WithCacheMaxSize DefaultSourceIPCacheSize, WithLimitPerSecond 1, WithBurstSize 1, WithEnforce True]"

definition exampleLimiterState :: "(string \<Rightarrow> (nat \<times> gotime) option, int) limiter_state" where
  "exampleLimiterState = \<lparr>lsCache = Map.empty, lsBuckets = (\<lambda>_. 0), lsNext = 0\<rparr>"

lemma exampleLimiter_ok: "ccache_ok (rlCache exampleLimiter)" "limiter_ok exampleLimiter exampleLimiterState"
  by (simp_all add: exampleLimiter_def limiter_options ccache_ok_def mapCache_def limiter_ok_def exampleLimiterState_def)

theorem requestAllowed_per_key_witness:
  "fst (requestAllowed exampleLimiter 0 (exampleGet ''a.example'' ''/'') exampleLimiterState)
    \<and> limiter_ok exampleLimiter (snd (requestAllowed exampleLimiter 0 (exampleGet ''a.example'' ''/'') exampleLimiterState))"
proof -
  obtain x st' where x: "requestAllowed exampleLimiter 0 (exampleGet ''a.example'' ''/'') exampleLimiterState = (x, st')"
    by fastforce
  have "fst (bkAllow (rlBucket exampleLimiter) 0 (currentBucket exampleLimiter 0 exampleLimiterState k))" for k
    by (simp add: currentBucket_def keyBucket_def exampleLimiter_def limiter_options exampleLimiterState_def
        mapCache_def countBucket_def)
  then show ?thesis using requestAllowed_per_key [OF exampleLimiter_ok x refl] x by simp
qed

subsection \<open>The middleware\<close>

text \<open>A limiter that is switched off or only reports does not change what a request is answered with, and
  an enforced one answers what it refuses with status 429 without running the handler.\<close>

lemma rateLimit_off: "rlLimitPerSecond rl \<le> 0 \<Longrightarrow> rateLimit rl now get put handler = handler"
  by (simp add: rateLimit_def)

lemma rateLimit_cases:
  assumes "requestAllowed rl now r (get s) = (allowed, st)" and "rlLimitPerSecond rl > 0"
  shows "rateLimit rl now get put handler r w s =
    (if \<not> allowed \<and> rlEnforce rl then (False, Serve429 w, put st s) else handler r w (put st s))"
  using assms by (simp add: rateLimit_def)

end
