(* ===== verification/App.thy ===== *)
theory App
  imports Rate_Limiter
begin

text \<open>
  The application, \<open>app.go\<close>: the handlers of its own and the pipeline that puts all middlewares together,
  and \<open>internal/handlers/ratelimiter.go\<close>.  The third-party middlewares for cross-origin requests (\<open>rs/cors\<close>) and for proxy headers
  (\<open>gorilla/handlers\<close>) are parameters: the first may answer a request or add headers and pass it on, the
  second rewrites the request.  Access logs, metrics and correlation identifiers do not change the response
  and are left out; the access log looks up the project once more after the response.
\<close>

subsection \<open>State and environment\<close>

record 's the_app =
  apConfig :: config
  apSource :: "'s domain_source"
  apArtifact :: "artifact option"
  apAuth :: "auth option"
  apAcme :: "string option"
  apCustomHeaders :: custom_headers

record site_env =
  svServing :: serving_env
  svFiles :: "serving_kind \<Rightarrow> vfs"
  svAuth :: auth_env
  svCors :: "request \<Rightarrow> response \<Rightarrow> bool \<times> response"

text \<open>The state of the pipeline: that of the source of domains and those of the two rate limiters.\<close>

record ('s, 'c, 'b) pipeline_state =
  psSource :: 's
  psSourceIP :: "('c, 'b) limiter_state"
  psDomain :: "('c, 'b) limiter_state"

record ('c, 'b) limiter_env =
  leNow :: gotime
  leCache :: "('c, nat) ccache"
  leBucket :: "'b bucket_ops"

definition isReady :: "'s the_app \<Rightarrow> bool" where "isReady a = True"

subsection \<open>Certificates\<close>

definition ServeTLS ::
  "(string \<Rightarrow> string \<Rightarrow> string res) \<Rightarrow> 's the_app \<Rightarrow> string \<Rightarrow> 's \<Rightarrow> string option outcome \<times> 's"
where
  "ServeTLS x509 a serverName s =
     (if serverName = [] then (Returns None, s)
      else case apSource a serverName s of
          (Panics, s') \<Rightarrow> (Panics, s')
        | (Returns (Inl err), s') \<Rightarrow> (Returns None, s')
        | (Returns (Inr d), s') \<Rightarrow> (Returns (fst (fst (EnsureCertificate x509 (Some d)))), s'))"

definition TLSConfig ::
  "(string \<Rightarrow> string \<Rightarrow> string res) \<Rightarrow> 's the_app
    \<Rightarrow> (string \<Rightarrow> 's \<Rightarrow> string option outcome \<times> 's) tls_config res"
where
  "TLSConfig x509 a =
     (let g = cfGeneral (apConfig a)
      in tlsCreate x509 (gRootCertificate g) (gRootKey g) (ServeTLS x509 a) (gInsecureCiphers g)
           (tvMinVersion (cfTLS (apConfig a))) (tvMaxVersion (cfTLS (apConfig a))))"

subsection \<open>Handlers of the application\<close>

definition httpsURL :: "request \<Rightarrow> url" where
  "httpsURL r = (rqURL r)\<lparr>uScheme := ''https'', uHost := rqHost r, uUser := None\<rparr>"

definition redirectToHTTPS :: "request \<Rightarrow> nat \<Rightarrow> response \<Rightarrow> response" where
  "redirectToHTTPS r statusCode w = Redirect r (URLString (httpsURL r)) statusCode w"

definition checkAuthAndServeNotFound ::
  "'s the_app \<Rightarrow> site_env \<Rightarrow> 's domain option \<Rightarrow> request \<Rightarrow> response \<Rightarrow> 's \<Rightarrow> response \<times> 's"
where
  "checkAuthAndServeNotFound a env d r w s =
     (case CheckAuthenticationWithoutProject (apAuth a) (svAuth env) (svServing env) (svFiles env) d r w s of
        (True, w', s') \<Rightarrow> (w', s')
      | (False, w', s') \<Rightarrow> ServeNotFoundAuthFailed (svServing env) (svFiles env) d r w' s')"

definition tryAuxiliaryHandlers ::
  "'s the_app \<Rightarrow> site_env \<Rightarrow> bool \<Rightarrow> string \<Rightarrow> 's domain option \<Rightarrow> request \<Rightarrow> response \<Rightarrow> 's \<Rightarrow> bool \<times> response \<times> 's"
where
  "tryAuxiliaryHandlers a env https host d r w s =
     (if \<not> https \<and> gRedirectHTTP (cfGeneral (apConfig a)) then (True, redirectToHTTPS r 307 w, s)
      else case HandleArtifactRequest (apAuth a) (svAuth env) (apArtifact a) host r w of
          (True, w') \<Rightarrow> (True, w', s)
        | (False, w') \<Rightarrow>
            if \<not> isReady a then (True, Serve503 w', s)
            else (case GetLookupPath d r s of
                (Inl err, s') \<Rightarrow>
                  if errIs err ErrDiskDisabled then (True, Serve500 w', s')
                  else (True, checkAuthAndServeNotFound a env d r w' s')
              | (Inr lp, s') \<Rightarrow>
                  if https then (False, w', s')
                  else (case IsHTTPSOnly d r s' of
                      (True, s'') \<Rightarrow> (True, redirectToHTTPS r 301 w', s'')
                    | (False, s'') \<Rightarrow> (False, w', s''))))"

definition auxiliaryMiddleware :: "'s the_app \<Rightarrow> site_env \<Rightarrow> 's site_handler \<Rightarrow> 's site_handler" where
  "auxiliaryMiddleware a env handler host d r w s =
     (case tryAuxiliaryHandlers a env (IsHTTPS r) host d r w s of
        (True, w', s') \<Rightarrow> (w', s')
      | (False, w', s') \<Rightarrow> handler host d r w' s')"

definition serveFileOrNotFoundHandler :: "'s the_app \<Rightarrow> site_env \<Rightarrow> 's site_handler" where
  "serveFileOrNotFoundHandler a env host d r w s =
     (case ServeFileHTTP (svServing env) (svFiles env) d r w s of
        (True, w', s') \<Rightarrow> (w', s')
      | (False, w', s') \<Rightarrow>
          (case IsNamespaceProject d r s' of
             (True, s1) \<Rightarrow>
               (case CheckAuthenticationWithoutProject (apAuth a) (svAuth env) (svServing env) (svFiles env) d r w' s1 of
                  (True, w'', s2) \<Rightarrow> (w'', s2)
                | (False, w'', s2) \<Rightarrow> ServeNotFoundHTTP (svServing env) (svFiles env) d r w'' s2)
           | (False, s1) \<Rightarrow> ServeNotFoundHTTP (svServing env) (svFiles env) d r w' s1))"

definition healthCheckMiddleware :: "'s the_app \<Rightarrow> 't panicking \<Rightarrow> 't panicking" where
  "healthCheckMiddleware a handler r w s =
     (if rqRequestURI r = gStatusPath (cfGeneral (apConfig a))
      then (False,
            (if isReady a then WriteChunk (Bytes ''success\<newline>'') w else HttpError ''not yet ready'' 503 w), s)
      else handler r w s)"

definition setRequestScheme :: "request \<Rightarrow> request" where
  "setRequestScheme r =
     (if uScheme (rqURL r) = ''https'' \<or> rqTLS r
      then r\<lparr>rqURL := (rqURL r)\<lparr>uScheme := ''https''\<rparr>\<rparr> else r\<lparr>rqURL := (rqURL r)\<lparr>uScheme := ''http''\<rparr>\<rparr>)"

definition httpInitialMiddleware :: "'t http_handler \<Rightarrow> 't http_handler" where
  "httpInitialMiddleware handler r w s = handler (setRequestScheme r) w s"

definition proxyInitialMiddleware :: "'t http_handler \<Rightarrow> 't http_handler" where
  "proxyInitialMiddleware handler r w s =
     (let forwardedHost = hdrGet (rqHeader r) ''X-Forwarded-Host''
      in handler (if forwardedHost = [] then r else r\<lparr>rqHost := forwardedHost\<rparr>) w s)"

definition handlePanicMiddleware :: "'t panicking \<Rightarrow> 't http_handler" where
  "handlePanicMiddleware handler r w s =
     (case handler r w s of (panicked, w', s') \<Rightarrow> if panicked then (Serve500 w', s') else (w', s'))"

subsection \<open>The pipeline\<close>

definition corsMiddleware :: "'s the_app \<Rightarrow> site_env \<Rightarrow> 's site_handler \<Rightarrow> 's site_handler" where
  "corsMiddleware a env handler host d r w s =
     (if gDisableCrossOriginRequests (cfGeneral (apConfig a)) then handler host d r w s
      else case svCors env r w of
          (True, w') \<Rightarrow> (w', s)
        | (False, w') \<Rightarrow> handler host d r w' s)"

text \<open>The handlers behind routing.\<close>

definition authorized :: "'s the_app \<Rightarrow> site_env \<Rightarrow> 's site_handler" where
  "authorized a env host d =
     AuthorizationMiddleware (apAuth a) (svAuth env) (svServing env) (svFiles env) d
       (corsMiddleware a env (serveFileOrNotFoundHandler a env) host d)"

definition authenticated :: "'s the_app \<Rightarrow> site_env \<Rightarrow> 's site_handler" where
  "authenticated a env host d =
     AuthenticationMiddleware (apAuth a) (svAuth env) (apSource a)
       (auxiliaryMiddleware a env (authorized a env) host d)"

definition siteHandler :: "'s the_app \<Rightarrow> site_env \<Rightarrow> 's site_handler" where
  "siteHandler a env = AcmeMiddleware (apAcme a) (svServing env) (svFiles env) (authenticated a env)"

definition sourceIPLimiter :: "environ \<Rightarrow> ('c, 'b) limiter_env \<Rightarrow> rate_limit_config \<Rightarrow> ('c, 'b) rate_limiter" where
  "sourceIPLimiter getenv le c =
     newRateLimiter (leCache le) (leBucket le) ''source_ip''
       [WithCacheMaxSize DefaultSourceIPCacheSize, WithLimitPerSecond (rlSourceIPLimitPerSecond c),
        WithBurstSize (rlSourceIPBurst c), WithEnforce (Enabled getenv EnforceIPRateLimits)]"

definition domainLimiter :: "environ \<Rightarrow> ('c, 'b) limiter_env \<Rightarrow> rate_limit_config \<Rightarrow> ('c, 'b) rate_limiter" where
  "domainLimiter getenv le c =
     newRateLimiter (leCache le) (leBucket le) ''domain''
       [WithCacheMaxSize DefaultDomainCacheSize, WithKeyFunc GetHostWithoutPort,
        WithLimitPerSecond (rlDomainLimitPerSecond c), WithBurstSize (rlDomainBurst c),
        WithEnforce (Enabled getenv EnforceDomainRateLimits)]"

definition Ratelimiter ::
  "environ \<Rightarrow> ('c, 'b) limiter_env \<Rightarrow> rate_limit_config
    \<Rightarrow> ('s, 'c, 'b) pipeline_state panicking \<Rightarrow> ('s, 'c, 'b) pipeline_state panicking"
where
  "Ratelimiter getenv le c handler =
     rateLimit (domainLimiter getenv le c) (leNow le) psDomain (\<lambda>x st. st\<lparr>psDomain := x\<rparr>)
       (rateLimit (sourceIPLimiter getenv le c) (leNow le) psSourceIP (\<lambda>x st. st\<lparr>psSourceIP := x\<rparr>) handler)"

text \<open>A handler on the state of the source, in the pipeline.\<close>

definition onSource :: "'s panicking \<Rightarrow> ('s, 'c, 'b) pipeline_state panicking" where
  "onSource handler r w st =
     (case handler r w (psSource st) of (panicked, w', s') \<Rightarrow> (panicked, w', st\<lparr>psSource := s'\<rparr>))"

definition buildHandlerPipeline ::
  "'s the_app \<Rightarrow> site_env \<Rightarrow> ('c, 'b) limiter_env \<Rightarrow> ('s, 'c, 'b) pipeline_state http_handler"
where
  "buildHandlerPipeline a env le =
     (let c = apConfig a;
          h1 = onSource (routing (apSource a) (siteHandler a env));
          h2 = Ratelimiter (seGetenv (svServing env)) le (cfRateLimit c) h1;
          h3 = healthCheckMiddleware a h2;
          h4 = customHeaders (apCustomHeaders a) h3;
          h5 = handlePanicMiddleware h4
      in rejectMethods (limitURI (gMaxURILength (cfGeneral c)) h5))"

subsection \<open>Who sees a private site\<close>

text \<open>GitLab says, asked with the access token of the session of the request, that the project may be seen.\<close>

definition mayAccess :: "auth option \<Rightarrow> request \<Rightarrow> nat \<Rightarrow> bool" where
  "mayAccess auth r projectID \<longleftrightarrow>
     (\<exists>a st token q resp. auth = Some a \<and> auGet a r = (st, None) \<and> sValues st ''access_token'' = Some token
        \<and> NewRequest ''GET'' (accessURL a projectID) [] = Inr q
        \<and> auDo a (addRequestHeader ''Authorization'' (''Bearer '' @ token) q) = Inr resp \<and> irStatus resp = 200)"

text \<open>Two file systems have the same content for every project without access control.\<close>

definition publicAgree :: "'s resolver \<Rightarrow> 's \<Rightarrow> (serving_kind \<Rightarrow> vfs) \<Rightarrow> (serving_kind \<Rightarrow> vfs) \<Rightarrow> bool" where
  "publicAgree res s fs fs' \<longleftrightarrow>
     (\<forall>r req. fst (res r s) = Inr req \<and> \<not> lpHasAccessControl (srLookupPath req) \<longrightarrow>
        fs (srServing req) (lpPath (srLookupPath req)) (lpSHA256 (srLookupPath req))
        = fs' (srServing req) (lpPath (srLookupPath req)) (lpSHA256 (srLookupPath req)))"

lemma requestServeNotFoundHTTP_cong:
  assumes "fs (srServing req) (lpPath (srLookupPath req)) (lpSHA256 (srLookupPath req))
    = fs' (srServing req) (lpPath (srLookupPath req)) (lpSHA256 (srLookupPath req))"
  shows "requestServeNotFoundHTTP env fs req r w = requestServeNotFoundHTTP env fs' req r w"
  using assms by (simp add: requestServeNotFoundHTTP_def diskServeNotFoundHTTP_def tryNotFound_def readerRoot_def
      requestHandler_def)

lemma publicAgree_same: "publicAgree res s fs fs' \<Longrightarrow> sameAnswers res s s' \<Longrightarrow> publicAgree res s' fs fs'"
  by (simp add: publicAgree_def sameAnswers_def)

context stable_resolver
begin

lemma auth_failed_agree:
  assumes "dmResolver dm = res" and "publicAgree res s fs fs'"
  shows "ServeNotFoundAuthFailed env fs (Some dm) r w s = ServeNotFoundAuthFailed env fs' (Some dm) r w s"
proof -
  obtain x s1 where g: "GetLookupPath (Some dm) r s = (x, s1)" by fastforce
  have s1: "sameAnswers res s s1" using lookup_same [OF assms(1), of s r] g by simp
  obtain ns s2 where n: "IsNamespaceProject (Some dm) r s1 = (ns, s2)" by fastforce
  have "sameAnswers res s s2" using sameAnswers_trans [OF s1] flags_same(3) [OF assms(1), of s1 r] n by simp
  then have p: "publicAgree res s2 fs fs'" and same: "fst (res r s2) = fst (res r s)"
    using publicAgree_same [OF assms(2)] by (simp_all add: sameAnswers_def)
  have "serveNamespaceNotFound env fs dm r w s2 = serveNamespaceNotFound env fs' dm r w s2"
  proof -
    let ?r = "r\<lparr>rqURL := (rqURL r)\<lparr>uPath := ''/''\<rparr>\<rparr>"
    obtain y s3 where y: "res ?r s2 = (y, s3)" by fastforce
    have "requestServeNotFoundHTTP env fs req r w = requestServeNotFoundHTTP env fs' req r w"
      if "y = Inr req" "\<not> lpHasAccessControl (srLookupPath req)" for req
      using p y that by (intro requestServeNotFoundHTTP_cong) (metis fst_conv publicAgree_def)
    then show ?thesis using assms(1) y by (cases y) (auto simp: serveNamespaceNotFound_def Let_def)
  qed
  moreover have "ServeNotFoundHTTP env fs (Some dm) r w s2 = ServeNotFoundHTTP env fs' (Some dm) r w s2"
    if "x = Inr lp" "\<not> lpHasAccessControl lp" for lp
  proof -
    obtain y s3 where y: "res r s2 = (y, s3)" by fastforce
    have "\<not> lpHasAccessControl (srLookupPath req)" if "y = Inr req" for req
      using g \<open>x = Inr lp\<close> \<open>\<not> lpHasAccessControl lp\<close> same y that assms(1)
      by (auto simp: GetLookupPath_def domainResolve_def split: prod.splits sum.splits)
    then have "requestServeNotFoundHTTP env fs req r w = requestServeNotFoundHTTP env fs' req r w" if "y = Inr req" for req
      using p y that by (intro requestServeNotFoundHTTP_cong) (metis fst_conv publicAgree_def)
    then show ?thesis using assms(1) y by (cases y) (auto simp: ServeNotFoundHTTP_def domainResolve_def)
  qed
  ultimately show ?thesis using g n by (cases x) (auto simp: ServeNotFoundAuthFailed_def)
qed

lemma check_agree:
  assumes "dmResolver dm = res" and "publicAgree res s fs fs'"
  shows "CheckAuthentication auth env senv fs (Some dm) r w s = CheckAuthentication auth env senv fs' (Some dm) r w s"
proof -
  have "ServeNotFoundAuthFailed senv fs (Some dm) r w' (snd (GetProjectID (Some dm) r s))
      = ServeNotFoundAuthFailed senv fs' (Some dm) r w' (snd (GetProjectID (Some dm) r s))" for w'
    using auth_failed_agree [OF assms(1)] publicAgree_same [OF assms(2) flags_same(4) [OF assms(1), of s r]] by blast
  then show ?thesis
    by (auto simp: CheckAuthentication_def checkAuthentication_def split: option.split prod.split sum.split bool.split)
qed

lemma check_passes:
  assumes "dmResolver dm = res" and "fst (res r s) = Inr req"
    and "CheckAuthentication auth env senv fs (Some dm) r w s = (False, w', s')"
  shows "mayAccess auth r (lpProjectID (srLookupPath req))"
proof -
  obtain a where a: "auth = Some a" "checkAuthentication a env senv fs (Some dm) r w s = (False, w', s')"
    using assms(3) by (cases auth) (auto simp: CheckAuthentication_def)
  have "fst (GetProjectID (Some dm) r s) = lpProjectID (srLookupPath req)"
    using assms(1,2) by (auto simp: GetProjectID_def GetLookupPath_def domainResolve_def split: prod.split sum.split)
  then show ?thesis using checkAuthentication_passes [OF a(2)] a(1) unfolding mayAccess_def by auto
qed

end

lemma TryAuthenticate_passes:
  "TryAuthenticate auth env domains r w s = (False, w', s') \<Longrightarrow> w' = w \<and> s' = s"
  by (auto simp: TryAuthenticate_def handleProxyingAuth_def dest!: checkSession_some
      split: option.splits prod.splits if_splits)

lemma HandleArtifactRequest_passes: "HandleArtifactRequest auth env art host r w = (False, w') \<Longrightarrow> w' = w"
  by (auto simp: HandleArtifactRequest_def GetTokenIfExists_def TryMakeRequest_def dest!: checkSession_some
      split: option.splits prod.splits if_splits)

lemma GetLookupPath_resolved:
  assumes "fst (dmResolver dm r s) = Inr req"
  shows "GetLookupPath (Some dm) r s = (Inr (srLookupPath req), snd (dmResolver dm r s))"
  using assms by (cases "dmResolver dm r s") (simp add: GetLookupPath_def domainResolve_def)

text \<open>A request that the auxiliary handlers pass on, when its project can be resolved.\<close>

lemma tryAuxiliaryHandlers_resolved:
  assumes "GetLookupPath d r s = (Inr lp, s1)"
  shows "tryAuxiliaryHandlers a env https host d r w s =
    (if \<not> https \<and> gRedirectHTTP (cfGeneral (apConfig a)) then (True, redirectToHTTPS r 307 w, s)
     else if fst (HandleArtifactRequest (apAuth a) (svAuth env) (apArtifact a) host r w)
       then (True, snd (HandleArtifactRequest (apAuth a) (svAuth env) (apArtifact a) host r w), s)
     else if https then (False, w, s1)
     else if fst (IsHTTPSOnly d r s1) then (True, redirectToHTTPS r 301 w, snd (IsHTTPSOnly d r s1))
     else (False, w, snd (IsHTTPSOnly d r s1)))"
proof -
  obtain b w1 where h: "HandleArtifactRequest (apAuth a) (svAuth env) (apArtifact a) host r w = (b, w1)" by fastforce
  obtain o1 s2 where i: "IsHTTPSOnly d r s1 = (o1, s2)" by fastforce
  have "\<not> b \<Longrightarrow> w1 = w" using HandleArtifactRequest_passes h by (cases b) auto
  then show ?thesis unfolding tryAuxiliaryHandlers_def isReady_def assms h by (cases b; cases o1) (simp_all add: i)
qed

lemma tryAuxiliaryHandlers_passes:
  assumes "stable_resolver res" and "dmResolver dm = res" and "fst (res r s) = Inr req"
    and "tryAuxiliaryHandlers a env https host (Some dm) r w s = (False, w', s')"
  shows "w' = w \<and> sameAnswers res s s'"
proof -
  obtain lp s1 where g: "GetLookupPath (Some dm) r s = (Inr lp, s1)"
    using GetLookupPath_resolved [of dm r s req] assms(2,3) by simp
  let ?s2 = "snd (IsHTTPSOnly (Some dm) r s1)"
  have s1: "sameAnswers res s s1" using stable_resolver.lookup_same [OF assms(1,2), of s r] g by simp
  have s2: "sameAnswers res s ?s2"
    by (rule sameAnswers_trans [OF s1 stable_resolver.flags_same(1) [OF assms(1,2)]])
  have "w' = w \<and> (s' = s1 \<or> s' = ?s2)"
    using assms(4) [unfolded tryAuxiliaryHandlers_resolved [OF g]] by (simp split: if_split_asm)
  then show ?thesis using s1 s2 by (elim conjE disjE) simp_all
qed

lemma tryAuxiliaryHandlers_files:
  assumes "dmResolver dm = res" and "fst (res r s) = Inr req"
  shows "tryAuxiliaryHandlers a (env\<lparr>svFiles := fs\<rparr>) https host (Some dm) r w s
    = tryAuxiliaryHandlers a (env\<lparr>svFiles := fs'\<rparr>) https host (Some dm) r w s"
proof -
  obtain lp s1 where g: "GetLookupPath (Some dm) r s = (Inr lp, s1)"
    using GetLookupPath_resolved [of dm r s req] assms by simp
  show ?thesis unfolding tryAuxiliaryHandlers_resolved [OF g] by simp
qed

lemma authorized_files:
  assumes "stable_resolver res" and "dmResolver dm = res" and "fst (res r s) = Inr req"
    and "lpHasAccessControl (srLookupPath req)"
    and "\<not> mayAccess (apAuth a) r (lpProjectID (srLookupPath req))" and "publicAgree res s fs fs'"
  shows "authorized a (env\<lparr>svFiles := fs\<rparr>) host (Some dm) r w s = authorized a (env\<lparr>svFiles := fs'\<rparr>) host (Some dm) r w s"
proof -
  obtain s1 where i: "IsAccessControlEnabled (Some dm) r s = (True, s1)"
    using GetLookupPath_resolved [of dm r s req] assms(2,3,4) by (simp add: IsAccessControlEnabled_def)
  have s1: "sameAnswers res s s1" using stable_resolver.flags_same(2) [OF assms(1,2), of s r] i by simp
  have same: "fst (res r s1) = Inr req" using s1 assms(3) by (simp add: sameAnswers_def)
  let ?check = "\<lambda>fs. CheckAuthentication (apAuth a) (svAuth env) (svServing env) fs (Some dm) r w s1"
  obtain b w2 s2 where c: "?check fs = (b, w2, s2)" by (cases "?check fs")
  have "b" by (rule ccontr) (use stable_resolver.check_passes [OF assms(1,2) same] assms(5) c in auto)
  moreover have "?check fs' = (b, w2, s2)"
    using c stable_resolver.check_agree [OF assms(1,2) publicAgree_same [OF assms(6) s1]] by metis
  ultimately show ?thesis using c i by (simp add: authorized_def AuthorizationMiddleware_def)
qed


definition exampleApp :: "unit the_app" where
  "exampleApp = \<lparr>apConfig = projr (loadConfig exampleKeyFile exampleFlags),
     apSource = (\<lambda>name s. (Returns (Inl ErrDomainDoesNotExist), s)), apArtifact = None, apAuth = None,
     apAcme = Some ''https://gitlab.example'', apCustomHeaders = []\<rparr>"

definition exampleSiteEnv :: site_env where
  "exampleSiteEnv = \<lparr>svServing = exampleEnv, svFiles = (\<lambda>k p h. Inl ErrNotExist), svAuth = exampleAuthEnv,
     svCors = (\<lambda>r w. (False, w))\<rparr>"

definition privateRequest :: serving_request where
  "privateRequest = \<lparr>srServing = zipInstance, srLookupPath = exampleLookup\<lparr>lpHasAccessControl := True\<rparr>, srSubPath = ''public/index.html''\<rparr>"


text \<open>
  C28: the check of access fails open: if the lookup made for the access check fails, for whatever reason, the
  request goes on to the file handler without a check, and that handler looks the project up again.
\<close>

theorem access_check_fails_open:
  assumes "domainResolve d r s = (Inl err, s1)" and "domainResolve d r s1 = (Inr req, s2)"
    and "requestServeFileHTTP (svServing env) (svFiles env) req r w = (True, w')"
    and "gDisableCrossOriginRequests (cfGeneral (apConfig a))"
  shows "authorized a env host d r w s = (w', s2)"
proof -
  have "IsAccessControlEnabled d r s = (False, s1)"
    using assms(1) by (simp add: IsAccessControlEnabled_def GetLookupPath_def)
  moreover have "ServeFileHTTP (svServing env) (svFiles env) d r w s1 = (True, w', s2)"
    using assms(2,3) by (simp add: ServeFileHTTP_def)
  ultimately show ?thesis
    using assms(4) by (simp add: authorized_def AuthorizationMiddleware_def corsMiddleware_def serveFileOrNotFoundHandler_def)
qed

text \<open>A resolver that fails once and then finds a private project.\<close>

definition flakyResolver :: "bool resolver" where
  "flakyResolver r s = (if s then Inl DeadlineExceeded else Inr privateRequest, False)"

definition openApp :: "bool the_app" where
  "openApp = \<lparr>apConfig = (projr (loadConfig exampleKeyFile exampleFlags))
       \<lparr>cfGeneral := (generalFromFlags exampleFlags [] [])\<lparr>gDisableCrossOriginRequests := True\<rparr>\<rparr>,
     apSource = (\<lambda>name s. (Returns (Inl ErrDomainDoesNotExist), s)), apArtifact = None, apAuth = None,
     apAcme = None, apCustomHeaders = []\<rparr>"

lemma privateFile:
  "requestServeFileHTTP exampleEnv (\<lambda>k p h. Inr exampleRoot) privateRequest (exampleGet ''h'' ''/x'') newResponse
    = (True, serveFile exampleEnv (exampleGet ''h'' ''/x'') exampleRoot ''public/index.html'' ''abc'' True newResponse)"
proof -
  have r: "resolvePath exampleRoot [''public/index.html''] = Inr ''public/index.html''" by code_simp
  have "tryFile exampleEnv (\<lambda>p h. Inr exampleRoot) (requestHandler privateRequest (exampleGet ''h'' ''/x'')) newResponse
      = (True, serveFile exampleEnv (exampleGet ''h'' ''/x'') exampleRoot ''public/index.html'' ''abc'' True newResponse)"
    unfolding tryFile_def readerRoot_def requestHandler_def privateRequest_def exampleLookup_def tryResolved_def
      serveResolved_def isLocationDirectoryError_def isLocationFileNoExtensionError_def Let_def ConfigFile_def
    by (simp add: r)
  then show ?thesis by (simp add: requestServeFileHTTP_def diskServeFileHTTP_def)
qed

theorem access_check_fails_open_witness:
  "\<exists>w' s'. authorized openApp (exampleSiteEnv\<lparr>svFiles := (\<lambda>k p h. Inr exampleRoot)\<rparr>) ''h''
     (Some (newDomain ''h'' [] [] flakyResolver)) (exampleGet ''h'' ''/x'') newResponse True = (w', s')
    \<and> sentStatus w' = Some 200"
proof -
  let ?d = "Some (newDomain ''h'' [] [] flakyResolver)"
  let ?env = "exampleSiteEnv\<lparr>svFiles := (\<lambda>k p h. Inr exampleRoot)\<rparr>"
  have r: "domainResolve ?d (exampleGet ''h'' ''/x'') True = (Inl DeadlineExceeded, False)"
    "domainResolve ?d (exampleGet ''h'' ''/x'') False = (Inr privateRequest, False)"
    by (simp_all add: domainResolve_def newDomain_def flakyResolver_def)
  have e: "svServing ?env = exampleEnv" "svFiles ?env = (\<lambda>k p h. Inr exampleRoot)" by (simp_all add: exampleSiteEnv_def)
  have "gDisableCrossOriginRequests (cfGeneral (apConfig openApp))" by (simp add: openApp_def)
  from access_check_fails_open [OF r, of ?env, unfolded e, OF privateFile this]
  show ?thesis using exampleRoot_serves by blast
qed

subsection \<open>HTTPS only\<close>

lemma httpsURL_prefix:
  assumes "rqHost r \<noteq> []" and "uOpaque (rqURL r) = []"
  shows "HasPrefix (URLString (httpsURL r)) ''https://''"
  using assms by (simp add: URLString_def httpsURL_def Let_def HasPrefix_def)

lemma getScheme_https: "getScheme (''https:'' @ t) = Some (''https'', t)"
  by (simp add: getScheme_def isLetter_def isLower_def isUpper_def isDigit_def)

lemma parseNoFragment_https: "parseNoFragment (''https:'' @ t) = Some v \<Longrightarrow> uScheme v \<noteq> []"
  using parseNoFragment_scheme [of "''https:'' @ t" v] getScheme_https [of t] by auto

lemma ParseURL_https: "ParseURL (''https:'' @ t) = Some v \<Longrightarrow> uScheme v \<noteq> []"
proof (cases "cutAt (CHR ''#'') t")
  case None
  then show "ParseURL (''https:'' @ t) = Some v \<Longrightarrow> uScheme v \<noteq> []"
    using parseNoFragment_https [of t v] by (simp add: ParseURL_def)
next
  case (Some p)
  obtain a f where p: "p = (a, f)" by fastforce
  have "cutAt (CHR ''#'') (''https:'' @ t) = Some (''https:'' @ a, f)" using Some p by simp
  then show "ParseURL (''https:'' @ t) = Some v \<Longrightarrow> uScheme v \<noteq> []"
    using parseNoFragment_https [of a] by (auto simp: ParseURL_def split: option.splits if_splits)
qed

lemma redirectLocation_https:
  assumes "HasPrefix u ''https://''"
  shows "redirectLocation r u = u"
proof -
  obtain t where "u = ''https:'' @ t" using assms by (auto elim!: HasPrefixE)
  then show ?thesis using ParseURL_https [of t]
    by (cases "ParseURL u") (auto simp: redirectLocation_def simp del: append_Cons)
qed


definition httpsRequest :: serving_request where
  "httpsRequest = \<lparr>srServing = zipInstance, srLookupPath = exampleLookup\<lparr>lpIsHTTPSOnly := True\<rparr>, srSubPath = ''x''\<rparr>"


subsection \<open>Every request is answered\<close>

text \<open>What the cross-origin middleware may do: answer, or set headers and pass the request on.\<close>

definition cors_ok :: "(request \<Rightarrow> response \<Rightarrow> bool \<times> response) \<Rightarrow> bool" where
  "cors_ok cors \<longleftrightarrow> (\<forall>r w. if fst (cors r w) then wasSent (snd (cors r w)) else rSent (snd (cors r w)) = rSent w)"

lemma serveResolveError_sent: "wasSent (serveResolveError err w)"
  by (simp add: serveResolveError_def)

lemma requestServeNotFoundHTTP_sent: "fresh w \<Longrightarrow> wasSent (requestServeNotFoundHTTP env fs req r w)"
  using diskServeNotFoundHTTP_status [of w env "fs (srServing req)" "requestHandler req r"]
  by (auto simp: requestServeNotFoundHTTP_def wasSent_status)

lemma ServeNotFoundHTTP_sent: "fresh w \<Longrightarrow> wasSent (fst (ServeNotFoundHTTP env fs d r w s))"
  by (auto simp: ServeNotFoundHTTP_def serveResolveError_sent requestServeNotFoundHTTP_sent split: prod.split sum.split)

lemma ServeNotFoundAuthFailed_sent: "fresh w \<Longrightarrow> wasSent (fst (ServeNotFoundAuthFailed env fs d r w s))"
  by (auto simp: ServeNotFoundAuthFailed_def serveNamespaceNotFound_def Let_def serveResolveError_sent
      requestServeNotFoundHTTP_sent ServeNotFoundHTTP_sent split: prod.split sum.split option.split)

text \<open>\<open>answered\<close>, for handlers that also return a state.\<close>

abbreviation answers :: "response \<Rightarrow> bool \<times> response \<times> 's \<Rightarrow> bool" where
  "answers w x \<equiv> answered w (fst x, fst (snd x))"

lemma answeredD:
  "answered w x \<Longrightarrow> x = (True, w') \<Longrightarrow> wasSent w'" "answered w x \<Longrightarrow> x = (False, w') \<Longrightarrow> w' = w"
  "answers w y \<Longrightarrow> y = (True, w', s) \<Longrightarrow> wasSent w'" "answers w y \<Longrightarrow> y = (False, w', s) \<Longrightarrow> w' = w"
  by (auto simp: answered_def)

lemma requestServeFileHTTP_answers: "fresh w \<Longrightarrow> answered w (requestServeFileHTTP env fs req r w)"
  using diskServeFileHTTP_sent_or_same [of w env "fs (srServing req)" "requestHandler req r"]
  by (simp add: requestServeFileHTTP_def answered_def)

lemma ServeFileHTTP_answers: "fresh w \<Longrightarrow> answers w (ServeFileHTTP env fs d r w s)"
proof -
  assume f: "fresh w"
  obtain x s' where x: "domainResolve d r s = (x, s')" by fastforce
  show ?thesis
  proof (cases x)
    case (Inr req)
    then show ?thesis using x requestServeFileHTTP_answers [OF f, of env fs req r]
      by (cases "requestServeFileHTTP env fs req r w") (simp add: ServeFileHTTP_def)
  qed (simp add: ServeFileHTTP_def x answered_def serveResolveError_sent)
qed

lemma checkSessionIsValid_answers:
  "answered w (fst (checkSessionIsValid a env r w) = None, snd (checkSessionIsValid a env r w))"
  using checkSessionIsValid_none [of a env r w] checkSessionIsValid_some [of a env r w]
  by (cases "checkSessionIsValid a env r w") (auto simp: answered_def)

lemma checkResponseForInvalidToken_answers: "answered w (checkResponseForInvalidToken a env resp session r w)"
  by (auto simp: checkResponseForInvalidToken_def destroySession_def answered_def intro!: saveThen_sent)

lemma checkAuthentication_answers:
  assumes "fresh w"
  shows "answers w (checkAuthentication a env senv fs d r w s)"
proof -
  obtain x w1 where v: "checkSessionIsValid a env r w = (x, w1)" by fastforce
  note va = checkSessionIsValid_answers [of w a env r, unfolded v]
  show ?thesis
  proof (cases x)
    case (Some session)
    then have w1: "w1 = w" using va by (simp add: answered_def)
    obtain pid s1 where p: "GetProjectID d r s = (pid, s1)" by fastforce
    note resp = answeredD(1,2) [OF checkResponseForInvalidToken_answers [of w a env _ session r]]
    show ?thesis using ServeNotFoundAuthFailed_sent [OF assms, of senv fs d r s1] resp
      by (auto simp: checkAuthentication_def v Some w1 p answered_def split: prod.splits sum.split bool.splits)
  qed (use va v in \<open>auto simp: checkAuthentication_def answered_def\<close>)
qed

lemma CheckAuthentication_answers:
  assumes "fresh w"
  shows "answers w (CheckAuthentication auth env senv fs d r w s)"
    and "answers w (CheckAuthenticationWithoutProject auth env senv fs d r w s)"
proof -
  have "answered w (True, Serve500 w)" "answered w (False, w)" by (simp_all add: answered_def)
  then show "answers w (CheckAuthentication auth env senv fs d r w s)"
    "answers w (CheckAuthenticationWithoutProject auth env senv fs d r w s)"
    by (cases auth; simp add: CheckAuthentication_def CheckAuthenticationWithoutProject_def checkAuthentication_answers [OF assms])+
qed

lemma TryAuthenticate_answers: "answers w (TryAuthenticate auth env domains r w s)"
proof -
  have c: "wasSent (checkAuthenticationResponse a env session r w)" for a session w
    by (auto simp: checkAuthenticationResponse_def intro!: saveThen_sent split: option.split sum.split)
  have p: "wasSent (proxyCallback a env session r pd w)" for a session pd w
    unfolding proxyCallback_def by (rule saveThen_sent) (simp split: sum.split)
  have g: "wasSent (fst (proxyAuthToGitlab a domains session r w s))" for a session w
    by (auto simp: proxyAuthToGitlab_def Let_def intro!: saveThen_sent split: option.split prod.split)
  show ?thesis
    using checkSession_none checkSession_some
    by (fastforce simp: TryAuthenticate_def handleProxyingAuth_def answered_def c p g
        split: option.split prod.split bool.split if_split)
qed

lemma makeRequest_sent:
  assumes "\<And>resp b w'. h resp w = (True, b, w') \<Longrightarrow> wasSent w'"
  shows "wasSent (makeRequest a u token h w)"
  using assms by (auto simp: makeRequest_def relayResponse_def Let_def split: sum.split prod.split bool.split)

lemma CheckResponseForInvalidToken_answers: "answered w (CheckResponseForInvalidToken auth env resp r w)"
proof (cases auth)
  case (Some a)
  obtain x w1 where c: "checkSession a r w = (x, w1)" by fastforce
  show ?thesis
    using checkSession_none [of a r w w1] checkSession_some [of a r w] checkResponseForInvalidToken_answers [of w a env resp _ r] c Some
    by (cases x) (auto simp: CheckResponseForInvalidToken_def answered_def)
qed (simp add: CheckResponseForInvalidToken_def answered_def)

lemma loginHandler_sent:
  assumes "checkIfLoginRequiredOrInvalidToken auth env r token resp w = (True, b, w')"
  shows "wasSent w'"
proof -
  note t = answeredD(1) [OF CheckResponseForInvalidToken_answers [of _ auth env resp r]]
  have q: "RequireAuth a env r w = (True, w') \<Longrightarrow> wasSent w'" for a w'
    using checkSessionIsValid_none by (auto simp: RequireAuth_def split: prod.splits option.splits)
  show ?thesis using assms t q
    by (auto simp: checkIfLoginRequiredOrInvalidToken_def Let_def split: if_splits option.splits prod.splits bool.splits)
qed

lemma HandleArtifactRequest_answers: "answered w (HandleArtifactRequest auth env art host r w)"
proof -
  obtain x w1 where g: "GetTokenIfExists auth r w = (x, w1)" by fastforce
  have x: "if x = None then wasSent w1 else w1 = w"
    using g checkSession_none checkSession_some
    by (auto simp: GetTokenIfExists_def split: option.splits prod.splits)
  show ?thesis using x makeRequest_sent loginHandler_sent
    by (auto simp: HandleArtifactRequest_def g TryMakeRequest_def answered_def split: option.splits)
qed

lemma tryAuxiliaryHandlers_answers:
  assumes "fresh w"
  shows "answers w (tryAuxiliaryHandlers a env https host d r w s)"
proof -
  obtain b w1 where h: "HandleArtifactRequest (apAuth a) (svAuth env) (apArtifact a) host r w = (b, w1)" by fastforce
  have ha: "if b then wasSent w1 else w1 = w"
    using HandleArtifactRequest_answers [of w "apAuth a" "svAuth env" "apArtifact a" host r] h by (cases b) (simp_all add: answered_def)
  have c: "wasSent (fst (checkAuthAndServeNotFound a env d r w s))" for s
    using answeredD(3,4) [OF CheckAuthentication_answers(2) [OF assms, of "apAuth a" "svAuth env" "svServing env" "svFiles env" d r s]]
      ServeNotFoundAuthFailed_sent [OF assms]
    by (auto simp: checkAuthAndServeNotFound_def split: prod.splits bool.splits)
  show ?thesis using ha c
    by (auto simp: tryAuxiliaryHandlers_def h isReady_def redirectToHTTPS_def answered_def split: prod.split sum.split bool.splits)
qed

lemma serveFileOrNotFoundHandler_sent:
  assumes "fresh w"
  shows "wasSent (fst (serveFileOrNotFoundHandler a env host d r w s))"
proof -
  obtain b w1 s1 where x: "ServeFileHTTP (svServing env) (svFiles env) d r w s = (b, w1, s1)"
    by (cases "ServeFileHTTP (svServing env) (svFiles env) d r w s")
  note xa = answeredD(3,4) [OF ServeFileHTTP_answers [OF assms, of "svServing env" "svFiles env" d r s]]
  obtain ns s2 where n: "IsNamespaceProject d r s1 = (ns, s2)" by fastforce
  note c = answeredD(3,4) [OF CheckAuthentication_answers(2) [OF assms, of "apAuth a" "svAuth env" "svServing env" "svFiles env" d r s2]]
  show ?thesis using x xa c n ServeNotFoundHTTP_sent [OF assms]
    by (cases b; cases ns) (auto simp: serveFileOrNotFoundHandler_def split: prod.split bool.split)
qed

lemma authorized_sent:
  assumes "fresh w" and "cors_ok (svCors env)"
  shows "wasSent (fst (authorized a env host d r w s))"
proof -
  have "if fst (svCors env r w) then wasSent (snd (svCors env r w)) else fresh (snd (svCors env r w))"
    using assms unfolding cors_ok_def by metis
  then have h: "wasSent (fst (corsMiddleware a env (serveFileOrNotFoundHandler a env) host d r w s))" for s
    using serveFileOrNotFoundHandler_sent assms(1)
    by (cases "svCors env r w") (auto simp: corsMiddleware_def split: bool.split if_splits)
  obtain b s1 where i: "IsAccessControlEnabled d r s = (b, s1)" by fastforce
  note c = answeredD(3,4) [OF CheckAuthentication_answers(1) [OF assms(1), of "apAuth a" "svAuth env" "svServing env" "svFiles env" d r s1]]
  show ?thesis using h i c
    by (cases b) (auto simp: authorized_def AuthorizationMiddleware_def split: prod.split bool.split)
qed

lemma siteHandler_sent:
  assumes "fresh w" and "cors_ok (svCors env)" and "\<not> isAcmeChallenge (uPath (rqURL r))"
  shows "wasSent (fst (siteHandler a env host d r w s))"
proof -
  note t = answeredD(3,4) [OF TryAuthenticate_answers [of w "apAuth a" "svAuth env" "apSource a" r s]]
  have aux: "wasSent (fst (auxiliaryMiddleware a env (authorized a env) host d r w s))" for s
    using answeredD(3,4) [OF tryAuxiliaryHandlers_answers [OF assms(1), of a env "IsHTTPS r" host d r s]]
      authorized_sent [OF assms(1,2)]
    by (auto simp: auxiliaryMiddleware_def split: prod.split bool.split)
  then have "wasSent (fst (authenticated a env host d r w s))"
    using t by (auto simp: authenticated_def AuthenticationMiddleware_def split: prod.split bool.split)
  then show ?thesis using assms(3)
    by (auto simp: siteHandler_def AcmeMiddleware_def ServeAcmeChallenges_def split: option.split)
qed

text \<open>A handler that answers whatever its state is.\<close>

definition alwaysAnswers :: "request \<Rightarrow> 't panicking \<Rightarrow> bool" where
  "alwaysAnswers r h \<longleftrightarrow> (\<forall>w st. fresh w \<longrightarrow> fst (h r w st) \<or> wasSent (fst (snd (h r w st))))"

lemma rateLimit_answers: "alwaysAnswers r h \<Longrightarrow> alwaysAnswers r (rateLimit rl now get put h)"
  by (auto simp: alwaysAnswers_def rateLimit_def split: prod.split)

lemma routing_answers:
  assumes "cors_ok (svCors env)" and "\<not> isAcmeChallenge (uPath (rqURL r))"
  shows "alwaysAnswers r (onSource (routing src (siteHandler a env)))"
proof -
  have s: "wasSent (fst (siteHandler a env host d r w s))" if "fresh w" for host d w s
    by (rule siteHandler_sent [OF that assms])
  have "fst (routing src (siteHandler a env) r w s) \<or> wasSent (fst (snd (routing src (siteHandler a env) r w s)))"
    if "fresh w" for w s
    using s [OF that] by (auto simp: routing_def split: prod.split outcome.split sum.split)
  then show ?thesis by (auto simp: alwaysAnswers_def onSource_def split: prod.split) (metis fst_conv snd_conv)
qed

text \<open>
  Every request is answered: whatever the source of domains does, panics included, whatever the
  authentication, the rate limits and the files say, the pipeline has sent a status when it returns.
\<close>

theorem pipeline_answers:
  assumes "cors_ok (svCors env)" and "\<not> isAcmeChallenge (uPath (rqURL r))" and "fresh w"
  shows "wasSent (fst (buildHandlerPipeline a env le r w st))"
proof -
  define h where "h = Ratelimiter (seGetenv (svServing env)) le (cfRateLimit (apConfig a)) (onSource (routing (apSource a) (siteHandler a env)))"
  have h: "alwaysAnswers r h"
    unfolding h_def Ratelimiter_def by (intro rateLimit_answers routing_answers assms)
  have "alwaysAnswers r (healthCheckMiddleware a h)"
    using h by (auto simp: alwaysAnswers_def healthCheckMiddleware_def isReady_def)
  then have "alwaysAnswers r (customHeaders (apCustomHeaders a) (healthCheckMiddleware a h))"
    by (auto simp: alwaysAnswers_def customHeaders_def)
  then have "wasSent (fst (handlePanicMiddleware (customHeaders (apCustomHeaders a) (healthCheckMiddleware a h)) r w st))"
    using assms(3) by (auto simp: alwaysAnswers_def handlePanicMiddleware_def split: prod.split) (metis fst_conv snd_conv)
  then show ?thesis
    by (simp add: buildHandlerPipeline_def Let_def rejectMethods_def limitURI_def h_def)
qed

definition exampleLimiterEnv :: "(string \<Rightarrow> (nat \<times> gotime) option, int) limiter_env" where
  "exampleLimiterEnv = \<lparr>leNow = 0, leCache = mapCache, leBucket = countBucket\<rparr>"

theorem pipeline_answers_witness:
  "wasSent (fst (buildHandlerPipeline exampleApp exampleSiteEnv exampleLimiterEnv (exampleGet ''h'' ''/x'') newResponse
     \<lparr>psSource = (), psSourceIP = exampleLimiterState, psDomain = exampleLimiterState\<rparr>))"
proof -
  have "cors_ok (svCors exampleSiteEnv)" "fresh newResponse"
    by (simp_all add: cors_ok_def exampleSiteEnv_def newResponse_def)
  moreover have "\<not> isAcmeChallenge (uPath (rqURL (exampleGet ''h'' ''/x'')))" by code_simp
  ultimately show ?thesis using pipeline_answers by blast
qed

text \<open>
  Requests with an unknown method or a URI above the limit are refused first, with 405 and 414: they reach
  neither the source of domains nor the rate limiters.
\<close>

theorem pipeline_refuses_bogus:
  assumes "fresh w"
    and "rqMethod r \<notin> set acceptedMethods
      \<or> gMaxURILength (cfGeneral (apConfig a)) \<noteq> 0 \<and> int (length (rqRequestURI r)) > gMaxURILength (cfGeneral (apConfig a))"
  shows "sentStatus (fst (buildHandlerPipeline a env le r w st)) = Some (if rqMethod r \<in> set acceptedMethods then 414 else 405)
    \<and> snd (buildHandlerPipeline a env le r w st) = st"
proof (cases "rqMethod r \<in> set acceptedMethods")
  case True
  then have "buildHandlerPipeline a env le r w st = (Serve414 w, st)"
    using assms(2) by (simp add: buildHandlerPipeline_def Let_def rejectMethods_def limitURI_def)
  then show ?thesis using True serveErrorPage_fresh(1) [OF assms(1)] by (simp add: Serve414_def content414_def)
next
  case False
  then have "buildHandlerPipeline a env le r w st = (HttpError (statusText 405) 405 w, st)"
    by (simp add: buildHandlerPipeline_def Let_def rejectMethods_def)
  then show ?thesis using False assms(1) by (simp add: HttpError_def sentStatus_def)
qed

theorem pipeline_refuses_bogus_witness:
  "sentStatus (fst (buildHandlerPipeline exampleApp exampleSiteEnv exampleLimiterEnv
     ((exampleGet ''h'' ''/x'')\<lparr>rqMethod := ''BREW''\<rparr>) newResponse
     \<lparr>psSource = (), psSourceIP = exampleLimiterState, psDomain = exampleLimiterState\<rparr>)) = Some 405"
  using pipeline_refuses_bogus [of newResponse "(exampleGet ''h'' ''/x'')\<lparr>rqMethod := ''BREW''\<rparr>" exampleApp exampleSiteEnv
      exampleLimiterEnv "\<lparr>psSource = (), psSourceIP = exampleLimiterState, psDomain = exampleLimiterState\<rparr>"]
  by (simp add: newResponse_def acceptedMethods_def)

subsection \<open>ACME challenges\<close>


definition exampleChallenge :: request where
  "exampleChallenge = (exampleGet ''h'' ''/.well-known/acme-challenge/t'')
     \<lparr>rqURL := emptyURL\<lparr>uScheme := ''https'', uPath := ''/.well-known/acme-challenge/t''\<rparr>\<rparr>"


end
