(* ===== verification/Netutil.thy ===== *)
theory Netutil
  imports Vfs "HOL-Library.Multiset"
begin

text \<open>
  The listener with a shared limit on connections, \<open>internal/netutil\<close>.  The channel of the limiter is the number
  of slots in use and its capacity; the operations that can block return \<^const>\<open>None\<close> where they do.  The
  goroutines of the servers are a step relation: each call of \<^verbatim>\<open>Accept\<close> is somewhere between its wait for a slot
  and its return, and clients close connections and listeners at any time.  The main lemmas are an invariant that counts
  the slots and its consequences.
\<close>

subsection \<open>Limiter\<close>

text \<open>The gauges are the metrics that the code reports.\<close>

record conn_limiter =
  liSem :: nat
  liCap :: nat
  liConcurrent :: int
  liWaiting :: int

definition NewLimiterWithMetrics :: "nat \<Rightarrow> conn_limiter" where
  "NewLimiterWithMetrics n = \<lparr>liSem = 0, liCap = n, liConcurrent = 0, liWaiting = 0\<rparr>"

text \<open>\<^verbatim>\<open>acquire\<close>: the wait begins, and ends either because the listener is done or with a slot.\<close>

definition acquireWait :: "conn_limiter \<Rightarrow> conn_limiter" where
  "acquireWait li = li\<lparr>liWaiting := liWaiting li + 1\<rparr>"

definition acquireDone :: "conn_limiter \<Rightarrow> conn_limiter" where
  "acquireDone li = li\<lparr>liWaiting := liWaiting li - 1\<rparr>"

definition acquireSlot :: "conn_limiter \<Rightarrow> conn_limiter option" where
  "acquireSlot li =
     (if liSem li < liCap li
      then Some (li\<lparr>liSem := liSem li + 1, liConcurrent := liConcurrent li + 1, liWaiting := liWaiting li - 1\<rparr>)
      else None)"

definition release :: "conn_limiter \<Rightarrow> conn_limiter option" where
  "release li =
     (if liSem li > 0 then Some (li\<lparr>liSem := liSem li - 1, liConcurrent := liConcurrent li - 1\<rparr>) else None)"

subsection \<open>Connections\<close>

text \<open>A connection of a listener; \<open>cnReleased\<close> is the state of \<^verbatim>\<open>releaseOnce\<close>.\<close>

record limited_conn =
  cnListener :: nat
  cnTCP :: bool
  cnReleased :: bool

definition connClose :: "limited_conn \<Rightarrow> conn_limiter \<Rightarrow> (limited_conn \<times> conn_limiter) option" where
  "connClose c li =
     (if cnReleased c then Some (c, li)
      else case release li of None \<Rightarrow> None | Some li' \<Rightarrow> Some (c\<lparr>cnReleased := True\<rparr>, li'))"

definition errKeepaliveNotSupported :: goerr where
  "errKeepaliveNotSupported = otherErr ''keepalive not supported''"

text \<open>\<^verbatim>\<open>SetKeepAlive\<close> and \<^verbatim>\<open>SetKeepAlivePeriod\<close>, given what the call on the TCP connection returns.\<close>

definition connSetKeepAlive :: "goerr option \<Rightarrow> limited_conn \<Rightarrow> goerr option" where
  "connSetKeepAlive tcp c = (if cnTCP c then tcp else Some errKeepaliveNotSupported)"

definition connSetKeepAlivePeriod :: "goerr option \<Rightarrow> limited_conn \<Rightarrow> goerr option" where
  "connSetKeepAlivePeriod tcp c = (if cnTCP c then tcp else Some errKeepaliveNotSupported)"

subsection \<open>Accept\<close>

text \<open>A call of \<^verbatim>\<open>Accept\<close> on a listener waits in \<^verbatim>\<open>acquire\<close>, or in the accept of the listener below with or
  without a slot.\<close>

datatype accept_call =
    Waiting nat
  | Accepting nat bool

text \<open>What \<^verbatim>\<open>Accept\<close> does with the answer of the listener below, an error or whether the connection is a TCP
  one.\<close>

definition acceptReturn :: "nat \<Rightarrow> bool \<Rightarrow> bool res \<Rightarrow> conn_limiter \<Rightarrow> (limited_conn res \<times> conn_limiter) option" where
  "acceptReturn l acquired answer li =
     (case answer of
        Inl err \<Rightarrow>
          if acquired then (case release li of None \<Rightarrow> None | Some li' \<Rightarrow> Some (Inl err, li'))
          else Some (Inl err, li)
      | Inr tcp \<Rightarrow> Some (Inr \<lparr>cnListener = l, cnTCP = tcp, cnReleased = False\<rparr>, li))"

text \<open>\<^verbatim>\<open>Close\<close> of a listener closes the listener below (\<open>neClosed\<close>) and then the channel \<^verbatim>\<open>done\<close>.\<close>

record net_state =
  neLimiter :: conn_limiter
  neClosed :: "nat \<Rightarrow> bool"
  neDone :: "nat \<Rightarrow> bool"
  neCalls :: "accept_call multiset"
  neConns :: "limited_conn multiset"

definition netStart :: "nat \<Rightarrow> net_state" where
  "netStart n = \<lparr>neLimiter = NewLimiterWithMetrics n, neClosed = (\<lambda>l. False), neDone = (\<lambda>l. False), neCalls = {#}, neConns = {#}\<rparr>"

text \<open>A closed listener accepts no more connections: what \<^verbatim>\<open>net.Listener\<close> promises, and what the comment in
  \<^verbatim>\<open>Accept\<close> relies on.\<close>

inductive net_step :: "net_state \<Rightarrow> net_state \<Rightarrow> bool" where
  Call: "net_step s (s\<lparr>neLimiter := acquireWait (neLimiter s), neCalls := add_mset (Waiting l) (neCalls s)\<rparr>)"
| NoSlot: "\<lbrakk>neCalls s = add_mset (Waiting l) calls; neDone s l\<rbrakk> \<Longrightarrow>
    net_step s (s\<lparr>neLimiter := acquireDone (neLimiter s), neCalls := add_mset (Accepting l False) calls\<rparr>)"
| Slot: "\<lbrakk>neCalls s = add_mset (Waiting l) calls; acquireSlot (neLimiter s) = Some li\<rbrakk> \<Longrightarrow>
    net_step s (s\<lparr>neLimiter := li, neCalls := add_mset (Accepting l True) calls\<rparr>)"
| Fail: "\<lbrakk>neCalls s = add_mset (Accepting l acquired) calls; acceptReturn l acquired (Inl err) (neLimiter s) = Some (Inl err, li)\<rbrakk> \<Longrightarrow>
    net_step s (s\<lparr>neLimiter := li, neCalls := calls\<rparr>)"
| Accept: "\<lbrakk>neCalls s = add_mset (Accepting l acquired) calls; \<not> neClosed s l;
     acceptReturn l acquired (Inr tcp) (neLimiter s) = Some (Inr c, li)\<rbrakk> \<Longrightarrow>
    net_step s (s\<lparr>neLimiter := li, neCalls := calls, neConns := add_mset c (neConns s)\<rparr>)"
| CloseBelow: "net_step s (s\<lparr>neClosed := (neClosed s)(l := True)\<rparr>)"
| CloseDone: "neClosed s l \<Longrightarrow> net_step s (s\<lparr>neDone := (neDone s)(l := True)\<rparr>)"
| CloseConn: "\<lbrakk>neConns s = add_mset c conns; connClose c (neLimiter s) = Some (c', li)\<rbrakk> \<Longrightarrow>
    net_step s (s\<lparr>neLimiter := li, neConns := add_mset c' conns\<rparr>)"

definition holdsSlot :: "accept_call \<Rightarrow> bool" where
  "holdsSlot c = (case c of Waiting l \<Rightarrow> False | Accepting l acquired \<Rightarrow> acquired)"

definition isWaiting :: "accept_call \<Rightarrow> bool" where
  "isWaiting c = (case c of Waiting l \<Rightarrow> True | Accepting l acquired \<Rightarrow> False)"

definition openConns :: "net_state \<Rightarrow> nat" where
  "openConns s = size (filter_mset (\<lambda>c. \<not> cnReleased c) (neConns s))"

definition net_inv :: "net_state \<Rightarrow> bool" where
  "net_inv s \<longleftrightarrow>
     liSem (neLimiter s) = size (filter_mset holdsSlot (neCalls s)) + openConns s
   \<and> liSem (neLimiter s) \<le> liCap (neLimiter s)
   \<and> liConcurrent (neLimiter s) = int (liSem (neLimiter s))
   \<and> liWaiting (neLimiter s) = int (size (filter_mset isWaiting (neCalls s)))
   \<and> (\<forall>l. neDone s l \<longrightarrow> neClosed s l)
   \<and> (\<forall>l. Accepting l False \<in># neCalls s \<longrightarrow> neClosed s l)"

lemmas net_defs = acquireWait_def acquireDone_def acquireSlot_def release_def connClose_def acceptReturn_def
  holdsSlot_def isWaiting_def openConns_def

lemma netStart_inv: "net_inv (netStart n)"
  by (simp add: net_inv_def netStart_def NewLimiterWithMetrics_def openConns_def)

lemma net_step_inv: "net_step s t \<Longrightarrow> net_inv s \<Longrightarrow> net_inv t"
  by (induction rule: net_step.induct) (auto simp: net_inv_def net_defs split: if_splits)

lemma net_step_cap: "net_step s t \<Longrightarrow> liCap (neLimiter t) = liCap (neLimiter s)"
  by (induction rule: net_step.induct) (auto simp: net_defs split: if_splits option.splits)

lemma net_reachable: "net_step\<^sup>*\<^sup>* (netStart n) s \<Longrightarrow> net_inv s \<and> liCap (neLimiter s) = n"
proof (induction rule: rtranclp_induct)
  case base
  then show ?case by (simp add: netStart_inv) (simp add: netStart_def NewLimiterWithMetrics_def)
next
  case (step s t)
  then show ?case by (simp add: net_step_inv net_step_cap)
qed

text \<open>
  C19: however the goroutines of all listeners that share a limiter interleave, there are never more open
  connections than slots, the slots in use are exactly those of the open connections and of the calls in
  \<^verbatim>\<open>Accept\<close> that got one, and the two gauges count the slots in use and the waiting calls.
\<close>

theorem limiter_bound:
  assumes "net_step\<^sup>*\<^sup>* (netStart n) s"
  shows "openConns s \<le> n
    \<and> liConcurrent (neLimiter s) = int (openConns s + size (filter_mset holdsSlot (neCalls s)))
    \<and> liWaiting (neLimiter s) = int (size (filter_mset isWaiting (neCalls s)))"
  using net_reachable [OF assms] by (simp add: net_inv_def)

lemma example_net_run: "\<exists>s. net_step\<^sup>*\<^sup>* (netStart 1) s \<and> openConns s = 1"
proof -
  let ?li = "\<lparr>liSem = 0, liCap = 1, liConcurrent = 0, liWaiting = 1\<rparr>"
  let ?li' = "\<lparr>liSem = 1, liCap = 1, liConcurrent = 1, liWaiting = 0\<rparr>"
  let ?s1 = "(netStart 1)\<lparr>neLimiter := acquireWait (neLimiter (netStart 1)), neCalls := add_mset (Waiting 0) (neCalls (netStart 1))\<rparr>"
  let ?s2 = "?s1\<lparr>neLimiter := ?li', neCalls := add_mset (Accepting 0 True) {#}\<rparr>"
  let ?c = "\<lparr>cnListener = 0, cnTCP = True, cnReleased = False\<rparr>"
  let ?s3 = "?s2\<lparr>neLimiter := ?li', neCalls := {#}, neConns := add_mset ?c (neConns ?s2)\<rparr>"
  have 1: "net_step (netStart 1) ?s1" by (rule net_step.Call)
  have 2: "net_step ?s1 ?s2"
    by (rule net_step.Slot) (simp_all add: netStart_def NewLimiterWithMetrics_def net_defs)
  have 3: "net_step ?s2 ?s3"
    by (rule net_step.Accept [where tcp = True]) (simp_all add: netStart_def NewLimiterWithMetrics_def net_defs)
  have "net_step\<^sup>*\<^sup>* (netStart 1) ?s3" using 1 2 3 by (meson rtranclp.rtrancl_into_rtrancl rtranclp.rtrancl_refl)
  moreover have "openConns ?s3 = 1" by (simp add: openConns_def netStart_def)
  ultimately show ?thesis by blast
qed

theorem limiter_bound_witness: "\<exists>s. net_step\<^sup>*\<^sup>* (netStart 1) s \<and> openConns s = 1 \<and> liConcurrent (neLimiter s) \<ge> 1"
proof -
  obtain s where s: "net_step\<^sup>*\<^sup>* (netStart 1) s" "openConns s = 1" using example_net_run by blast
  then show ?thesis using limiter_bound [OF s(1)] by (intro exI [of _ s]) simp
qed

text \<open>
  C30: no release ever blocks: closing a connection and returning from a failed accept go on at once in every
  reachable state, and as soon as a slot is free a waiting call gets it.
\<close>

theorem limiter_never_stuck:
  assumes "net_step\<^sup>*\<^sup>* (netStart n) s"
  shows "(\<forall>c. c \<in># neConns s \<longrightarrow> connClose c (neLimiter s) \<noteq> None)
    \<and> (\<forall>l acquired err. Accepting l acquired \<in># neCalls s \<longrightarrow> acceptReturn l acquired (Inl err) (neLimiter s) \<noteq> None)
    \<and> (openConns s + size (filter_mset holdsSlot (neCalls s)) < n \<longrightarrow> acquireSlot (neLimiter s) \<noteq> None)"
proof -
  note i = conjunct1 [OF net_reachable [OF assms], unfolded net_inv_def] conjunct2 [OF net_reachable [OF assms]]
  have conns: "liSem (neLimiter s) > 0" if "c \<in># neConns s" "\<not> cnReleased c" for c
  proof -
    have "c \<in># filter_mset (\<lambda>c. \<not> cnReleased c) (neConns s)" using that by simp
    then have "openConns s > 0" unfolding openConns_def by (metis size_eq_0_iff_empty empty_not_add_mset multi_member_split neq0_conv)
    then show ?thesis using i by simp
  qed
  have calls: "liSem (neLimiter s) > 0" if "Accepting l True \<in># neCalls s" for l
  proof -
    have "Accepting l True \<in># filter_mset holdsSlot (neCalls s)" using that by (simp add: holdsSlot_def)
    then have "size (filter_mset holdsSlot (neCalls s)) > 0" by (metis size_eq_0_iff_empty empty_not_add_mset multi_member_split neq0_conv)
    then show ?thesis using i by simp
  qed
  have "connClose c (neLimiter s) \<noteq> None" if "c \<in># neConns s" for c
    using conns [OF that] by (auto simp: connClose_def release_def)
  moreover have "acceptReturn l acquired (Inl err) (neLimiter s) \<noteq> None" if "Accepting l acquired \<in># neCalls s" for l acquired err
    using calls [of l] that by (cases acquired) (auto simp: acceptReturn_def release_def)
  moreover have "acquireSlot (neLimiter s) \<noteq> None" if "openConns s + size (filter_mset holdsSlot (neCalls s)) < n"
    using that i by (simp add: acquireSlot_def)
  ultimately show ?thesis by blast
qed

theorem limiter_never_stuck_witness:
  "\<exists>s. net_step\<^sup>*\<^sup>* (netStart 1) s \<and> openConns s = 1 \<and> (\<forall>c. c \<in># neConns s \<longrightarrow> connClose c (neLimiter s) \<noteq> None)"
proof -
  obtain s where s: "net_step\<^sup>*\<^sup>* (netStart 1) s" "openConns s = 1" using example_net_run by blast
  then show ?thesis using limiter_never_stuck [OF s(1)] by (intro exI [of _ s]) simp
qed

end
