(* ===== verification/Vfs_Zip.thy ===== *)
theory Vfs_Zip
  imports Caches
begin

text \<open>
  Sites served from zip archives, \<open>internal/vfs/zip\<close>.  An entry of the archive's directory is a
  \<open>zip_entry\<close>: what the zip library (a third-party package) says of it, including where its data
  starts and what opening it through the library gives; the list of entries is the result of reading
  the archive.  An archive keeps two maps, of files and of directories, by name.  The two LRU caches
  of the program hold data offsets and link targets under keys that start with the archive's own
  namespace; \<open>zipOpen\<close> and \<open>zipReadlink\<close> thread the cache through, and \<open>zipRoot\<close> is the site root
  without it.  An open file is what reading it to the end gives; failures while reading are not
  modelled.  The second half is \<open>zipVFS\<close>: archives by number, a cache of them with expiry, and the
  states of opening.
\<close>

subsection \<open>The archive\<close>

definition dirPrefix :: string where "dirPrefix = ''public/''"

definition maxSymlinkSize :: nat where "maxSymlinkSize = 256"

record zip_entry =
  zeName :: string
  zeType :: file_type
  zeSize :: int
  zeModTime :: gotime
  zeMethod :: nat
  zeCompressedSize :: nat
  zeDataOffset :: "nat res"
  zeOpen :: "string res"

text \<open>\<open>done\<close> is closed when reading has ended, with \<open>err\<close> its result; \<open>zaCorrupt\<close> is
  \<open>resource.Err()\<close> and \<open>zaBytes\<close> the bytes behind the ranged reader.\<close>

record zip_archive =
  zaNamespace :: string
  zaDone :: bool
  zaErr :: "goerr option"
  zaCorrupt :: "goerr option"
  zaBytes :: string
  zaFiles :: "string \<Rightarrow> zip_entry option"
  zaDirs :: "string \<Rightarrow> zip_entry option"

definition archiveNamespace :: "nat \<Rightarrow> string" where
  "archiveNamespace count = decimal count @ '':''"

definition newArchive :: "nat \<Rightarrow> zip_archive" where
  "newArchive count =
     \<lparr>zaNamespace = archiveNamespace count, zaDone = False, zaErr = None, zaCorrupt = None,
      zaBytes = [], zaFiles = Map.empty, zaDirs = Map.empty\<rparr>"

text \<open>A header with a name only: it is a directory because the name ends in a slash.\<close>

definition dirHeader :: "string \<Rightarrow> zip_entry" where
  "dirHeader name =
     \<lparr>zeName = name, zeType = (if HasSuffix name ''/'' then Directory else RegularFile), zeSize = 0,
      zeModTime = 0, zeMethod = 0, zeCompressedSize = 0, zeDataOffset = Inl ErrNotExist,
      zeOpen = Inl ErrNotExist\<rparr>"

definition addPathDirectory :: "string \<Rightarrow> zip_archive \<Rightarrow> zip_archive" where
  "addPathDirectory pathname a =
     (let dir = fst (SplitPath pathname)
      in if dir = [] then a
         else if zaDirs a dir \<noteq> None then a
         else a\<lparr>zaDirs := (zaDirs a)(dir \<mapsto> dirHeader dir)\<rparr>)"

definition addEntry :: "zip_entry \<Rightarrow> zip_archive \<Rightarrow> zip_archive" where
  "addEntry e a =
     (if \<not> HasPrefix (zeName e) dirPrefix then a
      else
        (let a' = (if zeType e = Directory then a\<lparr>zaDirs := (zaDirs a)(zeName e \<mapsto> e)\<rparr>
                   else a\<lparr>zaFiles := (zaFiles a)(zeName e \<mapsto> e)\<rparr>)
         in addPathDirectory (zeName e) a'))"

text \<open>\<open>readArchive\<close>: \<open>opened\<close> is the result of \<open>httprange.NewResource\<close> and \<open>zip.NewReader\<close>, the
  bytes and the directory of the archive.\<close>

definition readArchive :: "(string \<times> zip_entry list) res \<Rightarrow> zip_archive \<Rightarrow> zip_archive" where
  "readArchive opened a =
     (case opened of
        Inl err \<Rightarrow> a\<lparr>zaDone := True, zaErr := Some err\<rparr>
      | Inr (bytes, entries) \<Rightarrow> (fold addEntry entries (a\<lparr>zaBytes := bytes\<rparr>))\<lparr>zaDone := True\<rparr>)"

definition findFile :: "zip_archive \<Rightarrow> string \<Rightarrow> zip_entry option" where
  "findFile a name = zaFiles a (Clean (dirPrefix @ name))"

definition findDirectory :: "zip_archive \<Rightarrow> string \<Rightarrow> zip_entry option" where
  "findDirectory a name = zaDirs a (Clean (dirPrefix @ name) @ ''/'')"

definition entryInfo :: "zip_entry \<Rightarrow> file_info" where
  "entryInfo e = \<lparr>fiType = zeType e, fiSize = zeSize e, fiModTime = zeModTime e\<rparr>"

text \<open>The compression methods \<open>zip.Store\<close> and \<open>zip.Deflate\<close>; \<open>inflate\<close> decompresses.\<close>

definition readEntry :: "(string \<Rightarrow> string) \<Rightarrow> zip_archive \<Rightarrow> zip_entry \<Rightarrow> nat \<Rightarrow> vfs_file res" where
  "readEntry inflate a file dataOffset =
     (let section = take (zeCompressedSize file) (drop dataOffset (zaBytes a))
      in if zeMethod file = 8 then Inr \<lparr>fContent = inflate section, fSeekable = False\<rparr>
         else if zeMethod file = 0 then Inr \<lparr>fContent = section, fSeekable = True\<rparr>
         else Inl (errUnsupportedMethod (zeMethod file)))"

definition zipOpen ::
  "(string \<Rightarrow> string) \<Rightarrow> ('s, nat) ccache \<Rightarrow> gotime \<Rightarrow> zip_archive \<Rightarrow> string \<Rightarrow> 's \<Rightarrow> vfs_file res \<times> 's"
where
  "zipOpen inflate cc now a name s =
     (case findFile a name of
        None \<Rightarrow> (Inl (if findDirectory a name \<noteq> None then errNotFile else ErrNotExist), s)
      | Some file \<Rightarrow>
          if zeType file \<noteq> RegularFile then (Inl errNotFile, s)
          else
            (case FindOrFetch cc now (3600 * 1000000000) (zaNamespace a) name (zeDataOffset file) s of
               (Inl err, s') \<Rightarrow> (Inl err, s')
             | (Inr dataOffset, s') \<Rightarrow> (readEntry inflate a file dataOffset, s')))"

definition zipLstat :: "zip_archive \<Rightarrow> string \<Rightarrow> file_info res" where
  "zipLstat a name =
     (case findFile a name of
        Some file \<Rightarrow> Inr (entryInfo file)
      | None \<Rightarrow>
          (case findDirectory a name of
             Some directory \<Rightarrow> Inr (entryInfo directory)
           | None \<Rightarrow> Inl ErrNotExist))"

text \<open>Up to 257 bytes of the link are read; \<open>io.ReadFull\<close> returns \<open>EOF\<close> when there are none.\<close>

definition readLinkBytes :: "zip_entry \<Rightarrow> string res" where
  "readLinkBytes file =
     (case zeOpen file of
        Inl err \<Rightarrow> Inl err
      | Inr content \<Rightarrow> if content = [] then Inl errEOF else Inr (take (maxSymlinkSize + 1) content))"

definition checkLinkSize :: "string \<Rightarrow> string res" where
  "checkLinkSize symlink = (if length symlink > maxSymlinkSize then Inl errSymlinkSize else Inr symlink)"

definition zipReadlink ::
  "('s, string) ccache \<Rightarrow> gotime \<Rightarrow> zip_archive \<Rightarrow> string \<Rightarrow> 's \<Rightarrow> string res \<times> 's"
where
  "zipReadlink cc now a name s =
     (case findFile a name of
        None \<Rightarrow> (Inl (if findDirectory a name \<noteq> None then errNotSymlink else ErrNotExist), s)
      | Some file \<Rightarrow>
          if zeType file \<noteq> Symlink then (Inl errNotSymlink, s)
          else
            (case FindOrFetch cc now (3600 * 1000000000) (zaNamespace a) name (readLinkBytes file) s of
               (Inl err, s') \<Rightarrow> (Inl err, s')
             | (Inr symlink, s') \<Rightarrow> (checkLinkSize symlink, s')))"

text \<open>The root without the caches.\<close>

definition openDirect :: "(string \<Rightarrow> string) \<Rightarrow> zip_archive \<Rightarrow> string \<Rightarrow> vfs_file res" where
  "openDirect inflate a name =
     (case findFile a name of
        None \<Rightarrow> Inl (if findDirectory a name \<noteq> None then errNotFile else ErrNotExist)
      | Some file \<Rightarrow>
          if zeType file \<noteq> RegularFile then Inl errNotFile
          else case zeDataOffset file of Inl err \<Rightarrow> Inl err | Inr off \<Rightarrow> readEntry inflate a file off)"

definition readlinkDirect :: "zip_archive \<Rightarrow> string \<Rightarrow> string res" where
  "readlinkDirect a name =
     (case findFile a name of
        None \<Rightarrow> Inl (if findDirectory a name \<noteq> None then errNotSymlink else ErrNotExist)
      | Some file \<Rightarrow>
          if zeType file \<noteq> Symlink then Inl errNotSymlink
          else case readLinkBytes file of Inl err \<Rightarrow> Inl err | Inr l \<Rightarrow> checkLinkSize l)"

definition zipRoot :: "(string \<Rightarrow> string) \<Rightarrow> zip_archive \<Rightarrow> vfs_root" where
  "zipRoot inflate a =
     \<lparr>vLstat = zipLstat a, vReadlink = readlinkDirect a, vOpen = openDirect inflate a\<rparr>"

datatype archive_status = archiveOpening | archiveOpenError | archiveOpened | archiveCorrupted

definition openStatus :: "zip_archive \<Rightarrow> archive_status \<times> goerr option" where
  "openStatus a =
     (if zaDone a then
        (if zaErr a \<noteq> None then (archiveOpenError, zaErr a)
         else if zaCorrupt a \<noteq> None then (archiveCorrupted, zaCorrupt a)
         else (archiveOpened, None))
      else (archiveOpening, None))"

subsection \<open>The cache of archives\<close>

text \<open>Archives are objects: \<open>zvHeap\<close> maps their numbers to their states, and the cache holds
  numbers.\<close>

record 's zip_vfs =
  zvCache :: 's
  zvHeap :: "nat \<Rightarrow> zip_archive"
  zvArchiveCount :: nat
  zvExpirationInterval :: int
  zvRefreshInterval :: int

definition createArchive ::
  "('s, nat) gocache \<Rightarrow> gotime \<Rightarrow> string \<Rightarrow> 's zip_vfs \<Rightarrow> nat res \<times> 's zip_vfs"
where
  "createArchive gc now key zfs =
     (let n = zvArchiveCount zfs + 1;
          zfs' = zfs\<lparr>zvArchiveCount := n, zvHeap := (zvHeap zfs)(n := newArchive n),
                     zvCache := gcDelete gc key (zvCache zfs)\<rparr>
      in case gcAdd gc now (zvExpirationInterval zfs') key n (zvCache zfs') of
           None \<Rightarrow> (Inl errAlreadyCached, zfs')
         | Some c \<Rightarrow> (Inr n, zfs'\<lparr>zvCache := c\<rparr>))"

definition findOrCreateArchive ::
  "('s, nat) gocache \<Rightarrow> gotime \<Rightarrow> string \<Rightarrow> 's zip_vfs \<Rightarrow> nat res \<times> 's zip_vfs"
where
  "findOrCreateArchive gc now key zfs =
     (case gcGet gc now key (zvCache zfs) of
        None \<Rightarrow> createArchive gc now key zfs
      | Some (archive, expiry) \<Rightarrow>
          (case fst (openStatus (zvHeap zfs archive)) of
             archiveOpening \<Rightarrow> (Inr archive, zfs)
           | archiveOpenError \<Rightarrow> (Inr archive, zfs)
           | archiveOpened \<Rightarrow>
               (Inr archive,
                if expiry - now < zvRefreshInterval zfs
                then zfs\<lparr>zvCache := gcSet gc now (zvExpirationInterval zfs) key archive (zvCache zfs)\<rparr>
                else zfs)
           | archiveCorrupted \<Rightarrow> createArchive gc now key zfs))"

text \<open>\<open>openArchive\<close>: \<open>interrupted\<close> is the context's error when it ends before the archive is read,
  \<open>opened\<close> what reading the archive gives.  When the context ends first the background read goes on
  and \<open>finishRead\<close> is its end.\<close>

definition finishRead :: "(string \<times> zip_entry list) res \<Rightarrow> nat \<Rightarrow> 's zip_vfs \<Rightarrow> 's zip_vfs" where
  "finishRead opened n zfs =
     (if zaDone (zvHeap zfs n) then zfs
      else zfs\<lparr>zvHeap := (zvHeap zfs)(n := readArchive opened (zvHeap zfs n))\<rparr>)"

definition openArchive ::
  "goerr option \<Rightarrow> (string \<times> zip_entry list) res \<Rightarrow> nat \<Rightarrow> 's zip_vfs \<Rightarrow> goerr option \<times> 's zip_vfs"
where
  "openArchive interrupted opened n zfs =
     (case openStatus (zvHeap zfs n) of
        (archiveOpening, _) \<Rightarrow>
          (case interrupted of
             Some e \<Rightarrow> (Some e, zfs)
           | None \<Rightarrow> (let zfs' = finishRead opened n zfs in (zaErr (zvHeap zfs' n), zfs')))
      | (_, err) \<Rightarrow> (err, zfs))"

definition findOrOpenArchive ::
  "('s, nat) gocache \<Rightarrow> gotime \<Rightarrow> goerr option \<Rightarrow> (string \<times> zip_entry list) res \<Rightarrow> string
    \<Rightarrow> 's zip_vfs \<Rightarrow> nat res \<times> 's zip_vfs"
where
  "findOrOpenArchive gc now interrupted opened key zfs =
     (case findOrCreateArchive gc now key zfs of
        (Inl err, zfs') \<Rightarrow> (Inl err, zfs')
      | (Inr n, zfs') \<Rightarrow>
          (case openArchive interrupted opened n zfs' of
             (Some err, zfs'') \<Rightarrow> (Inl err, zfs'')
           | (None, zfs'') \<Rightarrow> (Inr n, zfs'')))"

text \<open>\<open>zipVFS.Root\<close> loops until the archive is found or cached; \<open>fuel\<close> bounds the rounds.\<close>

fun zipVFSRoot ::
  "nat \<Rightarrow> ('s, nat) gocache \<Rightarrow> gotime \<Rightarrow> goerr option \<Rightarrow> (string \<times> zip_entry list) res \<Rightarrow> string
    \<Rightarrow> 's zip_vfs \<Rightarrow> (nat res \<times> 's zip_vfs) option"
where
  "zipVFSRoot 0 gc now interrupted opened cacheKey zfs = None"
| "zipVFSRoot (Suc fuel) gc now interrupted opened cacheKey zfs =
     (if cacheKey = [] then Some (Inl errMissingCacheKey, zfs)
      else
        (case findOrOpenArchive gc now interrupted opened cacheKey zfs of
           (Inl err, zfs') \<Rightarrow>
             if err = errAlreadyCached then zipVFSRoot fuel gc now interrupted opened cacheKey zfs'
             else if err = ErrNotFound then Some (Inl ErrNotExist, zfs')
             else Some (Inl err, zfs')
         | (Inr root, zfs') \<Rightarrow> Some (Inr root, zfs')))"

subsection \<open>Lookups\<close>

text \<open>An archive's files are regular entries of its list, under their own names below \<open>public/\<close>.\<close>

lemma addPathDirectory_files [simp]: "zaFiles (addPathDirectory p a) = zaFiles a"
  by (simp add: addPathDirectory_def Let_def)

definition servedEntry :: "string \<Rightarrow> zip_entry \<Rightarrow> bool" where
  "servedEntry n e \<longleftrightarrow> zeName e = n \<and> HasPrefix n dirPrefix \<and> zeType e \<noteq> Directory"

lemma addEntry_files: "zaFiles (addEntry e a) n = (if servedEntry n e then Some e else zaFiles a n)"
  by (auto simp: addEntry_def Let_def servedEntry_def)

lemma fold_addEntry_files:
  "zaFiles (fold addEntry es a) n =
    (case filter (servedEntry n) es of [] \<Rightarrow> zaFiles a n | _ \<Rightarrow> Some (last (filter (servedEntry n) es)))"
proof (induction es arbitrary: a)
  case (Cons e es)
  show ?case
    by (cases "filter (servedEntry n) es"; cases "servedEntry n e") (simp_all add: Cons.IH addEntry_files)
qed simp

text \<open>
  C17: a name is looked up in an opened archive as the cleaned path \<open>public/name\<close>, and what is found
  is the last entry of the archive with exactly that name that is not a directory; entries outside
  \<open>public/\<close> are never found, whatever the name.
\<close>

theorem findFile_readArchive:
  "findFile (readArchive (Inr (bytes, entries)) (newArchive n)) name =
    (case filter (servedEntry (Clean (dirPrefix @ name))) entries of
       [] \<Rightarrow> None
     | _ \<Rightarrow> Some (last (filter (servedEntry (Clean (dirPrefix @ name))) entries)))"
  unfolding findFile_def readArchive_def
  by (simp add: fold_addEntry_files newArchive_def split: list.split)

lemma Clean_dirPrefix:
  assumes "\<not> isRooted name" and "name \<noteq> []"
  shows "Clean (dirPrefix @ Clean name) = Clean (dirPrefix @ name)"
  using JoinPath_Clean [OF assms, of "''public''"] assms Clean_not_rooted [OF assms(1)]
  by (simp add: JoinPath_def dirPrefix_def)

lemma find_Clean:
  assumes "\<not> isRooted name" and "name \<noteq> []"
  shows "findFile a (Clean name) = findFile a name" and "findDirectory a (Clean name) = findDirectory a name"
  by (simp_all add: findFile_def findDirectory_def Clean_dirPrefix [OF assms])

interpretation zip_root: vfs_root_laws "zipRoot inflate a" for inflate a
proof unfold_locales
  show "vOpen (zipRoot inflate a) n = Inr f \<Longrightarrow> \<exists>fi. vLstat (zipRoot inflate a) n = Inr fi \<and> isRegular fi"
    for n f
    by (auto simp: zipRoot_def openDirect_def zipLstat_def entryInfo_def isRegular_def
        split: option.splits if_splits sum.splits)
  show "\<not> isRooted n \<Longrightarrow> n \<noteq> [] \<Longrightarrow> vLstat (zipRoot inflate a) (Clean n) = vLstat (zipRoot inflate a) n"
    for n
    by (simp add: zipRoot_def zipLstat_def find_Clean split: option.split)
qed

subsection \<open>The LRU caches are transparent\<close>

text \<open>What the two caches may hold: under the namespace of archive \<open>n\<close>, its own offsets and links.\<close>

definition offsetSource :: "(nat \<Rightarrow> zip_archive) \<Rightarrow> string \<Rightarrow> nat res" where
  "offsetSource archives key =
     (case cutAt (CHR '':'') key of
        None \<Rightarrow> Inl ErrNotExist
      | Some (ns, name) \<Rightarrow>
          (case findFile (archives (decimalValue ns)) name of
             None \<Rightarrow> Inl ErrNotExist
           | Some file \<Rightarrow> zeDataOffset file))"

definition linkSource :: "(nat \<Rightarrow> zip_archive) \<Rightarrow> string \<Rightarrow> string res" where
  "linkSource archives key =
     (case cutAt (CHR '':'') key of
        None \<Rightarrow> Inl ErrNotExist
      | Some (ns, name) \<Rightarrow>
          (case findFile (archives (decimalValue ns)) name of
             None \<Rightarrow> Inl ErrNotExist
           | Some file \<Rightarrow> readLinkBytes file))"

lemma cutAt_namespace: "cutAt (CHR '':'') (archiveNamespace n @ name) = Some (decimal n, name)"
proof -
  have "CHR '':'' \<notin> set (decimal n)" using decimal_digits [of n] by (auto simp: isDigit_def)
  then show ?thesis unfolding archiveNamespace_def by (simp add: cutAt_append)
qed

text \<open>
  Opening a file through the cache of data offsets gives what opening it without the cache gives,
  and keeps the cache coherent, even though one cache serves all archives: the namespaces keep
  their keys apart.
\<close>

theorem zipOpen_cached:
  assumes "ccache_ok cc" and "coherent cc (offsetSource archives) s"
    and "zaNamespace (archives n) = archiveNamespace n"
  shows "fst (zipOpen inflate cc now (archives n) name s) = openDirect inflate (archives n) name
    \<and> coherent cc (offsetSource archives) (snd (zipOpen inflate cc now (archives n) name s))"
proof (cases "findFile (archives n) name")
  case None
  then show ?thesis using assms(2) by (simp add: zipOpen_def openDirect_def)
next
  case (Some e)
  then have src: "offsetSource archives (archiveNamespace n @ name) = zeDataOffset e"
    by (simp add: offsetSource_def cutAt_namespace)
  note t = FindOrFetch_transparent_lru [OF assms(1,2), of now "3600 * 1000000000" "archiveNamespace n" name, unfolded src]
  show ?thesis
    using Some assms(2,3) t
    by (cases "FindOrFetch cc now (3600 * 1000000000) (archiveNamespace n) name (zeDataOffset e) s")
      (auto simp: zipOpen_def openDirect_def split: sum.split)
qed

text \<open>
  The same for symbolic links: the cached read is the uncached one, and a link longer than 256
  bytes is refused either way.
\<close>

theorem zipReadlink_cached:
  assumes "ccache_ok cc" and "coherent cc (linkSource archives) s"
    and "zaNamespace (archives n) = archiveNamespace n"
  shows "fst (zipReadlink cc now (archives n) name s) = readlinkDirect (archives n) name
    \<and> coherent cc (linkSource archives) (snd (zipReadlink cc now (archives n) name s))
    \<and> (\<forall>l. fst (zipReadlink cc now (archives n) name s) = Inr l \<longrightarrow> length l \<le> maxSymlinkSize)"
proof (cases "findFile (archives n) name")
  case None
  then show ?thesis using assms(2) by (simp add: zipReadlink_def readlinkDirect_def)
next
  case (Some e)
  then have src: "linkSource archives (archiveNamespace n @ name) = readLinkBytes e"
    by (simp add: linkSource_def cutAt_namespace)
  note t = FindOrFetch_transparent_lru [OF assms(1,2), of now "3600 * 1000000000" "archiveNamespace n" name, unfolded src]
  show ?thesis
    using Some assms(2,3) t
    by (cases "FindOrFetch cc now (3600 * 1000000000) (archiveNamespace n) name (readLinkBytes e) s")
      (auto simp: zipReadlink_def readlinkDirect_def checkLinkSize_def split: sum.split)
qed

text \<open>An archive with two pages and a link, for examples.\<close>

definition exampleEntry :: "string \<Rightarrow> file_type \<Rightarrow> nat \<Rightarrow> nat \<Rightarrow> zip_entry" where
  "exampleEntry name t off len =
     \<lparr>zeName = name, zeType = t, zeSize = int len, zeModTime = 0, zeMethod = 0, zeCompressedSize = len,
      zeDataOffset = Inr off, zeOpen = Inr ''index.html''\<rparr>"

definition exampleEntries :: "zip_entry list" where
  "exampleEntries =
     [exampleEntry ''public/index.html'' RegularFile 0 5, exampleEntry ''secret'' RegularFile 5 6,
      exampleEntry ''public/a/link'' Symlink 11 10]"

definition exampleArchives :: "nat \<Rightarrow> zip_archive" where
  "exampleArchives n = readArchive (Inr (''hellosecretindex.html'', exampleEntries)) (newArchive n)"

definition emptyOffsets :: "(string \<Rightarrow> (nat \<times> gotime) option, nat) ccache" where
  "emptyOffsets = \<lparr>ccGet = (\<lambda>k s. (s k, s)), ccSet = (\<lambda>k v e s. s(k \<mapsto> (v, e)))\<rparr>"

definition emptyLinks :: "(string \<Rightarrow> (string \<times> gotime) option, string) ccache" where
  "emptyLinks = \<lparr>ccGet = (\<lambda>k s. (s k, s)), ccSet = (\<lambda>k v e s. s(k \<mapsto> (v, e)))\<rparr>"

lemma fold_addEntry_err: "zaErr (fold addEntry es a) = zaErr a"
  by (induction es arbitrary: a) (simp_all add: addEntry_def addPathDirectory_def Let_def)

lemma readArchive_err:
  "zaErr (readArchive opened a) = (case opened of Inl e \<Rightarrow> Some e | Inr _ \<Rightarrow> zaErr a)"
  by (auto simp: readArchive_def fold_addEntry_err split: sum.split)

lemma readArchive_namespace: "zaNamespace (readArchive opened a) = zaNamespace a"
proof -
  have "zaNamespace (fold addEntry es a) = zaNamespace a" for es a
    by (induction es arbitrary: a) (simp_all add: addEntry_def addPathDirectory_def Let_def)
  then show ?thesis by (auto simp: readArchive_def split: sum.split)
qed

lemma exampleArchives_namespace: "zaNamespace (exampleArchives n) = archiveNamespace n"
  by (simp add: exampleArchives_def readArchive_namespace newArchive_def)

theorem zipOpen_cached_witness:
  "fst (zipOpen id emptyOffsets 0 (exampleArchives 3) ''x/../index.html'' Map.empty)
    = Inr \<lparr>fContent = ''hello'', fSeekable = True\<rparr>"
proof -
  have "ccache_ok emptyOffsets" "coherent emptyOffsets (offsetSource exampleArchives) Map.empty"
    by (simp_all add: ccache_ok_def coherent_def emptyOffsets_def)
  moreover have "openDirect id (exampleArchives 3) ''x/../index.html'' = Inr \<lparr>fContent = ''hello'', fSeekable = True\<rparr>"
    by code_simp
  ultimately show ?thesis
    using zipOpen_cached [of emptyOffsets exampleArchives Map.empty 3 id 0 "''x/../index.html''"]
      exampleArchives_namespace by simp
qed

theorem zipReadlink_cached_witness:
  "fst (zipReadlink emptyLinks 0 (exampleArchives 3) ''a/link'' Map.empty) = Inr ''index.html''"
proof -
  have "ccache_ok emptyLinks" "coherent emptyLinks (linkSource exampleArchives) Map.empty"
    by (simp_all add: ccache_ok_def coherent_def emptyLinks_def)
  moreover have "readlinkDirect (exampleArchives 3) ''a/link'' = Inr ''index.html''" by code_simp
  ultimately show ?thesis
    using zipReadlink_cached [of emptyLinks exampleArchives Map.empty 3 0 "''a/link''"]
      exampleArchives_namespace by simp
qed

subsection \<open>Archives are shared and the loop ends\<close>

lemma openStatus_new: "openStatus (newArchive n) = (archiveOpening, None)"
  by (simp add: openStatus_def newArchive_def)

lemma createArchive_ok:
  assumes "gocache_ok gc" and "zvExpirationInterval zfs > 0"
  shows "\<exists>zfs' e. createArchive gc now key zfs = (Inr (zvArchiveCount zfs + 1), zfs')
    \<and> gcGet gc now key (zvCache zfs') = Some (zvArchiveCount zfs + 1, e)
    \<and> zvHeap zfs' = (zvHeap zfs)(zvArchiveCount zfs + 1 := newArchive (zvArchiveCount zfs + 1))
    \<and> (\<forall>key'. key' \<noteq> key \<longrightarrow> gcGet gc now key' (zvCache zfs') = gcGet gc now key' (zvCache zfs))"
  using assms(2) unfolding createArchive_def Let_def gocache_laws(3) [OF assms(1)]
  by (simp add: gocache_laws(1,2) [OF assms(1)])

lemma findOrCreateArchive_cached:
  assumes gc: "gocache_ok gc" and d: "zvExpirationInterval zfs > 0"
  shows "\<exists>n zfs' e. findOrCreateArchive gc now key zfs = (Inr n, zfs')
    \<and> gcGet gc now key (zvCache zfs') = Some (n, e)
    \<and> fst (openStatus (zvHeap zfs' n)) \<noteq> archiveCorrupted
    \<and> (\<forall>key'. key' \<noteq> key \<longrightarrow> gcGet gc now key' (zvCache zfs') = gcGet gc now key' (zvCache zfs))
    \<and> (\<forall>m. m \<noteq> zvArchiveCount zfs + 1 \<longrightarrow> zvHeap zfs' m = zvHeap zfs m)"
proof (cases "gcGet gc now key (zvCache zfs)")
  case None
  then show ?thesis using createArchive_ok [OF assms, of now key]
    by (auto simp: findOrCreateArchive_def openStatus_new)
next
  case (Some ae)
  obtain n e where ae: "ae = (n, e)" by fastforce
  show ?thesis
  proof (cases "fst (openStatus (zvHeap zfs n)) = archiveCorrupted")
    case True
    then show ?thesis using Some ae createArchive_ok [OF assms, of now key]
      by (auto simp: findOrCreateArchive_def openStatus_new)
  next
    case False
    then show ?thesis using Some ae d
      by (cases "fst (openStatus (zvHeap zfs n))") (simp_all add: findOrCreateArchive_def gocache_laws(1) [OF gc])
  qed
qed

lemma findOrCreateArchive_heap:
  assumes "gocache_ok gc" and "zvExpirationInterval zfs > 0"
  shows "\<exists>n zfs'. findOrCreateArchive gc now key zfs = (Inr n, zfs')
    \<and> (\<forall>m. m \<noteq> zvArchiveCount zfs + 1 \<longrightarrow> zvHeap zfs' m = zvHeap zfs m)
    \<and> (zvHeap zfs' = zvHeap zfs
       \<or> zvHeap zfs' (zvArchiveCount zfs + 1) = newArchive (zvArchiveCount zfs + 1))"
proof -
  obtain zfs' where c: "createArchive gc now key zfs = (Inr (zvArchiveCount zfs + 1), zfs')"
    "zvHeap zfs' = (zvHeap zfs)(zvArchiveCount zfs + 1 := newArchive (zvArchiveCount zfs + 1))"
    using createArchive_ok [OF assms, of now key] by blast
  then have "zvHeap zfs' (zvArchiveCount zfs + 1) = newArchive (zvArchiveCount zfs + 1)"
    and "\<forall>m. m \<noteq> zvArchiveCount zfs + 1 \<longrightarrow> zvHeap zfs' m = zvHeap zfs m" by simp_all
  then have created: ?thesis if "findOrCreateArchive gc now key zfs = createArchive gc now key zfs"
    unfolding that c(1) by blast
  show ?thesis
  proof (cases "gcGet gc now key (zvCache zfs)")
    case None
    then show ?thesis using created by (simp add: findOrCreateArchive_def)
  next
    case (Some ae)
    obtain n e where ae: "ae = (n, e)" by fastforce
    show ?thesis
    proof (cases "fst (openStatus (zvHeap zfs n)) = archiveCorrupted")
      case True
      then show ?thesis using Some ae created by (simp add: findOrCreateArchive_def)
    next
      case False
      then have "\<exists>c. findOrCreateArchive gc now key zfs = (Inr n, zfs\<lparr>zvCache := c\<rparr>)"
        using Some ae by (cases "fst (openStatus (zvHeap zfs n))")
          (auto simp: findOrCreateArchive_def intro: exI [of _ "zvCache zfs"])
      then show ?thesis by force
    qed
  qed
qed

lemma findOrCreateArchive_hit:
  assumes "gcGet gc now key (zvCache zfs) = Some (n, e)"
    and "fst (openStatus (zvHeap zfs n)) \<noteq> archiveCorrupted"
  shows "fst (findOrCreateArchive gc now key zfs) = Inr n"
  using assms by (cases "fst (openStatus (zvHeap zfs n))") (simp_all add: findOrCreateArchive_def)


definition exampleZipVFS :: "(string \<Rightarrow> (nat \<times> gotime) option) zip_vfs" where
  "exampleZipVFS =
     \<lparr>zvCache = [''site'' \<mapsto> (3, 100)],
      zvHeap = (\<lambda>n. exampleArchives n\<lparr>zaCorrupt := Some ErrRangeRequestsNotSupported\<rparr>),
      zvArchiveCount = 3, zvExpirationInterval = 60, zvRefreshInterval = 30\<rparr>"


text \<open>The errors of fetching and of the context are not the cache's own.\<close>

definition foreignErrors :: "goerr option \<Rightarrow> (string \<times> zip_entry list) res \<Rightarrow> 's zip_vfs \<Rightarrow> bool" where
  "foreignErrors interrupted opened zfs \<longleftrightarrow>
     interrupted \<noteq> Some errAlreadyCached \<and> opened \<noteq> Inl errAlreadyCached
     \<and> (\<forall>n. zaErr (zvHeap zfs n) \<noteq> Some errAlreadyCached \<and> zaCorrupt (zvHeap zfs n) \<noteq> Some errAlreadyCached)"

lemma openArchive_foreign:
  assumes "foreignErrors interrupted opened zfs"
  shows "fst (openArchive interrupted opened n zfs) \<noteq> Some errAlreadyCached"
  using assms
  by (auto simp: openArchive_def openStatus_def finishRead_def foreignErrors_def readArchive_err Let_def
      split: option.split sum.split)

text \<open>
  The retry loop of \<open>Root\<close> ends in its first round: under the lock, an archive can always be
  added to the cache after deleting its key, so the "already cached" error that would repeat the loop
  does not occur.
\<close>

theorem zipVFSRoot_returns:
  assumes "gocache_ok gc" and "zvExpirationInterval zfs > 0" and "foreignErrors interrupted opened zfs"
  shows "\<exists>r. \<forall>fuel. zipVFSRoot (Suc fuel) gc now interrupted opened cacheKey zfs = Some r"
proof -
  obtain n zfs' where f: "findOrCreateArchive gc now cacheKey zfs = (Inr n, zfs')"
    and h: "\<forall>m. m \<noteq> zvArchiveCount zfs + 1 \<longrightarrow> zvHeap zfs' m = zvHeap zfs m"
    and c: "zvHeap zfs' = zvHeap zfs \<or> zvHeap zfs' (zvArchiveCount zfs + 1) = newArchive (zvArchiveCount zfs + 1)"
    using findOrCreateArchive_heap [OF assms(1,2), of now cacheKey] by blast
  have "foreignErrors interrupted opened zfs'"
    using assms(3) h c unfolding foreignErrors_def
    by (metis newArchive_def option.distinct(1) zip_archive.select_convs(3,4))
  then have "fst (openArchive interrupted opened n zfs') \<noteq> Some errAlreadyCached"
    by (rule openArchive_foreign)
  then show ?thesis
    by (cases "openArchive interrupted opened n zfs'"; cases "fst (openArchive interrupted opened n zfs')")
      (auto simp: findOrOpenArchive_def f)
qed

theorem zipVFSRoot_returns_witness:
  "\<exists>r. \<forall>fuel. zipVFSRoot (Suc fuel) mapGocache 90 None (Inl ErrNotFound) ''site'' exampleZipVFS = Some r"
proof -
  have f: "foreignErrors None (Inl ErrNotFound) exampleZipVFS"
    by (simp add: foreignErrors_def exampleZipVFS_def exampleArchives_def readArchive_err newArchive_def)
  have d: "zvExpirationInterval exampleZipVFS > 0" by (simp add: exampleZipVFS_def)
  show ?thesis by (rule zipVFSRoot_returns [OF mapGocache_ok d f])
qed

end
