(* ===== verification/Vfs_Local.thy ===== *)
theory Vfs_Local
  imports Symlink
begin

text \<open>
  The local file system, \<open>internal/vfs/local\<close>: a site root below a directory of the machine.  The
  operating system is a map \<open>os_fs\<close> from absolute cleaned paths to what \<open>lstat\<close> finds there (the
  kernel has resolved the directories on the way); \<open>open\<close> with \<open>O_NOFOLLOW\<close> fails on a symbolic
  link.  The main lemmas say that a root never looks outside its directory, and that a link to an
  absolute place inside the root reads as a relative link to the same place.
\<close>

subsection \<open>The operating system\<close>

text \<open>A regular file has its content, modification time and whether the daemon may read it.\<close>

datatype os_node =
    OsFile string gotime bool
  | OsDir gotime
  | OsLink string
  | OsOther

type_synonym os_fs = "string \<Rightarrow> os_node option"

definition osLstat :: "os_fs \<Rightarrow> string \<Rightarrow> file_info res" where
  "osLstat fs p =
     (case fs p of
        None \<Rightarrow> Inl ErrNotExist
      | Some (OsFile content mtime readable) \<Rightarrow>
          Inr \<lparr>fiType = RegularFile, fiSize = int (length content), fiModTime = mtime\<rparr>
      | Some (OsDir mtime) \<Rightarrow> Inr \<lparr>fiType = Directory, fiSize = 4096, fiModTime = mtime\<rparr>
      | Some (OsLink target) \<Rightarrow>
          Inr \<lparr>fiType = Symlink, fiSize = int (length target), fiModTime = 0\<rparr>
      | Some OsOther \<Rightarrow> Inr \<lparr>fiType = OtherFile, fiSize = 0, fiModTime = 0\<rparr>)"

definition osReadlink :: "os_fs \<Rightarrow> string \<Rightarrow> string res" where
  "osReadlink fs p =
     (case fs p of
        None \<Rightarrow> Inl ErrNotExist
      | Some (OsLink target) \<Rightarrow> Inr target
      | Some _ \<Rightarrow> Inl (otherErr ''invalid argument''))"

definition osOpenNoFollow :: "os_fs \<Rightarrow> string \<Rightarrow> vfs_file res" where
  "osOpenNoFollow fs p =
     (case fs p of
        None \<Rightarrow> Inl ErrNotExist
      | Some (OsLink target) \<Rightarrow> Inl ELOOP
      | Some (OsFile content mtime readable) \<Rightarrow>
          if readable then Inr \<lparr>fContent = content, fSeekable = True\<rparr> else Inl ErrPermission
      | Some _ \<Rightarrow> Inr \<lparr>fContent = [], fSeekable = True\<rparr>)"

subsection \<open>Root\<close>

definition validatePath :: "string \<Rightarrow> string \<Rightarrow> (string \<times> string) res" where
  "validatePath rootPath path =
     (let fullPath = JoinPath rootPath path
      in if rootPath = fullPath then Inr (fullPath, [])
         else
           (let vfsPath = TrimPrefix fullPath (rootPath @ ''/'')
            in if fullPath = vfsPath then Inl (invalidPathError rootPath fullPath)
               else Inr (fullPath, vfsPath)))"

text \<open>\<open>filepath.Dir\<close> and \<open>filepath.Rel\<close>; the latter works on the components of the cleaned paths.\<close>

definition DirPath :: "string \<Rightarrow> string" where
  "DirPath p = Clean (fst (SplitPath p))"

fun stripCommon :: "string list \<Rightarrow> string list \<Rightarrow> string list \<times> string list" where
  "stripCommon (a # as) (b # bs) = (if a = b then stripCommon as bs else (a # as, b # bs))"
| "stripCommon as bs = (as, bs)"

definition pathComps :: "string \<Rightarrow> string list" where
  "pathComps p = filter (\<lambda>c. c \<noteq> [] \<and> c \<noteq> ''.'') (Split slash p)"

definition Rel :: "string \<Rightarrow> string \<Rightarrow> string res" where
  "Rel basepath targpath =
     (let base = Clean basepath; targ = Clean targpath
      in if targ = base then Inr ''.''
         else if isRooted base \<noteq> isRooted targ then Inl (otherErr ''Rel'')
         else
           (let (b, t) = stripCommon (pathComps base) (pathComps targ)
            in if b \<noteq> [] \<and> hd b = ''..'' then Inl (otherErr ''Rel'')
               else Inr (Join (replicate (length b) ''..'' @ t) ''/'')))"

definition localLstat :: "os_fs \<Rightarrow> string \<Rightarrow> string \<Rightarrow> file_info res" where
  "localLstat fs rootPath name =
     (case validatePath rootPath name of
        Inl e \<Rightarrow> Inl e
      | Inr (fullPath, _) \<Rightarrow> osLstat fs fullPath)"

definition localReadlink :: "os_fs \<Rightarrow> string \<Rightarrow> string \<Rightarrow> string res" where
  "localReadlink fs rootPath name =
     (case validatePath rootPath name of
        Inl e \<Rightarrow> Inl e
      | Inr (fullPath, _) \<Rightarrow>
          (case osReadlink fs fullPath of
             Inl e \<Rightarrow> Inl e
           | Inr target \<Rightarrow>
               if HasPrefix target (rootPath @ ''/'') then Rel (DirPath fullPath) target
               else if IsAbs target then Inr target
               else Inr target))"

definition localOpen :: "os_fs \<Rightarrow> string \<Rightarrow> string \<Rightarrow> vfs_file res" where
  "localOpen fs rootPath name =
     (case validatePath rootPath name of
        Inl e \<Rightarrow> Inl e
      | Inr (fullPath, _) \<Rightarrow>
          (case osOpenNoFollow fs fullPath of
             Inl e \<Rightarrow> Inl e
           | Inr f \<Rightarrow>
               (case osLstat fs fullPath of
                  Inl e \<Rightarrow> Inl e
                | Inr fi \<Rightarrow> if \<not> isRegular fi then Inl errNotFile else Inr f)))"

definition localRoot :: "os_fs \<Rightarrow> string \<Rightarrow> vfs_root" where
  "localRoot fs rootPath =
     \<lparr>vLstat = localLstat fs rootPath, vReadlink = localReadlink fs rootPath,
      vOpen = localOpen fs rootPath\<rparr>"

text \<open>\<open>VFS.Root\<close>: \<open>filepath.Abs\<close>, \<open>filepath.EvalSymlinks\<close> on the machine's file system, and the check
  that the result is a directory.\<close>

definition AbsPath :: "string \<Rightarrow> string \<Rightarrow> string" where
  "AbsPath cwd path = (if IsAbs path then Clean path else JoinPath cwd path)"

definition osRoot :: "os_fs \<Rightarrow> vfs_root" where
  "osRoot fs = \<lparr>vLstat = osLstat fs, vReadlink = osReadlink fs, vOpen = osOpenNoFollow fs\<rparr>"

definition localVFSRoot :: "os_fs \<Rightarrow> string \<Rightarrow> string \<Rightarrow> vfs_root res" where
  "localVFSRoot fs cwd path =
     (case walkSymlinks False (osRoot fs) (AbsPath cwd path) of
        Inl e \<Rightarrow> Inl e
      | Inr rootPath \<Rightarrow>
          (case osLstat fs rootPath of
             Inl e \<Rightarrow> Inl e
           | Inr fi \<Rightarrow> if \<not> isDir fi then Inl errNotDirectory else Inr (localRoot fs rootPath)))"

subsection \<open>Containment\<close>

lemma JoinPath_rooted:
  assumes "\<forall>c \<in> set rs. plainComp c"
  shows "JoinPath (''/'' @ Join rs ''/'') path
    = ''/'' @ Join (rev (cleanComps True (Split slash path) (rev rs))) ''/''"
proof (cases "path = []")
  case True
  then show ?thesis
    using Clean_rooted [of "''/'' @ Join rs ''/''"] cleanRoot_Join [OF assms]
    by (simp add: JoinPath_def cleanStep_def isRooted_def HasPrefix_def)
next
  case False
  let ?r = "''/'' @ Join rs ''/''"
  have "JoinPath ?r path = Clean (?r @ ''/'' @ path)" using False by (simp add: JoinPath_def)
  also have "\<dots> = ''/'' @ Join (cleanRoot (?r @ ''/'' @ path)) ''/''" by (intro Clean_rooted) simp
  finally show ?thesis unfolding cleanRoot_append cleanRoot_Join [OF assms] .
qed

text \<open>The components of a name joined to a root with components \<open>rs\<close>.\<close>

definition insidePath :: "string list \<Rightarrow> string \<Rightarrow> string list" where
  "insidePath rs path = rev (cleanComps True (Split slash path) (rev rs))"

lemma insidePath_plain: "\<forall>c \<in> set rs. plainComp c \<Longrightarrow> \<forall>c \<in> set (insidePath rs path). plainComp c"
  using cleanComps_rooted_plain [of "rev rs" "Split slash path"] Split_plain by (simp add: insidePath_def)

lemma validatePath_inside:
  assumes "\<forall>c \<in> set rs. plainComp c" and "rs \<noteq> []"
  shows "validatePath (''/'' @ Join rs ''/'') path =
    (if take (length rs) (insidePath rs path) = rs
     then Inr (''/'' @ Join (insidePath rs path) ''/'', Join (drop (length rs) (insidePath rs path)) ''/'')
     else Inl (invalidPathError (''/'' @ Join rs ''/'') (''/'' @ Join (insidePath rs path) ''/'')))"
proof -
  let ?f = "insidePath rs path"
  let ?root = "''/'' @ Join rs ''/''"
  have j: "JoinPath ?root path = ''/'' @ Join ?f ''/''"
    using JoinPath_rooted [OF assms(1)] by (simp add: insidePath_def)
  note pl = insidePath_plain [OF assms(1), of path]
  have same: "?root = ''/'' @ Join ?f ''/'' \<longleftrightarrow> ?f = rs"
    using Join_plain_inj [OF assms(1) pl] by auto
  have below: "HasPrefix (''/'' @ Join ?f ''/'') (?root @ ''/'') \<longleftrightarrow> (\<exists>cs. cs \<noteq> [] \<and> ?f = rs @ cs)"
    using Join_plain_below [OF pl assms] by (simp add: HasPrefix_def)
  consider "?f = rs" | cs where "cs \<noteq> []" "?f = rs @ cs" | "take (length rs) ?f \<noteq> rs"
    by (metis append_take_drop_id append_Nil2)
  then show ?thesis
  proof cases
    case 1
    then show ?thesis using j by (simp add: validatePath_def)
  next
    case 2
    have "''/'' @ Join ?f ''/'' = (?root @ ''/'') @ Join cs ''/''"
      using 2 assms(2) by (simp add: Join_append)
    then have "TrimPrefix (''/'' @ Join ?f ''/'') (?root @ ''/'') = Join cs ''/''"
      by (simp only: TrimPrefix_append)
    moreover have "?root \<noteq> ''/'' @ Join ?f ''/''" using same 2 by auto
    moreover have "''/'' @ Join ?f ''/'' \<noteq> Join cs ''/''"
      using 2 assms(2) by (simp add: Join_append)
    ultimately show ?thesis using j 2 by (simp add: validatePath_def)
  next
    case 3
    then have "?f \<noteq> rs" "\<not> (\<exists>cs. cs \<noteq> [] \<and> ?f = rs @ cs)" by auto
    then have "\<not> HasPrefix (''/'' @ Join ?f ''/'') (?root @ ''/'')" "?root \<noteq> ''/'' @ Join ?f ''/''"
      using same below by auto
    then show ?thesis using j 3 by (simp add: validatePath_def TrimPrefix_id)
  qed
qed

lemma validatePath_Clean:
  "\<not> isRooted n \<Longrightarrow> n \<noteq> [] \<Longrightarrow> validatePath rootPath (Clean n) = validatePath rootPath n"
  by (simp add: validatePath_def JoinPath_Clean)

interpretation local_root: vfs_root_laws "localRoot fs rootPath" for fs rootPath
  by unfold_locales
    (auto simp: localRoot_def localOpen_def localLstat_def validatePath_Clean split: sum.splits if_splits)

subsection \<open>Links\<close>

lemma stripCommon_prefix: "stripCommon as bs = (a, b) \<Longrightarrow> \<exists>p. as = p @ a \<and> bs = p @ b"
proof (induction as bs arbitrary: a b rule: stripCommon.induct)
  case (1 x as y bs)
  then show ?case by (fastforce split: if_splits intro: exI [of _ "x # _"])
qed auto

lemma pathComps_rooted:
  assumes "\<forall>c \<in> set cs. plainComp c"
  shows "pathComps (''/'' @ Join cs ''/'') = cs"
proof (cases "cs = []")
  case True
  then show ?thesis by (simp add: pathComps_def)
next
  case False
  then have "Split slash (''/'' @ Join cs ''/'') = [] # cs" using assms by (simp add: Split_Join_plain)
  moreover have "filter (\<lambda>c. c \<noteq> [] \<and> c \<noteq> ''.'') cs = cs"
    using assms by (intro filter_True) (auto simp: plainComp_def)
  ultimately show ?thesis by (simp add: pathComps_def)
qed

lemma cleanComps_ups:
  assumes "\<forall>c \<in> set b. plainComp c"
  shows "cleanComps True (replicate (length b) ''..'') (rev b @ st) = st"
  using assms
proof (induction b rule: rev_induct)
  case (snoc c b)
  then have "c \<noteq> ''..''" by (auto simp: plainComp_def)
  then show ?case using snoc by (simp add: cleanStep_def)
qed simp

lemma Rel_Join:
  assumes bs: "\<forall>c \<in> set bs. plainComp c" and ts: "\<forall>c \<in> set ts. plainComp c"
  shows "\<exists>rel. Rel (''/'' @ Join bs ''/'') (''/'' @ Join ts ''/'') = Inr rel
    \<and> JoinPath (''/'' @ Join bs ''/'') rel = ''/'' @ Join ts ''/''"
proof -
  have cl: "Clean (''/'' @ Join cs ''/'') = ''/'' @ Join cs ''/''" if "\<forall>c \<in> set cs. plainComp c" for cs
    using Clean_rooted [of "''/'' @ Join cs ''/''"] cleanRoot_Join [OF that] by simp
  obtain b t where st: "stripCommon bs ts = (b, t)" by fastforce
  then obtain p where p: "bs = p @ b" "ts = p @ t" using stripCommon_prefix by blast
  show ?thesis
  proof (cases "bs = ts")
    case True
    then show ?thesis using cl [OF bs] JoinPath_rooted [OF bs, of "''.''"] by (simp add: Rel_def cleanStep_def)
  next
    case False
    then have "''/'' @ Join ts ''/'' \<noteq> ''/'' @ Join bs ''/''" using Join_plain_inj [OF ts bs] by auto
    moreover have "b \<noteq> [] \<Longrightarrow> plainComp (hd b)" using bs p by simp
    then have "\<not> (b \<noteq> [] \<and> hd b = ''..'')" by (auto simp: plainComp_def)
    ultimately have rel: "Rel (''/'' @ Join bs ''/'') (''/'' @ Join ts ''/'')
        = Inr (Join (replicate (length b) ''..'' @ t) ''/'')"
      using st pathComps_rooted [OF bs] pathComps_rooted [OF ts]
      unfolding Rel_def cl [OF bs] cl [OF ts] Let_def by simp
    let ?up = "replicate (length b) ''..'' @ t"
    have ne: "?up \<noteq> []" using False p by auto
    have "\<forall>c \<in> set t. slash \<notin> set c" using ts p by (simp add: plainComp_def)
    then have "\<forall>c \<in> set ?up. slash \<notin> set c" by (auto simp: in_set_replicate)
    then have "Split slash (Join ?up ''/'') = ?up" using ne by (intro Split_Join) auto
    moreover have "cleanComps True ?up (rev bs) = rev ts"
      using bs ts p cleanComps_ups [of b "rev p"] cleanComps_plain [of t True "rev p"]
      by (simp add: cleanComps_append)
    ultimately show ?thesis using rel JoinPath_rooted [OF bs, of "Join ?up ''/''"] by simp
  qed
qed

lemma DirPath_rooted:
  assumes "\<forall>c \<in> set (cs @ [c]). plainComp c"
  shows "DirPath (''/'' @ Join (cs @ [c]) ''/'') = ''/'' @ Join cs ''/''"
proof -
  have c: "slash \<notin> set c" using assms by (auto simp: plainComp_def)
  have cs: "\<forall>c \<in> set cs. plainComp c" using assms by simp
  show ?thesis
  proof (cases "cs = []")
    case True
    then show ?thesis using c cutAt_append [of slash "rev c" "[]"]
      by (simp add: DirPath_def SplitPath_def cutAtLast_def Clean_def cleanStep_def isRooted_def HasPrefix_def)
  next
    case False
    let ?d = "''/'' @ Join cs ''/''"
    have "''/'' @ Join (cs @ [c]) ''/'' = ?d @ slash # c" using False by (simp add: Join_append)
    then have "SplitPath (''/'' @ Join (cs @ [c]) ''/'') = (?d @ ''/'', c)"
      using c cutAt_append [of slash "rev c" "rev ?d"] by (simp add: SplitPath_def cutAtLast_def)
    then have "DirPath (''/'' @ Join (cs @ [c]) ''/'') = Clean (?d @ ''/'')" by (simp add: DirPath_def)
    also have "\<dots> = ''/'' @ Join (cleanRoot (?d @ ''/'')) ''/''" by (rule Clean_rooted) simp
    also have "cleanRoot (?d @ ''/'') = cs"
      using cleanRoot_append [of ?d "[]"] cleanRoot_Join [OF cs] by (simp add: cleanStep_def)
    finally show ?thesis .
  qed
qed

text \<open>
  A symbolic link whose target is an absolute path inside the root is read as a relative link,
  and joined to the link's own directory it names the same target.
\<close>

theorem localReadlink_inside:
  assumes "\<forall>c \<in> set rs. plainComp c" and "rs \<noteq> []" and "\<forall>c \<in> set ds. plainComp c" and "ds \<noteq> []"
    and "\<forall>c \<in> set ts. plainComp c" and "ts \<noteq> []"
    and "fs (''/'' @ Join (rs @ ds) ''/'') = Some (OsLink (''/'' @ Join (rs @ ts) ''/''))"
  shows "\<exists>rel. localReadlink fs (''/'' @ Join rs ''/'') (Join ds ''/'') = Inr rel
    \<and> JoinPath (''/'' @ Join (rs @ butlast ds) ''/'') rel = ''/'' @ Join (rs @ ts) ''/''"
proof -
  let ?root = "''/'' @ Join rs ''/''"
  have i: "insidePath rs (Join ds ''/'') = rs @ ds"
    using assms(3,4) Split_Join_plain cleanComps_plain [OF assms(3), of True "rev rs"] by (simp add: insidePath_def)
  have v: "validatePath ?root (Join ds ''/'') = Inr (''/'' @ Join (rs @ ds) ''/'', Join ds ''/'')"
    using validatePath_inside [OF assms(1,2), of "Join ds ''/''"] i by simp
  have ds: "rs @ ds = (rs @ butlast ds) @ [last ds]" using assms(4) by simp
  have "\<forall>c \<in> set ((rs @ butlast ds) @ [last ds]). plainComp c" using assms(1,3,4) by (auto dest: in_set_butlastD)
  then have dir: "DirPath (''/'' @ Join (rs @ ds) ''/'') = ''/'' @ Join (rs @ butlast ds) ''/''"
    unfolding ds by (rule DirPath_rooted)
  have "HasPrefix (''/'' @ Join (rs @ ts) ''/'') (?root @ ''/'')"
    using assms(2,6) by (simp add: Join_append HasPrefix_def)
  then have "localReadlink fs ?root (Join ds ''/'') =
      Rel (''/'' @ Join (rs @ butlast ds) ''/'') (''/'' @ Join (rs @ ts) ''/'')"
    using assms(7) v dir by (simp add: localReadlink_def osReadlink_def)
  then show ?thesis using Rel_Join [of "rs @ butlast ds" "rs @ ts"] assms by (auto dest: in_set_butlastD)
qed

definition exampleFs :: os_fs where
  "exampleFs =
     [''/srv/site'' \<mapsto> OsDir 0, ''/srv/site/a'' \<mapsto> OsDir 0, ''/srv/site/b'' \<mapsto> OsDir 0,
      ''/srv/site/b/page'' \<mapsto> OsFile ''hello'' 7 True, ''/srv/site/a/link'' \<mapsto> OsLink ''/srv/site/b/page'',
      ''/srv/secret'' \<mapsto> OsFile ''secret'' 7 True]"

theorem localReadlink_inside_witness:
  "\<exists>rel. localReadlink exampleFs ''/srv/site'' ''a/link'' = Inr rel
    \<and> JoinPath ''/srv/site/a'' rel = ''/srv/site/b/page''"
proof -
  have h: "\<forall>c \<in> set [''srv'', ''site'']. plainComp c" "[''srv'', ''site''] \<noteq> []"
    "\<forall>c \<in> set [''a'', ''link'']. plainComp c" "[''a'', ''link''] \<noteq> []"
    "\<forall>c \<in> set [''b'', ''page'']. plainComp c" "[''b'', ''page''] \<noteq> []"
    "exampleFs (''/'' @ Join ([''srv'', ''site''] @ [''a'', ''link'']) ''/'')
      = Some (OsLink (''/'' @ Join ([''srv'', ''site''] @ [''b'', ''page'']) ''/''))"
    by (simp_all add: plainComp_def exampleFs_def)
  show ?thesis using localReadlink_inside [OF h(1-6), of exampleFs, OF h(7)] by simp
qed

text \<open>
  Whatever name a root is asked to open, what it returns is the content of a readable regular
  file at a path below the root's own directory, with no \<open>..\<close> in it: not of a directory, not through
  a symbolic link in the last place.
\<close>

theorem localOpen_contained:
  assumes "\<forall>c \<in> set rs. plainComp c" and "rs \<noteq> []"
    and "localOpen fs (''/'' @ Join rs ''/'') name = Inr f"
  shows "\<exists>cs mtime. (\<forall>c \<in> set cs. plainComp c)
    \<and> fs (''/'' @ Join (rs @ cs) ''/'') = Some (OsFile (fContent f) mtime True)"
proof -
  let ?full = "insidePath rs name"
  have "take (length rs) ?full = rs"
    using assms(3) validatePath_inside [OF assms(1,2), of name]
    by (auto simp: localOpen_def split: if_splits)
  then obtain cs where cs: "?full = rs @ cs" by (metis append_take_drop_id)
  then have pl: "\<forall>c \<in> set cs. plainComp c" using insidePath_plain [OF assms(1), of name] by simp
  have "validatePath (''/'' @ Join rs ''/'') name = Inr (''/'' @ Join (rs @ cs) ''/'', Join cs ''/'')"
    using validatePath_inside [OF assms(1,2), of name] cs by simp
  with assms(3) have "\<exists>mtime. fs (''/'' @ Join (rs @ cs) ''/'') = Some (OsFile (fContent f) mtime True)"
    by (auto simp: localOpen_def osOpenNoFollow_def osLstat_def isRegular_def
        split: sum.splits option.splits os_node.splits if_splits)
  then show ?thesis using pl by blast
qed

theorem localOpen_contained_witness:
  "\<exists>cs mtime. (\<forall>c \<in> set cs. plainComp c)
    \<and> exampleFs (''/'' @ Join ([''srv'', ''site''] @ cs) ''/'') = Some (OsFile ''hello'' mtime True)"
proof -
  have p: "\<forall>c \<in> set [''srv'', ''site'']. plainComp c" "[''srv'', ''site''] \<noteq> []"
    by (simp_all add: plainComp_def)
  have o: "localOpen exampleFs (''/'' @ Join [''srv'', ''site''] ''/'') ''a/../b/page''
      = Inr \<lparr>fContent = ''hello'', fSeekable = True\<rparr>"
    by code_simp
  show ?thesis using localOpen_contained [OF p o] by simp
qed

text \<open>
  A name is accepted exactly when, joined to the root and cleaned, it is the root itself or lies
  below it; the two results are the cleaned full path and its part below the root.  Any other name is
  refused with \<open>invalidPathError\<close>.
\<close>

theorem validatePath_contained:
  assumes "\<forall>c \<in> set rs. plainComp c" and "rs \<noteq> []"
  shows "validatePath (''/'' @ Join rs ''/'') path =
    (if take (length rs) (insidePath rs path) = rs
     then Inr (''/'' @ Join (insidePath rs path) ''/'', Join (drop (length rs) (insidePath rs path)) ''/'')
     else Inl (invalidPathError (''/'' @ Join rs ''/'') (''/'' @ Join (insidePath rs path) ''/'')))"
  by (rule validatePath_inside [OF assms])

theorem validatePath_contained_witness:
  "validatePath ''/srv/site'' ''a/../../secret'' = Inl (invalidPathError ''/srv/site'' ''/srv/secret'')
    \<and> validatePath ''/srv/site'' ''a/./link'' = Inr (''/srv/site/a/link'', ''a/link'')"
proof -
  have p: "\<forall>c \<in> set [''srv'', ''site'']. plainComp c" "[''srv'', ''site''] \<noteq> []"
    by (simp_all add: plainComp_def)
  have "insidePath [''srv'', ''site''] ''a/../../secret'' = [''srv'', ''secret'']"
    "insidePath [''srv'', ''site''] ''a/./link'' = [''srv'', ''site'', ''a'', ''link'']" by code_simp+
  then show ?thesis
    using validatePath_contained [OF p, of "''a/../../secret''"] validatePath_contained [OF p, of "''a/./link''"]
    by simp
qed

text \<open>
  Evaluating symbolic links in a local root returns a name whose entry is no symbolic link, or
  one of \<open>.\<close>, \<open>/\<close> and names that start by going up.
\<close>

theorem EvalSymlinks_local_no_link:
  assumes "EvalSymlinks (localRoot fs rootPath) path = Inr q"
  shows "q \<in> {''.'', ''/'', ''..''} \<or> HasPrefix q ''../''
    \<or> (\<exists>fi. localLstat fs rootPath q = Inr fi \<and> \<not> isSymlink fi)"
  using local_root.EvalSymlinks_no_link [OF assms] by (simp add: localRoot_def)

theorem EvalSymlinks_local_no_link_witness:
  "\<exists>fi. localLstat exampleFs ''/srv/site'' ''b/page'' = Inr fi \<and> \<not> isSymlink fi"
proof -
  have e: "EvalSymlinks (localRoot exampleFs ''/srv/site'') ''a/link'' = Inr ''b/page''" by code_simp
  show ?thesis using EvalSymlinks_local_no_link [OF e] by (simp add: HasPrefix_def)
qed

end
