(* ===== verification/Httpfs.thy ===== *)
theory Httpfs
  imports Vfs_Local
begin

text \<open>
  The transport for archives on the local disk, \<open>internal/httpfs\<close>: a URL with the scheme \<open>file\<close> may name files
  below the allowed paths only.  The working directory (\<open>os.Getwd\<close>, which can fail) and opening a file are
  parameters.  The main lemma says for which names a file is opened, in terms of path components.
\<close>

subsection \<open>http_fs.go\<close>

definition ensureEndingSlash :: "string \<Rightarrow> string" where
  "ensureEndingSlash path = (if HasSuffix path ''/'' then path else path @ ''/'')"

text \<open>\<open>filepath.Abs\<close> with its error.\<close>

definition Abs :: "string res \<Rightarrow> string \<Rightarrow> string res" where
  "Abs cwd path =
     (if IsAbs path then Inr (Clean path)
      else case cwd of Inl err \<Rightarrow> Inl err | Inr wd \<Rightarrow> Inr (JoinPath wd path))"

text \<open>The loop writes each absolute path into the caller's slice, which is the first result; an error leaves an
  empty string at its place and the rest as it was.\<close>

fun absAll :: "string res \<Rightarrow> string list \<Rightarrow> string list \<times> goerr option" where
  "absAll cwd [] = ([], None)"
| "absAll cwd (p # ps) =
     (case Abs cwd (ensureEndingSlash p) of
        Inl err \<Rightarrow> ([] # ps, Some err)
      | Inr a \<Rightarrow> (case absAll cwd ps of (as, err) \<Rightarrow> (a # as, err)))"

definition NewFileSystemPath :: "string res \<Rightarrow> string list \<Rightarrow> string list \<times> string list res" where
  "NewFileSystemPath cwd allowedPaths =
     (case absAll cwd allowedPaths of
        (paths, Some err) \<Rightarrow> (paths, Inl err)
      | (paths, None) \<Rightarrow> (paths, Inr paths))"

fun openAllowed :: "(string \<Rightarrow> vfs_file res) \<Rightarrow> string list \<Rightarrow> string \<Rightarrow> vfs_file res" where
  "openAllowed osOpen [] absPath = Inl ErrPermission"
| "openAllowed osOpen (p # ps) absPath =
     (if HasPrefix absPath (ensureEndingSlash p) then osOpen absPath else openAllowed osOpen ps absPath)"

text \<open>The first check of \<^verbatim>\<open>Open\<close> is void where the separator is a slash.\<close>

definition fileSystemOpen :: "string res \<Rightarrow> (string \<Rightarrow> vfs_file res) \<Rightarrow> string list \<Rightarrow> string \<Rightarrow> vfs_file res" where
  "fileSystemOpen cwd osOpen allowedPaths name =
     (let cleanedPath = Clean (''/'' @ name)
      in case Abs cwd cleanedPath of
           Inl err \<Rightarrow> Inl err
         | Inr absPath \<Rightarrow> openAllowed osOpen allowedPaths absPath)"

subsection \<open>Containment\<close>

text \<open>The components of an allowed path; the empty path stands for the root directory.\<close>

definition allowedComps :: "string \<Rightarrow> string \<Rightarrow> string list" where
  "allowedComps wd p = (if IsAbs p \<or> p = [] then cleanRoot p else cleanRoot (wd @ ''/'' @ p))"

lemma cleanRoot_ending: "cleanRoot (p @ ''/'') = cleanRoot p"
  using cleanRoot_append [of p "[]"] by (simp add: cleanStep_def)

lemma HasSuffix_slash: "HasSuffix p ''/'' \<Longrightarrow> \<exists>q. p = q @ ''/''"
  by (auto simp: HasSuffix_iff_suffix suffix_def)

lemma cleanRoot_ensureEndingSlash: "cleanRoot (w @ ensureEndingSlash p) = cleanRoot (w @ p)"
  using cleanRoot_ending [of "w @ p"] by (simp add: ensureEndingSlash_def)

lemma IsAbs_ensureEndingSlash: "IsAbs (ensureEndingSlash p) \<longleftrightarrow> IsAbs p \<or> p = []"
  by (cases p) (auto simp: IsAbs_def ensureEndingSlash_def HasPrefix_def HasSuffix_def)

lemma Abs_allowed:
  assumes "isRooted wd"
  shows "Abs (Inr wd) (ensureEndingSlash p) = Inr (''/'' @ Join (allowedComps wd p) ''/'')"
proof (cases "IsAbs p \<or> p = []")
  case True
  then have a: "IsAbs (ensureEndingSlash p)" by (simp add: IsAbs_ensureEndingSlash)
  then have "Clean (ensureEndingSlash p) = ''/'' @ Join (cleanRoot (ensureEndingSlash p)) ''/''"
    by (intro Clean_rooted) (simp add: IsAbs_def isRooted_def)
  then show ?thesis using a True cleanRoot_ensureEndingSlash [of "[]" p] by (simp add: Abs_def allowedComps_def)
next
  case False
  then have a: "\<not> IsAbs (ensureEndingSlash p)" by (simp add: IsAbs_ensureEndingSlash)
  have n: "wd \<noteq> []" "ensureEndingSlash p \<noteq> []" using assms False by (auto simp: isRooted_def HasPrefix_def ensureEndingSlash_def)
  then have "JoinPath wd (ensureEndingSlash p) = Clean (wd @ ''/'' @ ensureEndingSlash p)" by (simp add: JoinPath_def)
  also have "\<dots> = ''/'' @ Join (cleanRoot (wd @ ''/'' @ ensureEndingSlash p)) ''/''"
    using assms by (intro Clean_rooted) (cases wd; simp add: isRooted_def HasPrefix_def)
  finally show ?thesis using a False cleanRoot_ensureEndingSlash [of "wd @ ''/''" p] by (simp add: Abs_def allowedComps_def)
qed

lemma absAll_allowed:
  "isRooted wd \<Longrightarrow> absAll (Inr wd) ps = (map (\<lambda>p. ''/'' @ Join (allowedComps wd p) ''/'') ps, None)"
  by (induction ps) (simp_all add: Abs_allowed)

lemma allowedComps_plain: "\<forall>c \<in> set (allowedComps wd p). plainComp c"
  using cleanRoot_plain by (simp add: allowedComps_def)

text \<open>Below a path with components \<open>rs\<close>: its proper extensions, and everything where it is the root directory.\<close>

definition belowComps :: "string list \<Rightarrow> string list \<Rightarrow> bool" where
  "belowComps rs cs \<longleftrightarrow> rs = [] \<or> take (length rs) cs = rs \<and> length rs < length cs"

lemma Join_last: "rs \<noteq> [] \<Longrightarrow> \<exists>p. Join rs sep = p @ last rs"
  by (induction rs sep rule: Join.induct) auto

lemma Join_ending:
  assumes "\<forall>c \<in> set rs. plainComp c" and "rs \<noteq> []"
  shows "ensureEndingSlash (''/'' @ Join rs ''/'') = (''/'' @ Join rs ''/'') @ ''/''"
proof -
  have l: "last rs \<noteq> []" "last (last rs) \<noteq> slash" using plainComp_last assms by auto
  obtain p where "Join rs ''/'' = p @ last rs" using Join_last [OF assms(2)] by blast
  then have "last (''/'' @ Join rs ''/'') \<noteq> slash" using l by (simp add: last_append)
  then have "\<not> HasSuffix (''/'' @ Join rs ''/'') ''/''" by (metis HasSuffix_slash last_snoc)
  then show ?thesis by (simp add: ensureEndingSlash_def)
qed

lemma HasPrefix_below:
  assumes "\<forall>c \<in> set rs. plainComp c" and "\<forall>c \<in> set cs. plainComp c"
  shows "HasPrefix (''/'' @ Join cs ''/'') (ensureEndingSlash (''/'' @ Join rs ''/'')) \<longleftrightarrow> belowComps rs cs"
proof (cases "rs = []")
  case True
  then show ?thesis by (simp add: belowComps_def ensureEndingSlash_def HasPrefix_def HasSuffix_def)
next
  case False
  have "HasPrefix (''/'' @ Join cs ''/'') ((''/'' @ Join rs ''/'') @ ''/'') \<longleftrightarrow> (\<exists>ds. ds \<noteq> [] \<and> cs = rs @ ds)"
    using Join_plain_below [OF assms(2,1) False] by (simp add: HasPrefix_def)
  also have "\<dots> \<longleftrightarrow> belowComps rs cs"
    using False by (auto simp: belowComps_def intro!: exI [of _ "drop (length rs) cs"]) (metis append_take_drop_id)
  finally show ?thesis using Join_ending [OF assms(1) False] by simp
qed

lemma openAllowed_iff:
  "openAllowed osOpen ps absPath
    = (if list_ex (\<lambda>p. HasPrefix absPath (ensureEndingSlash p)) ps then osOpen absPath else Inl ErrPermission)"
  by (induction ps) auto

lemma fileSystemOpen_below:
  assumes "isRooted wd" and "NewFileSystemPath (Inr wd) ps = (ps', Inr allowed)"
  shows "fileSystemOpen cwd osOpen allowed name =
    (if list_ex (\<lambda>p. belowComps (allowedComps wd p) (cleanRoot (''/'' @ name))) ps
     then osOpen (''/'' @ Join (cleanRoot (''/'' @ name)) ''/'') else Inl ErrPermission)"
proof -
  have al: "allowed = map (\<lambda>p. ''/'' @ Join (allowedComps wd p) ''/'') ps"
    using assms by (auto simp: NewFileSystemPath_def absAll_allowed)
  have c: "Clean (''/'' @ name) = ''/'' @ Join (cleanRoot (''/'' @ name)) ''/''" by (intro Clean_rooted) simp
  have "Abs cwd (Clean (''/'' @ name)) = Inr (Clean (''/'' @ name))"
    using Clean_rooted_idem [of "''/'' @ name"] c by (simp add: Abs_def IsAbs_def isRooted_def HasPrefix_def)
  then show ?thesis
    unfolding fileSystemOpen_def Let_def c al
    by (simp add: openAllowed_iff list_ex_iff HasPrefix_below [OF allowedComps_plain cleanRoot_plain] del: append.simps)
qed

text \<open>
  C16: a URL with the scheme \<open>file\<close> opens a file exactly when its name, cleaned, lies below one of the allowed
  paths, taken from the working directory where they are relative: no sequence of dots leads out, and a sibling
  whose name only starts with an allowed name is refused.  Anything else is \<open>os.ErrPermission\<close>.
\<close>

theorem fileSystemOpen_contained:
  assumes "isRooted wd" and "NewFileSystemPath (Inr wd) ps = (ps', Inr allowed)"
  shows "fileSystemOpen cwd osOpen allowed name =
    (if list_ex (\<lambda>p. belowComps (allowedComps wd p) (cleanRoot (''/'' @ name))) ps
     then osOpen (''/'' @ Join (cleanRoot (''/'' @ name)) ''/'') else Inl ErrPermission)"
  by (rule fileSystemOpen_below [OF assms])

theorem fileSystemOpen_contained_witness:
  "fileSystemOpen (Inr ''/srv'') (\<lambda>p. Inr \<lparr>fContent = p, fSeekable = True\<rparr>) [''/srv/pages''] ''srv/pages/a/../b.zip''
     = Inr \<lparr>fContent = ''/srv/pages/b.zip'', fSeekable = True\<rparr>
   \<and> fileSystemOpen (Inr ''/srv'') (\<lambda>p. Inr \<lparr>fContent = p, fSeekable = True\<rparr>) [''/srv/pages''] ''/srv/pages-old/b.zip''
     = Inl ErrPermission"
proof -
  have n: "isRooted ''/srv''" "NewFileSystemPath (Inr ''/srv'') [''pages''] = ([''/srv/pages''], Inr [''/srv/pages''])" by code_simp+
  have "belowComps (allowedComps ''/srv'' ''pages'') (cleanRoot (''/'' @ ''srv/pages/a/../b.zip''))"
    "\<not> belowComps (allowedComps ''/srv'' ''pages'') (cleanRoot (''/'' @ ''/srv/pages-old/b.zip''))"
    "''/'' @ Join (cleanRoot (''/'' @ ''srv/pages/a/../b.zip'')) ''/'' = ''/srv/pages/b.zip''" by code_simp+
  then show ?thesis by (simp add: fileSystemOpen_contained [OF n] del: append.simps)
qed

text \<open>A relative path allowed from inside that very directory names the directory of the same name below it.\<close>

lemma relative_root_below:
  assumes "\<forall>c \<in> set ws. plainComp c" and "\<forall>c \<in> set qs. plainComp c" and "qs \<noteq> []" and "\<forall>c \<in> set fs. plainComp c"
    and "NewFileSystemPath (Inr (''/'' @ Join (ws @ qs) ''/'')) [Join qs ''/''] = (ps', Inr allowed)"
  shows "fileSystemOpen cwd osOpen allowed (Join (ws @ qs @ fs) ''/'')
    = (if belowComps qs fs then osOpen (''/'' @ Join (ws @ qs @ fs) ''/'') else Inl ErrPermission)"
proof -
  let ?wd = "''/'' @ Join (ws @ qs) ''/''"
  have pl: "\<forall>c \<in> set (ws @ qs). plainComp c" "\<forall>c \<in> set (ws @ qs @ qs). plainComp c" "\<forall>c \<in> set (ws @ qs @ fs). plainComp c"
    using assms by auto
  obtain q qs' where q: "qs = q # qs'" using assms(3) by (cases qs) auto
  then have hd: "Join qs ''/'' \<noteq> []" "\<not> IsAbs (Join qs ''/'')"
    using assms(2) by (cases q; cases qs'; auto simp: plainComp_def IsAbs_def HasPrefix_def)+
  have "?wd @ ''/'' @ Join qs ''/'' = ''/'' @ Join (ws @ qs @ qs) ''/''"
    using assms(3) Join_append [of "ws @ qs" qs "''/''"] by simp
  then have a: "allowedComps ?wd (Join qs ''/'') = ws @ qs @ qs"
    using hd cleanRoot_Join [OF pl(2)] by (simp add: allowedComps_def del: append.simps)
  have "belowComps (ws @ qs @ qs) (ws @ qs @ fs) \<longleftrightarrow> belowComps qs fs" using assms(3) by (simp add: belowComps_def)
  moreover have "isRooted ?wd" by simp
  note fileSystemOpen_below [OF this assms(5), of cwd osOpen "Join (ws @ qs @ fs) ''/''"]
  ultimately show ?thesis using a cleanRoot_Join [OF pl(3)] by (simp del: append.simps)
qed

lemma fileSystemOpen_slash: "fileSystemOpen cwd osOpen allowed (''/'' @ name) = fileSystemOpen cwd osOpen allowed name"
proof -
  have "cleanRoot (''/'' @ n) = cleanRoot n" for n
    using cleanRoot_append [of "[]" n] by (simp add: cleanRoot_def cleanStep_def)
  then have "Clean (''/'' @ ''/'' @ name) = Clean (''/'' @ name)"
    using Clean_rooted [of "''/'' @ ''/'' @ name"] Clean_rooted [of "''/'' @ name"] by simp
  then show ?thesis by (simp add: fileSystemOpen_def)
qed

end
