(* ===== verification/Zip_Setup.thy ===== *)
theory Zip_Setup
  imports Vfs_Zip Httpfs Config Gitlab_Source
begin

text \<open>
  Construction and configuration of the file system of archives, \<open>New\<close> and \<open>Reconfigure\<close> of
  \<open>internal/vfs/zip/vfs.go\<close>.  The HTTP client is represented by the paths its transport for the scheme
  \<open>file\<close> allows, if one is registered: \<^verbatim>\<open>http.Transport\<close> panics when a scheme is registered twice.  A new cache is
  a parameter, a function of its two intervals.
\<close>

record 's zip_instance =
  ziVfs :: "'s zip_vfs"
  ziOpenTimeout :: int
  ziCleanupInterval :: int
  ziFile :: "string list option"

definition resetCache :: "(int \<Rightarrow> int \<Rightarrow> 's) \<Rightarrow> 's zip_instance \<Rightarrow> 's zip_instance" where
  "resetCache newCache zi =
     zi\<lparr>ziVfs := (ziVfs zi)\<lparr>zvCache := newCache (zvExpirationInterval (ziVfs zi)) (ziCleanupInterval zi)\<rparr>\<rparr>"

text \<open>No archive has been created, so what the heap holds is irrelevant; the cache is set by \<^verbatim>\<open>resetCache\<close>.\<close>

definition newZipVFS :: "(int \<Rightarrow> int \<Rightarrow> 's) \<Rightarrow> zip_serving_config \<Rightarrow> 's zip_instance" where
  "newZipVFS newCache c =
     resetCache newCache
       \<lparr>ziVfs = \<lparr>zvCache = newCache 0 0, zvHeap = newArchive, zvArchiveCount = 0,
          zvExpirationInterval = zcExpirationInterval c, zvRefreshInterval = zcRefreshInterval c\<rparr>,
        ziOpenTimeout = zcOpenTimeout c, ziCleanupInterval = zcCleanupInterval c, ziFile = None\<rparr>"

text \<open>\<^verbatim>\<open>serving/disk/zip\<close> makes its instance from the zero configuration.\<close>

definition zipServingInstance :: "(int \<Rightarrow> int \<Rightarrow> 's) \<Rightarrow> 's zip_instance" where
  "zipServingInstance newCache =
     newZipVFS newCache
       \<lparr>zcExpirationInterval = 0, zcCleanupInterval = 0, zcRefreshInterval = 0, zcOpenTimeout = 0, zcAllowedPaths = []\<rparr>"

definition reconfigureTransport ::
  "string res \<Rightarrow> zip_serving_config \<Rightarrow> 's zip_instance \<Rightarrow> goerr option outcome \<times> zip_serving_config \<times> 's zip_instance"
where
  "reconfigureTransport cwd c zi =
     (case NewFileSystemPath cwd (zcAllowedPaths c) of
        (paths, Inl err) \<Rightarrow> (Returns (Some err), c\<lparr>zcAllowedPaths := paths\<rparr>, zi)
      | (paths, Inr fs) \<Rightarrow>
          (if ziFile zi \<noteq> None then (Panics, c\<lparr>zcAllowedPaths := paths\<rparr>, zi)
           else (Returns None, c\<lparr>zcAllowedPaths := paths\<rparr>, zi\<lparr>ziFile := Some fs\<rparr>)))"

definition Reconfigure ::
  "(int \<Rightarrow> int \<Rightarrow> 's) \<Rightarrow> string res \<Rightarrow> zip_serving_config \<Rightarrow> 's zip_instance
    \<Rightarrow> goerr option outcome \<times> zip_serving_config \<times> 's zip_instance"
where
  "Reconfigure newCache cwd c zi =
     (let zi' = zi\<lparr>ziOpenTimeout := zcOpenTimeout c, ziCleanupInterval := zcCleanupInterval c,
            ziVfs := (ziVfs zi)\<lparr>zvExpirationInterval := zcExpirationInterval c, zvRefreshInterval := zcRefreshInterval c\<rparr>\<rparr>
      in case reconfigureTransport cwd c zi' of
           (Returns None, c', zi'') \<Rightarrow> (Returns None, c', resetCache newCache zi'')
         | (x, c', zi'') \<Rightarrow> (x, c', zi''))"

text \<open>The file that the transport opens for a URL with the scheme \<open>file\<close>: \<^verbatim>\<open>http.NewFileTransport\<close> passes the path
  of the URL, cleaned, which \<^verbatim>\<open>Open\<close> cleans again.\<close>

definition openFileURL :: "(string \<Rightarrow> vfs_file res) \<Rightarrow> string res \<Rightarrow> 's zip_instance \<Rightarrow> url \<Rightarrow> vfs_file res" where
  "openFileURL osOpen cwd zi u =
     (case ziFile zi of
        None \<Rightarrow> Inl (otherErr ''unsupported protocol scheme'')
      | Some allowed \<Rightarrow> fileSystemOpen cwd osOpen allowed (uPath u))"

lemma Reconfigure_file:
  assumes "Reconfigure newCache cwd c zi = (Returns None, c', zi')"
  shows "\<exists>allowed. ziFile zi' = Some allowed \<and> NewFileSystemPath cwd (zcAllowedPaths c) = (zcAllowedPaths c', Inr allowed)"
  using assms
  by (auto simp: Reconfigure_def reconfigureTransport_def resetCache_def Let_def split: prod.splits sum.splits outcome.splits option.splits if_splits)

lemma NewFileSystemPath_rooted:
  "isRooted wd \<Longrightarrow> \<exists>ps. NewFileSystemPath (Inr wd) paths = (ps, Inr ps)"
  by (simp add: NewFileSystemPath_def absAll_allowed)

text \<open>The first configuration of the instance works; a second one cannot, because the scheme is taken.\<close>

lemma Reconfigure_twice:
  assumes "isRooted wd" and "isRooted wd'"
  shows "\<exists>c1 z1. Reconfigure newCache (Inr wd) c (zipServingInstance newCache) = (Returns None, c1, z1)
    \<and> fst (Reconfigure newCache (Inr wd') c' z1) = Panics"
proof -
  obtain ps where ps: "NewFileSystemPath (Inr wd) (zcAllowedPaths c) = (ps, Inr ps)"
    using NewFileSystemPath_rooted [OF assms(1)] by blast
  obtain ps' where ps': "NewFileSystemPath (Inr wd') (zcAllowedPaths c') = (ps', Inr ps')"
    using NewFileSystemPath_rooted [OF assms(2)] by blast
  have "ziFile (zipServingInstance newCache) = None" by (simp add: zipServingInstance_def newZipVFS_def resetCache_def)
  then show ?thesis using ps ps' by (simp add: Reconfigure_def reconfigureTransport_def resetCache_def Let_def)
qed

end
