(* ===== verification/Startup.thy ===== *)
theory Startup
  imports App Netutil Zip_Setup
begin

text \<open>
  The start of the daemon: \<open>main.go\<close>, \<open>helpers.go\<close>, \<open>runApp\<close> and \<open>Run\<close> of \<open>app.go\<close>, and \<open>server.go\<close>.  A
  start ends in \<open>Fatal\<close> (a fatal log entry exits with status 1), in \<open>Quits\<close> (status 0 after printing) or in a
  running daemon.  What the start asks of the machine and of third-party packages is the record \<open>start_env\<close>.
  Error reporting, the MIME database and log output cannot stop the start and are left out.  The main lemmas say
  what holds of a daemon that runs.
\<close>

subsection \<open>Environment\<close>

datatype 'a startup = Fatal string | Quits string | Runs 'a

fun startThen :: "'a startup \<Rightarrow> ('a \<Rightarrow> 'b startup) \<Rightarrow> 'b startup" where
  "startThen (Fatal msg) f = Fatal msg"
| "startThen (Quits out) f = Quits out"
| "startThen (Runs x) f = f x"

definition fatalOn :: "string \<Rightarrow> 'a res \<Rightarrow> 'a startup" where
  "fatalOn msg x = (case x of Inl err \<Rightarrow> Fatal msg | Inr a \<Rightarrow> Runs a)"

definition fatalIf :: "string \<Rightarrow> goerr option \<Rightarrow> unit startup" where
  "fatalIf msg err = (case err of None \<Rightarrow> Runs () | Some e \<Rightarrow> Fatal msg)"

text \<open>
  The arguments and the parsed flags; reading a file; \<open>log.Initialize\<close> with a formatter and a level, and for the access
  log; changing the directory and the working directory afterwards; opening the \<open>n\<close>-th socket on an address;
  making a listener of a descriptor; cryptography, HTTP clients, the cookie store, the signing and decoding of the API
  client, its cache, certificates, the cache of archives.
\<close>

record ('s, 'z) start_env =
  stVersion :: string
  stArgs :: "string list"
  stFlags :: flags
  stReadFile :: "string \<Rightarrow> string res"
  stInitLog :: "string \<Rightarrow> string \<Rightarrow> goerr option"
  stInitAccess :: "goerr option"
  stChdir :: "string \<Rightarrow> goerr option"
  stGetwd :: "string \<Rightarrow> string res"
  stSocket :: "nat \<Rightarrow> string \<Rightarrow> nat res"
  stFileListener :: "nat \<Rightarrow> goerr option"
  stCrypto :: crypto
  stAuthDo :: http_do
  stCookieGet :: "string \<Rightarrow> string \<Rightarrow> request \<Rightarrow> session \<times> goerr option"
  stCookieSave :: "string \<Rightarrow> string \<Rightarrow> session \<Rightarrow> request \<Rightarrow> response \<Rightarrow> goerr option \<times> response"
  stArtifactDo :: http_do
  stSign :: "string \<Rightarrow> jwt_claims \<Rightarrow> string res"
  stDecode :: "string \<Rightarrow> virtual_domain option res"
  stApiDo :: http_do
  stNewCache :: "gitlab_client \<Rightarrow> cache_config \<Rightarrow> 's lookups"
  stX509 :: "string \<Rightarrow> string \<Rightarrow> string res"
  stZipCache :: "int \<Rightarrow> int \<Rightarrow> 'z"

subsection \<open>Logging\<close>

definition ConfigureLogging :: "(string \<Rightarrow> string \<Rightarrow> goerr option) \<Rightarrow> string \<Rightarrow> bool \<Rightarrow> goerr option" where
  "ConfigureLogging initLog format verbose =
     initLog (if format = [] then ''json'' else format) (if verbose then ''trace'' else ''info'')"

definition getAccessLogger :: "goerr option \<Rightarrow> string \<Rightarrow> goerr option" where
  "getAccessLogger initAccess format = (if format \<noteq> ''text'' \<and> format \<noteq> [] then None else initAccess)"

subsection \<open>Sockets\<close>

definition createSocket :: "('s, 'z) start_env \<Rightarrow> nat \<Rightarrow> string \<Rightarrow> nat startup" where
  "createSocket env n addr = fatalOn ''could not create socket'' (stSocket env n addr)"

fun createSockets :: "('s, 'z) start_env \<Rightarrow> nat \<Rightarrow> string list \<Rightarrow> nat list startup" where
  "createSockets env n [] = Runs []"
| "createSockets env n (addr # addrs) =
     startThen (createSocket env n addr) (\<lambda>fd.
     startThen (createSockets env (Suc n) addrs) (\<lambda>fds. Runs (fd # fds)))"

text \<open>Also the number of sockets made.\<close>

definition createAppListeners :: "('s, 'z) start_env \<Rightarrow> config \<Rightarrow> (config \<times> nat) startup" where
  "createAppListeners env c =
     (let as1 = mfSplit (cfListenHTTPStrings c); as2 = mfSplit (cfListenHTTPSStrings c);
          as3 = mfSplit (cfListenProxyStrings c); as4 = mfSplit (cfListenHTTPSProxyv2Strings c);
          n2 = length as1; n3 = n2 + length as2; n4 = n3 + length as3
      in startThen (createSockets env 0 as1) (\<lambda>http.
         startThen (createSockets env n2 as2) (\<lambda>https.
         startThen (createSockets env n3 as3) (\<lambda>proxy.
         startThen (createSockets env n4 as4) (\<lambda>proxyv2.
           Runs (c\<lparr>cfListeners := \<lparr>lsHTTP = http, lsHTTPS = https, lsProxy = proxy, lsHTTPSProxyv2 = proxyv2\<rparr>\<rparr>,
                 n4 + length as4))))))"

definition createMetricsListener :: "('s, 'z) start_env \<Rightarrow> nat \<Rightarrow> config \<Rightarrow> config startup" where
  "createMetricsListener env n c =
     (let addr = gMetricsAddress (cfGeneral c)
      in if addr = [] then Runs c
         else startThen (createSocket env n addr) (\<lambda>fd. Runs (c\<lparr>cfListenMetrics := fd\<rparr>)))"

subsection \<open>server.go\<close>

datatype go_listener =
    FileListener nat
  | SharedLimit go_listener
  | KeepAlive go_listener
  | ProxyProto go_listener
  | TLSListener go_listener

datatype handler_kind = HttpHandler | ProxyHandler

record listener_config =
  lcFd :: nat
  lcProxyV2 :: bool
  lcTLS :: bool
  lcLimited :: bool
  lcHandler :: handler_kind

record server =
  srvListener :: go_listener
  srvHandler :: handler_kind
  srvNextProtos :: "string list"

definition listenAndServe :: "(nat \<Rightarrow> goerr option) \<Rightarrow> listener_config \<Rightarrow> server res" where
  "listenAndServe fileListener lc =
     (case fileListener (lcFd lc) of
        Some err \<Rightarrow> Inl (errWrapped ''failed to listen'' err)
      | None \<Rightarrow>
          (let l1 = FileListener (lcFd lc);
               l2 = (if lcLimited lc then SharedLimit l1 else l1);
               l3 = KeepAlive l2;
               l4 = (if lcProxyV2 lc then ProxyProto l3 else l3);
               l5 = (if lcTLS lc then TLSListener l4 else l4)
           in Inr \<lparr>srvListener = l5, srvHandler = lcHandler lc, srvNextProtos = (if lcTLS lc then [''h2''] else [])\<rparr>))"

text \<open>The connection that a listener returns: \<^verbatim>\<open>conn.(keepAliveSetter)\<close> panics on one without these methods.\<close>

datatype conn_kind = TCPConn | UnixConn | LimitedConn bool | ProxyConn | TLSConn

definition isKeepAliveSetter :: "conn_kind \<Rightarrow> bool" where
  "isKeepAliveSetter c = (case c of TCPConn \<Rightarrow> True | LimitedConn tcp \<Rightarrow> True | _ \<Rightarrow> False)"

definition keepAliveAccept :: "conn_kind \<Rightarrow> conn_kind outcome" where
  "keepAliveAccept c = (if isKeepAliveSetter c then Returns c else Panics)"

fun listenerAccept :: "(nat \<Rightarrow> conn_kind) \<Rightarrow> go_listener \<Rightarrow> conn_kind outcome" where
  "listenerAccept accepts (FileListener fd) = Returns (accepts fd)"
| "listenerAccept accepts (SharedLimit l) =
     (case listenerAccept accepts l of Returns c \<Rightarrow> Returns (LimitedConn (c = TCPConn)) | Panics \<Rightarrow> Panics)"
| "listenerAccept accepts (KeepAlive l) =
     (case listenerAccept accepts l of Returns c \<Rightarrow> keepAliveAccept c | Panics \<Rightarrow> Panics)"
| "listenerAccept accepts (ProxyProto l) =
     (case listenerAccept accepts l of Returns c \<Rightarrow> Returns ProxyConn | Panics \<Rightarrow> Panics)"
| "listenerAccept accepts (TLSListener l) =
     (case listenerAccept accepts l of Returns c \<Rightarrow> Returns TLSConn | Panics \<Rightarrow> Panics)"

subsection \<open>app.go: Run\<close>

definition listenHTTPFD :: "bool \<Rightarrow> nat \<Rightarrow> listener_config" where
  "listenHTTPFD limited fd =
     \<lparr>lcFd = fd, lcProxyV2 = False, lcTLS = False, lcLimited = limited, lcHandler = HttpHandler\<rparr>"

definition listenHTTPSFD :: "bool \<Rightarrow> nat \<Rightarrow> listener_config" where
  "listenHTTPSFD limited fd =
     \<lparr>lcFd = fd, lcProxyV2 = False, lcTLS = True, lcLimited = limited, lcHandler = HttpHandler\<rparr>"

definition listenProxyFD :: "bool \<Rightarrow> nat \<Rightarrow> listener_config" where
  "listenProxyFD limited fd =
     \<lparr>lcFd = fd, lcProxyV2 = False, lcTLS = False, lcLimited = limited, lcHandler = ProxyHandler\<rparr>"

definition ListenHTTPSProxyv2FD :: "bool \<Rightarrow> nat \<Rightarrow> listener_config" where
  "ListenHTTPSProxyv2FD limited fd =
     \<lparr>lcFd = fd, lcProxyV2 = True, lcTLS = True, lcLimited = limited, lcHandler = HttpHandler\<rparr>"

text \<open>The goroutine of a listener; an error ends the process.\<close>

definition startServer :: "('s, 'z) start_env \<Rightarrow> 's the_app \<Rightarrow> listener_config \<Rightarrow> server startup" where
  "startServer env a lc =
     startThen (if lcTLS lc then fatalOn ''capturing fatal'' (map_sum id (\<lambda>t. ()) (TLSConfig (stX509 env) a)) else Runs ()) (\<lambda>_.
     fatalOn ''capturing fatal'' (listenAndServe (stFileListener env) lc))"

fun startServers :: "('s, 'z) start_env \<Rightarrow> 's the_app \<Rightarrow> listener_config list \<Rightarrow> server list startup" where
  "startServers env a [] = Runs []"
| "startServers env a (lc # lcs) =
     startThen (startServer env a lc) (\<lambda>srv. startThen (startServers env a lcs) (\<lambda>srvs. Runs (srv # srvs)))"

definition listenMetricsFD :: "('s, 'z) start_env \<Rightarrow> nat \<Rightarrow> unit startup" where
  "listenMetricsFD env fd = fatalIf ''capturing fatal'' (stFileListener env fd)"

definition listenerConfigs :: "bool \<Rightarrow> listeners \<Rightarrow> listener_config list" where
  "listenerConfigs limited ls =
     map (listenHTTPFD limited) (lsHTTP ls) @ map (listenHTTPSFD limited) (lsHTTPS ls)
     @ map (listenProxyFD limited) (lsProxy ls) @ map (ListenHTTPSProxyv2FD limited) (lsHTTPSProxyv2 ls)"

text \<open>How often the wait group is added to, and how often its goroutines are done with it.\<close>

definition waitAdds :: "config \<Rightarrow> nat" where
  "waitAdds c =
     (let ls = cfListeners c
      in length (lsHTTP ls) + length (lsHTTPS ls) + 2 * length (lsProxy ls) + length (lsHTTPSProxyv2 ls)
         + (if cfListenMetrics c \<noteq> 0 then 1 else 0))"

definition waitDones :: "config \<Rightarrow> nat" where
  "waitDones c =
     (let ls = cfListeners c
      in length (lsHTTP ls) + length (lsHTTPS ls) + length (lsProxy ls) + length (lsHTTPSProxyv2 ls)
         + (if cfListenMetrics c \<noteq> 0 then 1 else 0))"

record ('s, 'z) daemon =
  dmApp :: "'s the_app"
  dmZip :: "'z zip_instance"
  dmLimiter :: "conn_limiter option"
  dmServers :: "server list"

definition Run :: "('s, 'z) start_env \<Rightarrow> 's the_app \<Rightarrow> 'z zip_instance \<Rightarrow> ('s, 'z) daemon startup" where
  "Run env a zi =
     (let c = apConfig a;
          limiter = (if gMaxConns (cfGeneral c) > 0 then Some (NewLimiterWithMetrics (nat (gMaxConns (cfGeneral c)))) else None)
      in startThen (fatalIf ''Unable to configure pipeline'' (getAccessLogger (stInitAccess env) (lgFormat (cfLog c)))) (\<lambda>_.
         startThen (startServers env a (listenerConfigs (limiter \<noteq> None) (cfListeners c))) (\<lambda>srvs.
         startThen (if cfListenMetrics c \<noteq> 0 then listenMetricsFD env (cfListenMetrics c) else Runs ()) (\<lambda>_.
         Runs \<lparr>dmApp = a, dmZip = zi, dmLimiter = limiter, dmServers = srvs\<rparr>))))"

text \<open>What a server does with a request: the common pipeline behind one of two middlewares.  \<open>proxyHeaders\<close> is
  \<^verbatim>\<open>handlers.ProxyHeaders\<close> of the package gorilla/handlers, which rewrites a request from its headers.\<close>

definition serverHandler :: "(request \<Rightarrow> request) \<Rightarrow> 't http_handler \<Rightarrow> handler_kind \<Rightarrow> 't http_handler" where
  "serverHandler proxyHeaders pipeline kind =
     (case kind of
        HttpHandler \<Rightarrow> httpInitialMiddleware pipeline
      | ProxyHandler \<Rightarrow> proxyInitialMiddleware (\<lambda>r. pipeline (proxyHeaders r)))"

subsection \<open>app.go: runApp\<close>

definition newSource :: "('s, 'z) start_env \<Rightarrow> gitlab_config \<Rightarrow> 's domain_source res" where
  "newSource env c =
     (case NewClient (glInternalServer c) (glAPISecretKey c) (glClientHTTPTimeout c) (glJWTTokenExpiration c)
             (stSign env) (stDecode env) (stApiDo env) of
        Inl err \<Rightarrow> Inl err
      | Inr gc \<Rightarrow> Inr (GetDomain (stNewCache env gc (glCache c)) (glEnableDisk c)))"

definition setAuth :: "('s, 'z) start_env \<Rightarrow> config \<Rightarrow> auth option startup" where
  "setAuth env c =
     (let a = cfAuthentication c
      in if acClientID a = [] then Runs None
         else startThen (fatalOn ''could not initialize auth package''
                (newAuth (stCrypto env) (stAuthDo env) (stCookieGet env) (stCookieSave env) (gDomain (cfGeneral c))
                  (acSecret a) (acClientID a) (acClientSecret a) (acRedirectURI a) (glInternalServer (cfGitLab c))
                  (glPublicServer (cfGitLab c)) (acScope a)))
              (\<lambda>au. Runs (Some au)))"

definition setCustomHeaders :: "config \<Rightarrow> custom_headers startup" where
  "setCustomHeaders c =
     (if gCustomHeaders (cfGeneral c) = [] then Runs []
      else fatalOn ''Unable to parse header string'' (ParseHeaderString (gCustomHeaders (cfGeneral c))))"

text \<open>A panic while the archives are configured also ends the process; the instance has not been configured before.\<close>

definition setZip :: "('s, 'z) start_env \<Rightarrow> config \<Rightarrow> (config \<times> 'z zip_instance) startup" where
  "setZip env c =
     (case Reconfigure (stZipCache env) (stGetwd env (gRootDir (cfGeneral c))) (cfZip c) (zipServingInstance (stZipCache env)) of
        (Returns None, z, zi) \<Rightarrow> Runs (c\<lparr>cfZip := z\<rparr>, zi)
      | _ \<Rightarrow> Fatal ''failed to reconfigure zip VFS'')"

definition runApp :: "('s, 'z) start_env \<Rightarrow> config \<Rightarrow> ('s, 'z) daemon startup" where
  "runApp env c =
     startThen (fatalOn ''could not create domains config source'' (newSource env (cfGitLab c))) (\<lambda>source.
     startThen (fatalIf ''Failed to initialize logging'' (ConfigureLogging (stInitLog env) (lgFormat (cfLog c)) (lgVerbose (cfLog c)))) (\<lambda>_.
     startThen (setAuth env c) (\<lambda>au.
     startThen (setCustomHeaders c) (\<lambda>headers.
     startThen (setZip env c) (\<lambda>(c', zi).
     Run env
       \<lparr>apConfig = c', apSource = source,
        apArtifact =
          (if asURL (cfArtifactsServer c) = [] then None
           else Some (newArtifact (stArtifactDo env) (asURL (cfArtifactsServer c)) (gDomain (cfGeneral c)))),
        apAuth = au,
        apAcme = (if glPublicServer (cfGitLab c) = [] then None else Some (glPublicServer (cfGitLab c))),
        apCustomHeaders = headers\<rparr> zi)))))"

subsection \<open>main.go\<close>

definition printVersion :: "bool \<Rightarrow> string \<Rightarrow> unit startup" where
  "printVersion showVersion version = (if showVersion then Quits (version @ ''\<newline>'') else Runs ())"

definition appMain :: "('s, 'z) start_env \<Rightarrow> ('s, 'z) daemon startup" where
  "appMain env =
     (if NotAllowed (stArgs env) \<noteq> [] then Fatal ''Using invalid arguments, use -config=gitlab-pages-config file instead''
      else
        startThen (fatalOn ''Failed to load config'' (loadConfig (stReadFile env) (stFlags env))) (\<lambda>c.
        startThen (printVersion (gShowVersion (cfGeneral c)) (stVersion env)) (\<lambda>_.
        if Validate (stFlags env) c \<noteq> [] then Fatal ''invalid config settings''
        else
          startThen (fatalIf ''Failed to initialize logging'' (ConfigureLogging (stInitLog env) (lgFormat (cfLog c)) (lgVerbose (cfLog c)))) (\<lambda>_.
          startThen (fatalIf ''could not change directory into pagesRoot'' (stChdir env (gRootDir (cfGeneral c)))) (\<lambda>_.
          startThen (createAppListeners env c) (\<lambda>(c1, n).
          startThen (createMetricsListener env n c1) (\<lambda>c2.
          runApp env c2)))))))"

subsection \<open>A daemon that runs\<close>

lemma startThen_Runs: "startThen x f = Runs y \<longleftrightarrow> (\<exists>a. x = Runs a \<and> f a = Runs y)"
  by (cases x) auto

lemma fatalOn_Runs: "fatalOn msg x = Runs a \<longleftrightarrow> x = Inr a"
  by (auto simp: fatalOn_def split: sum.split)

lemma fatalIf_Runs: "fatalIf msg err = Runs a \<longleftrightarrow> err = None"
  by (auto simp: fatalIf_def split: option.split)

lemmas runs_simps = startThen_Runs fatalOn_Runs fatalIf_Runs

lemma createSockets_length: "createSockets env n addrs = Runs fds \<Longrightarrow> length fds = length addrs"
  by (induction addrs arbitrary: n fds) (auto simp: runs_simps)

lemma createAppListeners_Runs:
  assumes "createAppListeners env c = Runs (c1, n)"
  shows "\<exists>ls. c1 = c\<lparr>cfListeners := ls\<rparr> \<and> length (lsHTTP ls) = length (mfSplit (cfListenHTTPStrings c))
    \<and> length (lsHTTPS ls) = length (mfSplit (cfListenHTTPSStrings c))
    \<and> length (lsProxy ls) = length (mfSplit (cfListenProxyStrings c))
    \<and> length (lsHTTPSProxyv2 ls) = length (mfSplit (cfListenHTTPSProxyv2Strings c))"
  using assms by (auto simp: createAppListeners_def Let_def runs_simps dest!: createSockets_length)

lemma createMetricsListener_Runs:
  "createMetricsListener env n c = Runs c' \<Longrightarrow> \<exists>fd. c' = c\<lparr>cfListenMetrics := fd\<rparr>"
  by (cases "gMetricsAddress (cfGeneral c) = []")
    (auto simp: createMetricsListener_def Let_def runs_simps intro: exI [of _ "cfListenMetrics c"])

lemma setZip_Runs:
  assumes "setZip env c = Runs (c', zi)"
  shows "\<exists>z. c' = c\<lparr>cfZip := z\<rparr>
    \<and> Reconfigure (stZipCache env) (stGetwd env (gRootDir (cfGeneral c))) (cfZip c) (zipServingInstance (stZipCache env)) = (Returns None, z, zi)"
  using assms by (auto simp: setZip_def split: prod.splits outcome.splits option.splits)

lemma startServers_Runs:
  "startServers env a lcs = Runs srvs \<Longrightarrow> list_all2 (\<lambda>lc srv. listenAndServe (stFileListener env) lc = Inr srv) lcs srvs"
  by (induction lcs arbitrary: srvs) (auto simp: runs_simps startServer_def)

lemma Run_Runs:
  assumes "Run env a zi = Runs d"
  shows "dmApp d = a" and "dmZip d = zi"
    and "startServers env a (listenerConfigs (gMaxConns (cfGeneral (apConfig a)) > 0) (cfListeners (apConfig a))) = Runs (dmServers d)"
    and "dmLimiter d \<noteq> None \<longleftrightarrow> gMaxConns (cfGeneral (apConfig a)) > 0"
  using assms by (auto simp: Run_def Let_def runs_simps split: if_splits)

lemma runApp_Runs:
  assumes "runApp env c = Runs d"
  shows "\<exists>c'. setZip env c = Runs (c', dmZip d) \<and> apConfig (dmApp d) = c'
    \<and> startServers env (dmApp d) (listenerConfigs (gMaxConns (cfGeneral c') > 0) (cfListeners c')) = Runs (dmServers d)
    \<and> setAuth env c = Runs (apAuth (dmApp d))"
proof -
  obtain c' zi a where z: "setZip env c = Runs (c', zi)" and r: "Run env a zi = Runs d"
    and a: "apConfig a = c'" "setAuth env c = Runs (apAuth a)"
    using assms unfolding runApp_def runs_simps by fastforce
  show ?thesis using z a Run_Runs [OF r] by (intro exI [of _ c']) simp
qed

lemma appMain_Runs:
  assumes "appMain env = Runs d"
  shows "NotAllowed (stArgs env) = []"
    and "\<exists>c ls fd z. loadConfig (stReadFile env) (stFlags env) = Inr c \<and> Validate (stFlags env) c = []
      \<and> length (lsHTTP ls) = length (mfSplit (cfListenHTTPStrings c))
      \<and> length (lsHTTPS ls) = length (mfSplit (cfListenHTTPSStrings c))
      \<and> length (lsProxy ls) = length (mfSplit (cfListenProxyStrings c))
      \<and> length (lsHTTPSProxyv2 ls) = length (mfSplit (cfListenHTTPSProxyv2Strings c))
      \<and> Reconfigure (stZipCache env) (stGetwd env (gRootDir (cfGeneral c))) (cfZip c) (zipServingInstance (stZipCache env))
        = (Returns None, z, dmZip d)
      \<and> setAuth env (c\<lparr>cfListeners := ls, cfListenMetrics := fd\<rparr>) = Runs (apAuth (dmApp d))
      \<and> apConfig (dmApp d) = c\<lparr>cfListeners := ls, cfListenMetrics := fd, cfZip := z\<rparr>
      \<and> startServers env (dmApp d) (listenerConfigs (gMaxConns (cfGeneral c) > 0) ls) = Runs (dmServers d)"
proof -
  show "NotAllowed (stArgs env) = []" using assms by (auto simp: appMain_def split: if_splits)
  obtain c c1 n c2 where c: "loadConfig (stReadFile env) (stFlags env) = Inr c" "Validate (stFlags env) c = []"
    and l: "createAppListeners env c = Runs (c1, n)" and m: "createMetricsListener env n c1 = Runs c2"
    and r: "runApp env c2 = Runs d"
    using assms by (auto simp: appMain_def runs_simps split: if_splits)
  obtain ls where ls: "c1 = c\<lparr>cfListeners := ls\<rparr>" "length (lsHTTP ls) = length (mfSplit (cfListenHTTPStrings c))"
    "length (lsHTTPS ls) = length (mfSplit (cfListenHTTPSStrings c))"
    "length (lsProxy ls) = length (mfSplit (cfListenProxyStrings c))"
    "length (lsHTTPSProxyv2 ls) = length (mfSplit (cfListenHTTPSProxyv2Strings c))"
    using createAppListeners_Runs [OF l] by blast
  obtain fd where fd: "c2 = c1\<lparr>cfListenMetrics := fd\<rparr>" using createMetricsListener_Runs [OF m] by blast
  obtain c3 where c3: "setZip env c2 = Runs (c3, dmZip d)" "apConfig (dmApp d) = c3"
    "startServers env (dmApp d) (listenerConfigs (gMaxConns (cfGeneral c3) > 0) (cfListeners c3)) = Runs (dmServers d)"
    "setAuth env c2 = Runs (apAuth (dmApp d))"
    using runApp_Runs [OF r] by blast
  obtain z where z: "c3 = c2\<lparr>cfZip := z\<rparr>"
    "Reconfigure (stZipCache env) (stGetwd env (gRootDir (cfGeneral c2))) (cfZip c2) (zipServingInstance (stZipCache env)) = (Returns None, z, dmZip d)"
    using setZip_Runs [OF c3(1)] by blast
  show "\<exists>c ls fd z. loadConfig (stReadFile env) (stFlags env) = Inr c \<and> Validate (stFlags env) c = []
      \<and> length (lsHTTP ls) = length (mfSplit (cfListenHTTPStrings c))
      \<and> length (lsHTTPS ls) = length (mfSplit (cfListenHTTPSStrings c))
      \<and> length (lsProxy ls) = length (mfSplit (cfListenProxyStrings c))
      \<and> length (lsHTTPSProxyv2 ls) = length (mfSplit (cfListenHTTPSProxyv2Strings c))
      \<and> Reconfigure (stZipCache env) (stGetwd env (gRootDir (cfGeneral c))) (cfZip c) (zipServingInstance (stZipCache env))
        = (Returns None, z, dmZip d)
      \<and> setAuth env (c\<lparr>cfListeners := ls, cfListenMetrics := fd\<rparr>) = Runs (apAuth (dmApp d))
      \<and> apConfig (dmApp d) = c\<lparr>cfListeners := ls, cfListenMetrics := fd, cfZip := z\<rparr>
      \<and> startServers env (dmApp d) (listenerConfigs (gMaxConns (cfGeneral c) > 0) ls) = Runs (dmServers d)"
    using c ls fd c3 z by (intro exI [of _ c] exI [of _ ls] exI [of _ fd] exI [of _ z]) simp
qed

text \<open>The layers of a listener.\<close>

fun isLimited :: "go_listener \<Rightarrow> bool" where
  "isLimited (FileListener fd) = False"
| "isLimited (SharedLimit l) = True"
| "isLimited (KeepAlive l) = isLimited l"
| "isLimited (ProxyProto l) = isLimited l"
| "isLimited (TLSListener l) = isLimited l"

definition isTLS :: "go_listener \<Rightarrow> bool" where
  "isTLS l = (case l of TLSListener l' \<Rightarrow> True | _ \<Rightarrow> False)"

lemma listenAndServe_layers:
  assumes "listenAndServe fl lc = Inr srv"
  shows "isLimited (srvListener srv) \<longleftrightarrow> lcLimited lc" and "isTLS (srvListener srv) \<longleftrightarrow> lcTLS lc"
    and "(\<And>fd. accepts fd = TCPConn) \<Longrightarrow> listenerAccept accepts (srvListener srv) \<noteq> Panics"
  using assms
  by (auto simp: listenAndServe_def Let_def isTLS_def keepAliveAccept_def isKeepAliveSetter_def split: option.splits if_splits)

lemma mfSplit_length: "mfLen f \<le> length (mfSplit f)"
proof -
  have "length xs \<le> length (concat (map (SplitString sep) xs))" for xs sep
  proof (induction xs)
    case (Cons x xs)
    have "0 < length (SplitString sep x)" by simp
    moreover have "length (concat (map (SplitString sep) (x # xs))) = length (SplitString sep x) + length (concat (map (SplitString sep) xs))"
      and "length (x # xs) = length xs + 1" by simp_all
    ultimately show ?case using Cons.IH by linarith
  qed simp
  then show ?thesis by (simp add: mfLen_def mfSplit_def)
qed

lemma listenerConfigs_props:
  shows "length (listenerConfigs m ls) = length (lsHTTP ls) + length (lsHTTPS ls) + length (lsProxy ls) + length (lsHTTPSProxyv2 ls)"
    and "length (filter lcTLS (listenerConfigs m ls)) = length (lsHTTPS ls) + length (lsHTTPSProxyv2 ls)"
    and "lc \<in> set (listenerConfigs m ls) \<Longrightarrow> lcLimited lc = m"
  by (auto simp: listenerConfigs_def listenHTTPFD_def listenHTTPSFD_def listenProxyFD_def ListenHTTPSProxyv2FD_def o_def filter_map)

lemma servers_tls:
  "list_all2 (\<lambda>lc srv. listenAndServe fl lc = Inr srv) lcs srvs \<Longrightarrow>
     length (filter (\<lambda>srv. isTLS (srvListener srv)) srvs) = length (filter lcTLS lcs)"
proof (induction rule: list_all2_induct)
  case (Cons lc lcs srv srvs)
  then show ?case using listenAndServe_layers(2) [of fl lc srv] by simp
qed simp

lemma servers_limited:
  assumes "list_all2 (\<lambda>lc srv. listenAndServe fl lc = Inr srv) (listenerConfigs m ls) srvs" and "srv \<in> set srvs"
  shows "isLimited (srvListener srv) = m \<and> listenerAccept (\<lambda>fd. TCPConn) (srvListener srv) \<noteq> Panics"
proof -
  obtain i where i: "i < length srvs" "srv = srvs ! i" using assms(2) by (auto simp: in_set_conv_nth)
  define lc where "lc = listenerConfigs m ls ! i"
  have lc: "lc \<in> set (listenerConfigs m ls)" "listenAndServe fl lc = Inr srv"
    using list_all2_nthD2 [OF assms(1) i(1)] list_all2_lengthD [OF assms(1)] i nth_mem [of i "listenerConfigs m ls"]
    by (simp_all add: lc_def)
  show ?thesis
    using listenAndServe_layers(1) [OF lc(2)] listenAndServe_layers(3) [OF lc(2), of "\<lambda>fd. TCPConn"] listenerConfigs_props(3) [OF lc(1)]
    by simp
qed

lemma Validate_listener:
  assumes "Validate f c = []"
  shows "0 < length (mfSplit (cfListenHTTPStrings c)) + length (mfSplit (cfListenHTTPSStrings c))
    + length (mfSplit (cfListenProxyStrings c)) + length (mfSplit (cfListenHTTPSProxyv2Strings c))"
proof -
  have "validateListeners c = []" using assms by (simp add: Validate_def)
  then have "0 < mfLen (cfListenHTTPStrings c) + mfLen (cfListenHTTPSStrings c)
      + mfLen (cfListenProxyStrings c) + mfLen (cfListenHTTPSProxyv2Strings c)"
    by (auto simp: validateListeners_def split: if_splits)
  then show ?thesis
    using mfSplit_length [of "cfListenHTTPStrings c"] mfSplit_length [of "cfListenHTTPSStrings c"]
      mfSplit_length [of "cfListenHTTPSProxyv2Strings c"] mfSplit_length [of "cfListenProxyStrings c"] by linarith
qed


text \<open>A proxy listener adds 2 to the wait group and is done with it once, so a wait for all servers never ends.\<close>

lemma waitGroup_left: "waitAdds c = waitDones c + length (lsProxy (cfListeners c))"
  by (simp add: waitAdds_def waitDones_def Let_def)

definition exampleStart :: "(unit, unit) start_env" where
  "exampleStart =
     \<lparr>stVersion = ''1.0'', stArgs = [],
      stFlags = exampleFlags\<lparr>flPublicGitLabServer := ''https://gitlab.example'', flGitLabAPISecretKey := ''/key''\<rparr>,
      stReadFile = exampleKeyFile, stInitLog = (\<lambda>f l. None), stInitAccess = None, stChdir = (\<lambda>p. None),
      stGetwd = (\<lambda>p. Inr (''/srv/'' @ p)), stSocket = (\<lambda>n a. Inr (n + 3)), stFileListener = (\<lambda>fd. None),
      
      stCrypto = \<lparr>crKey = (\<lambda>s d p i. Inr s), crSeal = (\<lambda>k n p. p), crOpen = (\<lambda>k n c. Inr c), crSign = (\<lambda>k cl. Inr k),
        crParse = (\<lambda>now kf t. Inl errEOF)\<rparr>,
      stAuthDo = (\<lambda>q. Inl errEOF), stCookieGet = (\<lambda>k1 k2 r. (\<lparr>sValues = Map.empty, sPath = [], sHttpOnly = True, sSecure = False, sMaxAge = 0\<rparr>, None)),
      stCookieSave = (\<lambda>k1 k2 s r w. (None, w)), stArtifactDo = (\<lambda>q. Inl errEOF), stSign = (\<lambda>k c. Inr k),
      stDecode = (\<lambda>b. Inr None), stApiDo = (\<lambda>q. Inl errEOF), stNewCache = (\<lambda>gc c host s. (zeroLookup, s)),
      stX509 = (\<lambda>c k. Inr c), stZipCache = (\<lambda>e c. ())\<rparr>"

lemma exampleStart_runs: "\<exists>d. appMain exampleStart = Runs d"
proof -
  have "(case appMain exampleStart of Runs d \<Rightarrow> True | _ \<Rightarrow> False)" by code_simp
  then show ?thesis by (auto split: startup.splits)
qed


lemma loadConfig_root:
  "loadConfig readFile f = Inr c \<Longrightarrow> gRootDir (cfGeneral c) = flPagesRoot f \<and> zcAllowedPaths (cfZip c) = [flPagesRoot f]"
  by (auto simp: loadConfig_def generalFromFlags_def split: sum.splits)

text \<open>
  C29: the daemon changes into its root directory before the allowed paths are made absolute, and the only allowed
  path is that directory as it was given.  With a relative one, such as the default \<open>shared/pages\<close>, the path
  allowed is the directory of the same name below it, and a \<open>file\<close> URL of an archive in the root directory is
  refused.
\<close>

theorem relative_root_refused:
  assumes "appMain env = Runs d" and "flPagesRoot (stFlags env) = Join qs ''/''" and "qs \<noteq> []"
    and "\<forall>c \<in> set ws. plainComp c" and "\<forall>c \<in> set qs. plainComp c" and "\<forall>c \<in> set fs. plainComp c"
    and "stGetwd env (Join qs ''/'') = Inr (''/'' @ Join (ws @ qs) ''/'')"
    and "uPath u = ''/'' @ Join (ws @ qs @ fs) ''/''" and "\<not> belowComps qs fs"
  shows "openFileURL osOpen cwd (dmZip d) u = Inl ErrPermission"
proof -
  obtain c z where c: "loadConfig (stReadFile env) (stFlags env) = Inr c"
    and r: "Reconfigure (stZipCache env) (stGetwd env (gRootDir (cfGeneral c))) (cfZip c) (zipServingInstance (stZipCache env))
      = (Returns None, z, dmZip d)"
    using appMain_Runs(2) [OF assms(1)] by blast
  obtain allowed where a: "ziFile (dmZip d) = Some allowed"
    "NewFileSystemPath (Inr (''/'' @ Join (ws @ qs) ''/'')) [Join qs ''/''] = (zcAllowedPaths z, Inr allowed)"
    using Reconfigure_file [OF r] loadConfig_root [OF c] assms(2,7) by auto
  show ?thesis
    using relative_root_below [OF assms(4,5,3,6) a(2), of cwd osOpen] assms(8,9) a(1)
      fileSystemOpen_slash [of cwd osOpen allowed "Join (ws @ qs @ fs) ''/''"]
    by (simp add: openFileURL_def)
qed

theorem relative_root_refused_witness:
  "\<exists>d. appMain exampleStart = Runs d
    \<and> openFileURL (\<lambda>p. Inr \<lparr>fContent = p, fSeekable = True\<rparr>) (Inr ''/'') (dmZip d)
        (emptyURL\<lparr>uScheme := ''file'', uPath := ''/srv/shared/pages/site.zip''\<rparr>) = Inl ErrPermission"
proof -
  obtain d where d: "appMain exampleStart = Runs d" using exampleStart_runs by blast
  have f: "flPagesRoot (stFlags exampleStart) = Join [''shared'', ''pages''] ''/''"
    by (simp add: exampleStart_def exampleFlags_def defaultFlags_def)
  have g: "stGetwd exampleStart (Join [''shared'', ''pages''] ''/'') = Inr (''/'' @ Join ([''srv''] @ [''shared'', ''pages'']) ''/'')"
    by (simp add: exampleStart_def)
  have p: "\<forall>c \<in> set [''srv'']. plainComp c" "\<forall>c \<in> set [''shared'', ''pages'']. plainComp c" "\<forall>c \<in> set [''site.zip'']. plainComp c"
    by (simp_all add: plainComp_def)
  have b: "\<not> belowComps [''shared'', ''pages''] [''site.zip'']" by (simp add: belowComps_def)
  show ?thesis
    using d relative_root_refused [OF d f _ p g, of "emptyURL\<lparr>uScheme := ''file'', uPath := ''/srv/shared/pages/site.zip''\<rparr>"] b
    by simp
qed

end
