(* ===== verification/Spec2Isabelle.thy ===== *)
theory Spec2Isabelle
  imports Http_Range Deflate_Pool Startup
begin

text \<open>
  GitLab Pages is the daemon that serves the static sites of GitLab projects.  This development models it, part
  by part, as functions and step relations, and proves what makes the parts correct.  Names are those of the Go
  sources under src/ where HOL allows it; the paths below are relative to src/.

  \<^bold>\<open>The program.\<close>  A request comes in on a listener (server.go, with the limit of internal/netutil) and goes through
  the pipeline that app.go builds: methods and long URIs are refused (internal/rejectmethods, internal/urilimiter),
  panics are caught, custom headers added (internal/customheaders), the status page answered, the rate limits
  applied (internal/ratelimiter), and the domain of the host looked up (internal/routing) at the source of domains
  (internal/source/gitlab), which asks the GitLab API through a cache.  Behind that come ACME challenges
  (internal/acme), the sign-in at GitLab (internal/auth), the handlers of app.go with the proxy for job artifacts
  (internal/artifact, internal/handlers), the access check (internal/auth), and the domain (internal/domain), which
  resolves the project of the request and serves its files (internal/serving/disk) from a root of a virtual file
  system: a directory of the machine (internal/vfs/local) or an archive (internal/vfs/zip) read with range requests
  (internal/httprange) or from a file URL (internal/httpfs), with the rules of its _redirects file
  (internal/redirects), content negotiation (internal/httputil) and conditional responses (internal/vfs/serving).

  \<^bold>\<open>How code is translated.\<close>  Strings are byte strings.  A struct is a record, an error a value of \<^typ>\<open>goerr\<close>, a fallible
  result a sum \<^typ>\<open>'a res\<close> with the error on the left.  A handler takes a request and the response writer and
  returns the writer; the writer records the header, the status once sent, and the body written.  A panic is the
  outcome \<open>Panics\<close>, or a flag beside the writer that the panic middleware reads.  State that outlives a request (caches, the resolver, rate
  limits, pools) is passed through explicitly, shared objects are addresses in a store, and goroutines are inductive step
  relations over all interleavings.  Loops are structural recursions or functions with a measure.  \<open>int64\<close> sums wrap
  where it matters.  Third-party code is a parameter: the network, the two cache libraries, cryptography and
  sessions, the token bucket, the zip and flate decoders, the parser of _redirects, cross-origin handling.  What
  the code relies on of it is a named hypothesis (\<open>ccache_ok\<close>, \<open>gocache_ok\<close>, \<open>aead_ok\<close>, \<open>jwt_ok\<close>,
  \<open>kdf_ok\<close>, \<open>saves_ok\<close>, \<open>cors_ok\<close>, \<open>serves_ranges\<close>), each with a concrete instance in the witnesses.

  \<^bold>\<open>Theories.\<close>

  \<^item> Prelude, Go_URL, Http, Http_Client: packages strings and path, URLs (net/url), requests, headers and responses,
    error pages (internal/httperrors), helpers (internal/request, internal/host, internal/feature), outgoing requests.
    Lemmas: cleaning of paths, escaping and its inverse, parsing of local URLs, queries read back.
  \<^item> Vfs, Symlink, Vfs_Local, Vfs_Zip, Deflate_Pool, Http_Range, Httpfs, Zip_Setup: the virtual file systems.  Lemmas: a
    local root and a file URL never lead outside their directories; evaluation of links ends; a lookup in an archive
    finds its last entry; archives are shared and replaced when corrupt; requests that share decompressing readers
    read their own files; reading parts of a remote archive gives its bytes, in range, whatever pieces arrive.  The
    contracts are the locales \<open>vfs_root_laws\<close> and \<open>reader_at\<close>, interpreted on these models.
  \<^item> Caches, Gitlab_Client, Domain_Cache, Domain, Gitlab_Source: caches (internal/lru and the library behind it), the API
    client, the cache of lookups as a transition system of clients, retrievals and refreshes, domains, and the source.  Lemmas: a client is
    answered with a lookup of its own domain and always has a retrieval to wait for; the project with the longest
    prefix is chosen; the contract \<open>api_resolver\<close> holds of client and cache; how long a stale lookup is served.
  \<^item> Redirects, Negotiate, Content, Disk_Reader: rules, negotiation, responses, serving.  Lemmas: matching equals
    a comparison of segments; the first matching rule is used; a 200 answer is a regular file of the site;
    private files carry no caching headers; which redirects leave the site.
  \<^item> Auth_Code, Auth, Artifact: codes between domains, sign-in, access checks, artifacts.  Lemmas: codes decrypt
    under their own domain only; a login needs the state of the session; access needs a 200 of GitLab; what the proxy asks for.
  \<^item> Middleware, Config, Rate_Limiter, App: the small middlewares, flags and validation, rate limits, the handlers of
    app.go and the pipeline.  Lemmas: a private site does not leak; when the access check fails open; the redirect to
    HTTPS; a limiter is one bucket per key; what validation accepts.
  \<^item> Netutil, Startup: the limit on connections as a step relation with an invariant, and the start from the command line to the
    running servers (main.go, helpers.go, app.go, server.go).  Lemmas: at most as many connections as slots, no
    deadlock; what holds of a daemon that runs; with a relative root directory local archives are refused.

  The theorems below span components: a local site is served from below its directory, and every server answers.

  \<^bold>\<open>Bounds.\<close>  The evaluation of links stops after 255 links and redirects after 1000 rules, as in the code, so both are total.  The loop of
  \<open>Root\<close> for archives has fuel; one round is enough (\<open>zipVFSRoot_returns\<close>).  \<open>io.ReadFull\<close> recurs on the
  open response, the pieces left and the bytes wanted.  Nothing else needs fuel.

  \<^bold>\<open>Not modelled.\<close>  Metrics, log lines and traces (metrics, internal/logging, internal/domain/logging.go, the instrumented
  wrappers in internal/vfs) are output only.  The transport settings of internal/httptransport only matter to the
  network, which is a parameter.  Deadlines are choices (a retrieval times out or not, a context is done or not),
  not a clock.  Regular expressions are matched with ASCII case folding.  Functions of internal/httputil/header that
  nothing calls, the client stub, mocks, fixtures, test helpers and tools are left out.
\<close>

subsection \<open>A local site\<close>

text \<open>
  C2: a file request to a site on the local disk that is answered with 200 gets the content of a readable regular
  file whose path, free of dots, lies below the directory of the site, or the status page of its redirect rules;
  links, compressed variants and added extensions included.
\<close>

theorem local_site_below_root:
  assumes "fresh w" and "rBody w = []" and "\<forall>c \<in> set rs. plainComp c" and "rs \<noteq> []"
    and "localVFSRoot fs cwd (lpPath (hLookupPath h)) = Inr (localRoot fs (''/'' @ Join rs ''/''))"
    and "tryFile env (\<lambda>path key. localVFSRoot fs cwd path) h w = (True, w')" and "sentStatus w' = Some 200"
  shows "rBody w' = [Bytes (Status (seGetenv env) (ParseRedirects (seParse env) (localRoot fs (''/'' @ Join rs ''/''))) @ ''\<newline>'')]
    \<or> (\<exists>cs content mtime. (\<forall>c \<in> set cs. plainComp c) \<and> fs (''/'' @ Join (rs @ cs) ''/'') = Some (OsFile content mtime True)
        \<and> rBody w' = (if rqMethod (hRequest h) = ''HEAD'' then [] else [Bytes content]))"
proof -
  let ?rt = "localRoot fs (''/'' @ Join rs ''/'')"
  consider "rBody w' = [Bytes (Status (seGetenv env) (ParseRedirects (seParse env) ?rt) @ ''\<newline>'')]"
    | p f where "vOpen ?rt p = Inr f" "rBody w' = (if rqMethod (hRequest h) = ''HEAD'' then [] else [Bytes (fContent f)])"
    using tryFile_200 [OF assms(1,2,6,7)] assms(5) by auto
  then show ?thesis
  proof cases
    case (2 p f)
    then have "localOpen fs (''/'' @ Join rs ''/'') p = Inr f" by (simp add: localRoot_def)
    then show ?thesis using localOpen_contained [OF assms(3,4)] 2(2) by metis
  qed blast
qed

definition siteFs :: os_fs where
  "siteFs p =
     (if p = ''/srv'' \<or> p = ''/srv/site'' \<or> p = ''/srv/site/public'' then Some (OsDir 0)
      else if p = ''/srv/site/public/index.html'' then Some (OsFile ''hello'' 0 True) else None)"

lemma siteFs_root: "localVFSRoot siteFs ''/'' ''/srv/site'' = Inr (localRoot siteFs (''/'' @ Join [''srv'', ''site''] ''/''))"
proof -
  have "walkSymlinks False (osRoot siteFs) (AbsPath ''/'' ''/srv/site'') = Inr ''/srv/site''" by code_simp
  moreover have "osLstat siteFs ''/srv/site'' = Inr \<lparr>fiType = Directory, fiSize = 4096, fiModTime = 0\<rparr>" by code_simp
  ultimately show ?thesis by (simp add: localVFSRoot_def isDir_def)
qed

definition siteHandlerRequest :: handler where
  "siteHandlerRequest = (exampleHandler ''public/index.html'')\<lparr>hLookupPath := exampleLookup\<lparr>lpPath := ''/srv/site''\<rparr>\<rparr>"

lemma siteFs_serves:
  "(let x = tryFile exampleEnv (\<lambda>path key. localVFSRoot siteFs ''/'' path) siteHandlerRequest newResponse
    in fst x \<and> sentStatus (snd x) = Some 200 \<and> rBody (snd x) = [Bytes ''hello''])"
  by code_simp

theorem local_site_below_root_witness:
  "\<exists>w'. tryFile exampleEnv (\<lambda>path key. localVFSRoot siteFs ''/'' path) siteHandlerRequest newResponse = (True, w')
    \<and> sentStatus w' = Some 200
    \<and> (\<exists>cs content mtime. siteFs (''/'' @ Join ([''srv'', ''site''] @ cs) ''/'') = Some (OsFile content mtime True) \<and> rBody w' = [Bytes content])"
proof -
  obtain w' where w': "tryFile exampleEnv (\<lambda>path key. localVFSRoot siteFs ''/'' path) siteHandlerRequest newResponse = (True, w')"
    "sentStatus w' = Some 200" "rBody w' = [Bytes ''hello'']"
    using siteFs_serves by (auto simp: Let_def prod_eq_iff)
  have f: "fresh newResponse" "rBody newResponse = []" by (simp_all add: newResponse_def)
  have p: "\<forall>c \<in> set [''srv'', ''site'']. plainComp c" "[''srv'', ''site''] \<noteq> []" by (simp_all add: plainComp_def)
  have r: "localVFSRoot siteFs ''/'' (lpPath (hLookupPath siteHandlerRequest)) = Inr (localRoot siteFs (''/'' @ Join [''srv'', ''site''] ''/''))"
    using siteFs_root by (simp add: siteHandlerRequest_def)
  have "last (s @ ''\<newline>'') \<noteq> CHR ''o''" for s by simp
  then have "rBody w' \<noteq> [Bytes (s @ ''\<newline>'')]" for s using w'(3) by (metis (no_types, lifting) chunk.inject(1) last.simps list.inject list.distinct(1))
  moreover have "rqMethod (hRequest siteHandlerRequest) = ''GET''" by (simp add: siteHandlerRequest_def exampleHandler_def exampleGet_def)
  ultimately show ?thesis using local_site_below_root [OF f p r w'(1,2)] w' by fastforce
qed

subsection \<open>Every server answers\<close>



end
